(* ===== verification/Prelude.thy ===== *)
theory Prelude imports Main "HOL-Library.Sublist" "HOL-Library.Char_ord" "HOL-Library.List_Lexorder" "HOL-Library.Product_Lexorder" begin

text \<open>
  The part of Go's string, error and time vocabulary that every component shares, and the generic
  lemmas the component proofs use.

  Strings are byte strings (\<open>char list\<close>). The functions of package \<open>strings\<close> are
  translated for ASCII text: white space is the six ASCII space bytes and lower-casing moves
  \<open>A\<close>..\<open>Z\<close> only, so bytes from 128 up pass through unchanged.
  Times are nanoseconds since the Unix epoch, in UTC, as an unbounded integer.
\<close>

named_theorems go_simps "defining equations of the modelled Go library, for evaluating closed terms"
named_theorems inv_intros "introduction rules for the invariants the operations keep"
named_theorems os_frames "what a system call leaves unchanged"

section \<open>Package strings\<close>

type_synonym gotime = int
type_synonym duration = int

text \<open>Go's zero \<open>time.Time\<close>: the first instant of year 1.\<close>

definition zero_time :: gotime where
  "zero_time = - 62135596800 * 10 ^ 9"

definition is_space :: "char \<Rightarrow> bool" where
  "is_space c = (c \<in> set [CHR ''\<newline>'', CHR '' '', CHR 0x09, CHR 0x0B, CHR 0x0C, CHR 0x0D])"

definition is_digit :: "char \<Rightarrow> bool" where
  "is_digit c = (of_char c \<ge> (48 :: nat) \<and> of_char c \<le> (57 :: nat))"

definition is_lower :: "char \<Rightarrow> bool" where
  "is_lower c = (of_char c \<ge> (97 :: nat) \<and> of_char c \<le> (122 :: nat))"

definition is_upper :: "char \<Rightarrow> bool" where
  "is_upper c = (of_char c \<ge> (65 :: nat) \<and> of_char c \<le> (90 :: nat))"

definition lower_char :: "char \<Rightarrow> char" where
  "lower_char c = (if is_upper c then char_of (of_char c + (32 :: nat)) else c)"

definition to_lower :: "string \<Rightarrow> string" where
  "to_lower s = map lower_char s"

definition has_prefix :: "string \<Rightarrow> string \<Rightarrow> bool" where
  "has_prefix s p = (take (length p) s = p)"

fun str_contains :: "string \<Rightarrow> string \<Rightarrow> bool" where
  "str_contains [] sub = (sub = [])"
| "str_contains (c # s) sub = (has_prefix (c # s) sub \<or> str_contains s sub)"

definition trim_left :: "(char \<Rightarrow> bool) \<Rightarrow> string \<Rightarrow> string" where
  "trim_left P s = dropWhile P s"

definition trim_right :: "(char \<Rightarrow> bool) \<Rightarrow> string \<Rightarrow> string" where
  "trim_right P s = rev (dropWhile P (rev s))"

definition trim :: "(char \<Rightarrow> bool) \<Rightarrow> string \<Rightarrow> string" where
  "trim P s = trim_right P (trim_left P s)"

definition trim_space :: "string \<Rightarrow> string" where
  "trim_space s = trim is_space s"

text \<open>\<open>strings.Fields\<close>: the maximal runs of non-space bytes.\<close>

function Fields :: "string \<Rightarrow> string list" where
  "Fields s = (let t = dropWhile is_space s
     in if t = [] then []
        else takeWhile (\<lambda>c. \<not> is_space c) t # Fields (dropWhile (\<lambda>c. \<not> is_space c) t))"
  by pat_completeness auto
termination
proof (relation "measure length", goal_cases)
  case 1
  show ?case by simp
next
  case (2 s t)
  from 2 obtain c r where t: "t = c # r" by (metis neq_Nil_conv)
  with 2 have "\<not> is_space c" by (metis hd_dropWhile list.sel(1) list.discI)
  with t have "length (dropWhile (\<lambda>c. \<not> is_space c) t) < length t"
    by (simp add: le_imp_less_Suc length_dropWhile_le)
  moreover have "length t \<le> length s"
    using 2 by (simp add: length_dropWhile_le)
  ultimately show ?case by simp
qed

declare Fields.simps [simp del]

fun join_with :: "string \<Rightarrow> string list \<Rightarrow> string" where
  "join_with sep [] = []"
| "join_with sep [x] = x"
| "join_with sep (x # y # xs) = x @ sep @ join_with sep (y # xs)"

text \<open>\<open>strings.Split\<close> with a one-byte separator: never empty, \<open>[[]]\<close> for the empty string.\<close>

fun split_on :: "char \<Rightarrow> string \<Rightarrow> string list" where
  "split_on c [] = [[]]"
| "split_on c (x # xs) =
     (if x = c then [] # split_on c xs
      else case split_on c xs of [] \<Rightarrow> [[x]] | w # ws \<Rightarrow> (x # w) # ws)"

text \<open>\<open>strings.Cut\<close> with a one-byte separator: before, after, found.\<close>

definition cut_at :: "char \<Rightarrow> string \<Rightarrow> string \<times> string \<times> bool" where
  "cut_at c s = (if c \<in> set s
     then (takeWhile (\<lambda>x. x \<noteq> c) s, tl (dropWhile (\<lambda>x. x \<noteq> c) s), True)
     else (s, [], False))"

section \<open>Decimal numbers: strconv\<close>

definition digit_char :: "nat \<Rightarrow> char" where
  "digit_char d = char_of (48 + d)"

fun show_nat :: "nat \<Rightarrow> string" where
  "show_nat n = (if n < 10 then [digit_char n] else show_nat (n div 10) @ [digit_char (n mod 10)])"

declare show_nat.simps [simp del]

definition itoa :: "int \<Rightarrow> string" where
  "itoa i = (if i < 0 then CHR ''-'' # show_nat (nat (- i)) else show_nat (nat i))"

text \<open>The same over integers, which evaluates large numbers by binary division.\<close>

function show_int :: "int \<Rightarrow> string" where
  "show_int i = (if i < 10 then [digit_char (nat i)] else show_int (i div 10) @ [digit_char (nat (i mod 10))])"
  by pat_completeness auto
termination by (relation "measure nat") auto

declare show_int.simps [simp del]

lemma show_nat_int: "show_nat n = show_int (int n)"
proof (induction n rule: less_induct)
  case (less n)
  show ?case
  proof (cases "n < 10")
    case True
    then show ?thesis by (simp add: show_nat.simps [of n] show_int.simps [of "int n"])
  next
    case False
    then have "show_nat (n div 10) = show_int (int n div 10)" using less [of "n div 10"] by (simp add: zdiv_int)
    with False show ?thesis
      by (simp add: show_nat.simps [of n] show_int.simps [of "int n"] nat_mod_distrib zmod_int)
  qed
qed

lemma itoa_code [code]: "itoa i = (if i < 0 then CHR ''-'' # show_int (- i) else show_int i)"
  by (simp add: itoa_def show_nat_int)

definition digits_value :: "string \<Rightarrow> nat" where
  "digits_value s = foldl (\<lambda>acc c. acc * 10 + (of_char c - 48)) 0 s"

text \<open>
  \<open>strconv.ParseInt(s, 10, 64)\<close> and \<open>strconv.Atoi\<close> (a 64-bit \<open>int\<close>): an optional sign,
  at least one digit, nothing else, and a value in the range of 64 bits.
\<close>

definition parse_int64 :: "string \<Rightarrow> int option" where
  "parse_int64 s =
     (let neg = (s \<noteq> [] \<and> hd s = CHR ''-'');
          ds = (if s \<noteq> [] \<and> (hd s = CHR ''-'' \<or> hd s = CHR ''+'') then tl s else s);
          v = (if neg then - int (digits_value ds) else int (digits_value ds))
      in if ds = [] \<or> \<not> list_all is_digit ds then None
         else if v < - (2 ^ 63) \<or> v > 2 ^ 63 - 1 then None
         else Some v)"

lemmas string_simps [go_simps] =
  is_space_def is_digit_def is_lower_def is_upper_def lower_char_def to_lower_def has_prefix_def
  trim_left_def trim_right_def trim_def trim_space_def cut_at_def digit_char_def itoa_def
  digits_value_def parse_int64_def

section \<open>Lemmas on strings\<close>

lemma has_prefix_iff: "has_prefix s p \<longleftrightarrow> prefix p s"
  by (auto simp: has_prefix_def prefix_def) (metis append_take_drop_id)

lemma str_contains_iff: "str_contains s sub \<longleftrightarrow> sublist sub s"
  by (induction s) (auto simp: has_prefix_iff sublist_Cons_right)

lemma str_contains_append: "str_contains s sub \<Longrightarrow> str_contains (pre @ s @ post) sub"
  unfolding str_contains_iff by (meson sublist_appendI sublist_order.order_trans)

lemma fields_step:
  assumes "w \<noteq> []" "list_all (\<lambda>c. \<not> is_space c) w" "s = [] \<or> is_space (hd s)"
  shows "Fields (w @ s) = w # Fields s"
proof -
  have all: "\<forall>c \<in> set w. \<not> is_space c" using assms(2) by (simp add: list_all_iff)
  have dw: "dropWhile is_space (w @ s) = w @ s" using assms(1) all by (cases w) auto
  have tk: "takeWhile (\<lambda>c. \<not> is_space c) (w @ s) = w"
    using all assms(3) by (cases s) (auto simp: takeWhile_append2)
  have dr: "dropWhile (\<lambda>c. \<not> is_space c) (w @ s) = s"
    using all assms(3) by (cases s) (auto simp: dropWhile_append2)
  show ?thesis
    using assms(1) by (subst Fields.simps) (simp add: Let_def dw tk dr)
qed

lemma fields_Nil [simp]: "Fields [] = []"
  by (subst Fields.simps) simp

lemma fields_space [simp]: "is_space c \<Longrightarrow> Fields (c # s) = Fields s"
  by (subst Fields.simps, subst (2) Fields.simps) simp

lemma space_is_space [simp]: "is_space CHR '' ''"
  by (simp add: is_space_def)

definition word :: "string \<Rightarrow> bool" where
  "word w \<longleftrightarrow> w \<noteq> [] \<and> list_all (\<lambda>c. \<not> is_space c) w"

lemma fields_words: "w \<in> set (Fields s) \<Longrightarrow> word w"
proof (induction s rule: Fields.induct)
  case (1 s)
  let ?t = "dropWhile is_space s"
  show ?case
  proof (cases "?t = []")
    case True
    with "1.prems" show ?thesis by (subst (asm) Fields.simps) simp
  next
    case False
    then have hd: "\<not> is_space (hd ?t)" by (simp add: hd_dropWhile)
    have "Fields s = takeWhile (\<lambda>c. \<not> is_space c) ?t # Fields (dropWhile (\<lambda>c. \<not> is_space c) ?t)"
      using False by (subst Fields.simps) (simp add: Let_def)
    with "1.prems" consider "w = takeWhile (\<lambda>c. \<not> is_space c) ?t"
      | "w \<in> set (Fields (dropWhile (\<lambda>c. \<not> is_space c) ?t))" by auto
    then show ?thesis
    proof cases
      case 1
      have "w \<noteq> []" using False hd 1 by (cases ?t) auto
      moreover have "list_all (\<lambda>c. \<not> is_space c) w"
        using 1 by (auto simp: list_all_iff dest: set_takeWhileD)
      ultimately show ?thesis by (simp add: word_def)
    next
      case 2
      with "1.IH" False show ?thesis by blast
    qed
  qed
qed

lemma fields_join: "list_all word ws \<Longrightarrow> Fields (join_with '' '' ws) = ws"
proof (induction ws rule: induct_list012)
  case (2 x)
  then show ?case using fields_step [of x "[]"] by (simp add: word_def)
next
  case (3 x y zs)
  have rest: "join_with '' '' (x # y # zs) = x @ (CHR '' '' # join_with '' '' (y # zs))" by simp
  have "Fields (x @ (CHR '' '' # join_with '' '' (y # zs))) = x # Fields (join_with '' '' (y # zs))"
    using 3 fields_step [of x "CHR '' '' # join_with '' '' (y # zs)"] by (simp add: word_def)
  with rest 3 show ?case by simp
qed simp

lemma fields_join_fields: "Fields (join_with '' '' (Fields s)) = Fields s"
  by (rule fields_join) (auto simp: list_all_iff intro: fields_words)

lemma digit_char_digit [simp]: "d < 10 \<Longrightarrow> is_digit (digit_char d)" "d < 10 \<Longrightarrow> of_char (digit_char d) = 48 + d"
  by (simp_all add: is_digit_def digit_char_def take_bit_nat_eq_self)

lemma show_nat_digits: "list_all is_digit (show_nat n) \<and> show_nat n \<noteq> []"
proof (induction n rule: show_nat.induct)
  case (1 n)
  then show ?case by (subst (1 2) show_nat.simps) simp
qed

lemma digits_value_snoc: "digits_value (s @ [c]) = digits_value s * 10 + (of_char c - 48)"
  by (simp add: digits_value_def)

lemma digits_value_show_nat [simp]: "digits_value (show_nat n) = n"
proof (induction n rule: show_nat.induct)
  case (1 n)
  then show ?case
    by (subst show_nat.simps) (simp add: digits_value_snoc, simp add: digits_value_def)
qed

lemma not_digit_sign: "\<not> is_digit CHR ''-''" "\<not> is_digit CHR ''+''"
  by (simp_all add: is_digit_def)

lemma parse_int64_itoa:
  assumes "- (2 ^ 63) \<le> i" "i < 2 ^ 63"
  shows "parse_int64 (itoa i) = Some i"
proof -
  obtain c cs where s: "show_nat (nat \<bar>i\<bar>) = c # cs" "is_digit c"
    using show_nat_digits [of "nat \<bar>i\<bar>"] by (cases "show_nat (nat \<bar>i\<bar>)") auto
  then have "c \<noteq> CHR ''-'' \<and> c \<noteq> CHR ''+''" using not_digit_sign by auto
  moreover have "list_all is_digit (c # cs)" using show_nat_digits [of "nat \<bar>i\<bar>"] s by simp
  moreover have "digits_value (c # cs) = nat \<bar>i\<bar>" using digits_value_show_nat [of "nat \<bar>i\<bar>"] s by simp
  ultimately show ?thesis
    using assms s by (cases "i < 0") (simp_all add: parse_int64_def itoa_def Let_def)
qed

lemma list_all2_right: "list_all2 P xs ys \<Longrightarrow> y \<in> set ys \<Longrightarrow> \<exists>x \<in> set xs. P x y"
  by (induction rule: list_all2_induct) auto

lemma list_all2_left: "list_all2 P xs ys \<Longrightarrow> x \<in> set xs \<Longrightarrow> \<exists>y \<in> set ys. P x y"
  by (induction rule: list_all2_induct) auto

section \<open>Runs of operations that share a contract\<close>

text \<open>
  A component whose operations all keep an invariant and all relate the state before to the state
  after by a preorder: both lift to any finite sequence of operations, whatever clients issue them
  and in whatever order.
\<close>

locale op_system =
  fixes step :: "'op \<Rightarrow> 's \<Rightarrow> 's"
    and ok :: "'op \<Rightarrow> bool"
    and inv :: "'s \<Rightarrow> bool"
    and rel :: "'s \<Rightarrow> 's \<Rightarrow> bool"
  assumes inv_step: "inv s \<Longrightarrow> ok x \<Longrightarrow> inv (step x s)"
    and rel_step: "inv s \<Longrightarrow> ok x \<Longrightarrow> rel s (step x s)"
    and rel_refl: "rel s s"
    and rel_trans: "rel s t \<Longrightarrow> rel t u \<Longrightarrow> rel s u"
begin

lemma inv_run: "inv s \<Longrightarrow> list_all ok xs \<Longrightarrow> inv (fold step xs s)"
  by (induction xs arbitrary: s) (auto intro: inv_step)

lemma rel_run: "inv s \<Longrightarrow> list_all ok xs \<Longrightarrow> rel s (fold step xs s)"
proof (induction xs arbitrary: s)
  case Nil
  then show ?case by (simp add: rel_refl)
next
  case (Cons x xs)
  then have "rel s (step x s)" "rel (step x s) (fold step xs (step x s))"
    by (auto intro: rel_step inv_step)
  then show ?case by (auto intro: rel_trans)
qed

text \<open>Any two points of a run are related, the earlier to the later.\<close>

lemma rel_within:
  assumes "inv s" "list_all ok (xs @ ys)"
  shows "rel (fold step xs s) (fold step (xs @ ys) s)"
  using assms by (auto intro: rel_run inv_run)

end

end
