(* ===== verification/GoErrors.thy ===== *)
theory GoErrors imports Prelude begin

text \<open>
  Go's error values. A sentinel is a package variable made with \<open>errors.New\<close>; \<open>fmt.Errorf\<close>
  keeps its format string and its operands, of which the ones under the verb w are wrapped and the
  others only printed; \<open>errors.Join\<close> wraps a list; \<open>Permanent\<close> is
  \<open>retry.PermanentError\<close>; \<open>Opaque\<close> is an error the standard
  library, the operating system or a driver produced, known by its text only. \<open>errors_is\<close> is
  \<open>errors.Is\<close> for a sentinel target and \<open>error_text\<close> is \<open>err.Error()\<close>.
  \<open>exit_code\<close> is \<open>cli.ExitCode\<close> (internal/cli/exitcode.go).
\<close>

datatype sentinel =
    ErrIllegalTransition | ErrNotFound | ErrConflict | ErrDuplicate | ErrNotDestroyed
  | ErrNotOwned | ErrStartFail | ErrNoFreePort
  | ErrChecksFailed | ErrNoSizeData | ErrUnknownModel
  | ErrModelNotFound | ErrAuthRequired | ErrNoRevision
  | ErrUsage | ErrNotImplemented | ErrWouldReplace | ErrBusy | ErrNoRows
  | Canceled | DeadlineExceeded

text \<open>The text given to \<open>errors.New\<close> at each sentinel's declaration.\<close>

fun sentinel_text :: "sentinel \<Rightarrow> string" where
  "sentinel_text ErrIllegalTransition = ''illegal state transition''"
| "sentinel_text ErrNotFound = ''deployment not found''"
| "sentinel_text ErrConflict = ''deployment changed concurrently''"
| "sentinel_text ErrDuplicate = ''deployment already exists''"
| "sentinel_text ErrNotDestroyed = ''deployment is not DESTROYED''"
| "sentinel_text ErrNotOwned = ''process is not owned by this deployment''"
| "sentinel_text ErrStartFail = ''process failed to start''"
| "sentinel_text ErrNoFreePort = ''no free port in range''"
| "sentinel_text ErrChecksFailed = ''doctor checks failed''"
| "sentinel_text ErrNoSizeData = ''model publishes no safetensors parameter data; cannot estimate size''"
| "sentinel_text ErrUnknownModel = ''unknown model''"
| "sentinel_text ErrModelNotFound = ''model not found on Hugging Face''"
| "sentinel_text ErrAuthRequired = ''model is gated or private; set HF_TOKEN to a token with access''"
| "sentinel_text ErrNoRevision =
     ''response from Hugging Face did not include an immutable revision SHA''"
| "sentinel_text ErrUsage = ''usage error''"
| "sentinel_text ErrNotImplemented = ''command is not implemented yet''"
| "sentinel_text ErrWouldReplace = ''a deployment already exists; pass --replace to replace it''"
| "sentinel_text ErrBusy = ''another IOLD lifecycle operation is running''"
| "sentinel_text ErrNoRows = ''sql: no rows in result set''"
| "sentinel_text Canceled = ''context canceled''"
| "sentinel_text DeadlineExceeded = ''context deadline exceeded''"

datatype goerr =
    Sentinel sentinel
  | Opaque string
  | Errorf string "errarg list"
  | Joined "goerr list"
  | Permanent goerr
and errarg = ArgS string | ArgD int | ArgV goerr | ArgW goerr

type_synonym 'a result = "goerr + 'a"

text \<open>\<open>errors.Is(err, sentinel)\<close>: the tree of wrapped errors, printed operands excluded.\<close>

fun errors_is :: "sentinel \<Rightarrow> goerr \<Rightarrow> bool" and arg_is :: "sentinel \<Rightarrow> errarg \<Rightarrow> bool" where
  "errors_is t (Sentinel s) = (s = t)"
| "errors_is t (Opaque x) = False"
| "errors_is t (Errorf f as) = list_ex (arg_is t) as"
| "errors_is t (Joined es) = list_ex (errors_is t) es"
| "errors_is t (Permanent e) = errors_is t e"
| "arg_is t (ArgS s) = False"
| "arg_is t (ArgD d) = False"
| "arg_is t (ArgV e) = False"
| "arg_is t (ArgW e) = errors_is t e"

text \<open>\<open>errors.As\<close> for \<open>*retry.PermanentError\<close>.\<close>

fun errors_as_permanent :: "goerr \<Rightarrow> bool" and arg_as_permanent :: "errarg \<Rightarrow> bool" where
  "errors_as_permanent (Sentinel s) = False"
| "errors_as_permanent (Opaque x) = False"
| "errors_as_permanent (Errorf f as) = list_ex arg_as_permanent as"
| "errors_as_permanent (Joined es) = list_ex errors_as_permanent es"
| "errors_as_permanent (Permanent e) = True"
| "arg_as_permanent (ArgS s) = False"
| "arg_as_permanent (ArgD d) = False"
| "arg_as_permanent (ArgV e) = False"
| "arg_as_permanent (ArgW e) = errors_as_permanent e"

text \<open>
  The verb q: double quotes round the text, with the quote, the backslash and the control bytes
  escaped as \<open>strconv.Quote\<close> does; bytes from 128 up are kept.
\<close>

definition hex_digit :: "nat \<Rightarrow> char" where
  "hex_digit d = (if d < 10 then char_of (48 + d) else char_of (87 + d))"

definition quote_char :: "char \<Rightarrow> string" where
  "quote_char c =
     (if c = CHR 0x22 then [CHR 0x5C, CHR 0x22]
      else if c = CHR 0x5C then [CHR 0x5C, CHR 0x5C]
      else if c = CHR 0x07 then [CHR 0x5C, CHR ''a'']
      else if c = CHR 0x08 then [CHR 0x5C, CHR ''b'']
      else if c = CHR 0x0C then [CHR 0x5C, CHR ''f'']
      else if c = CHR 0x0A then [CHR 0x5C, CHR ''n'']
      else if c = CHR 0x0D then [CHR 0x5C, CHR ''r'']
      else if c = CHR 0x09 then [CHR 0x5C, CHR ''t'']
      else if c = CHR 0x0B then [CHR 0x5C, CHR ''v'']
      else if of_char c < (32 :: nat) \<or> of_char c = (127 :: nat)
        then [CHR 0x5C, CHR ''x'', hex_digit (of_char c div 16), hex_digit (of_char c mod 16)]
      else [c])"

definition quote :: "string \<Rightarrow> string" where
  "quote s = [CHR 0x22] @ concat (map quote_char s) @ [CHR 0x22]"

text \<open>\<open>fmt.Sprintf\<close> for the verbs s, d, v, w, q, over operands already printed.\<close>

fun sprintf :: "string \<Rightarrow> string list \<Rightarrow> string" where
  "sprintf [] xs = []"
| "sprintf [c] xs = [c]"
| "sprintf (c # v # f) xs =
     (if c \<noteq> CHR ''%'' then c # sprintf (v # f) xs
      else if v = CHR ''%'' then v # sprintf f xs
      else case xs of [] \<Rightarrow> []
        | x # ys \<Rightarrow> (if v = CHR ''q'' then quote x else x) @ sprintf f ys)"

fun error_text :: "goerr \<Rightarrow> string" and arg_text :: "errarg \<Rightarrow> string" where
  "error_text (Sentinel s) = sentinel_text s"
| "error_text (Opaque x) = x"
| "error_text (Errorf f as) = sprintf f (map arg_text as)"
| "error_text (Joined es) = join_with [CHR 0x0A] (map error_text es)"
| "error_text (Permanent e) = error_text e"
| "arg_text (ArgS s) = s"
| "arg_text (ArgD d) = itoa d"
| "arg_text (ArgV e) = error_text e"
| "arg_text (ArgW e) = error_text e"

text \<open>\<open>fmt.Errorf("context: %w", err)\<close>.\<close>

definition wrapf :: "string \<Rightarrow> goerr \<Rightarrow> goerr" where
  "wrapf f e = Errorf f [ArgW e]"

lemma errors_is_wrapf [simp]: "errors_is t (wrapf f e) = errors_is t e"
  by (simp add: wrapf_def)

section \<open>Exit codes\<close>

definition exit_code :: "goerr option \<Rightarrow> nat" where
  "exit_code err = (case err of
     None \<Rightarrow> 0
   | Some e \<Rightarrow>
      if errors_is ErrUsage e then 2
      else if errors_is ErrUnknownModel e \<or> errors_is ErrNotFound e \<or> errors_is ErrModelNotFound e then 3
      else if errors_is ErrIllegalTransition e \<or> errors_is ErrConflict e \<or>
              errors_is ErrDuplicate e \<or> errors_is ErrNotDestroyed e then 4
      else if errors_is ErrChecksFailed e \<or> errors_is ErrAuthRequired e \<or> errors_is ErrNoRevision e then 5
      else if errors_is ErrNotImplemented e then 6
      else 1)"

lemma exit_code_None [simp]: "exit_code None = 0"
  by (simp add: exit_code_def)

text \<open>Wrapping an error with context never changes the exit code.\<close>

lemma exit_code_wrapf [simp]: "exit_code (Some (wrapf f e)) = exit_code (Some e)"
  by (simp add: exit_code_def)

lemma exit_code_zero_iff: "exit_code err = 0 \<longleftrightarrow> err = None"
  by (simp add: exit_code_def split: option.splits)

end
