(* ===== verification/PhaseMachine.thy ===== *)
theory PhaseMachine imports GoErrors begin

text \<open>
  The deployment phases and their legal transitions (internal/state/machine.go). \<open>Phase\<close> is a
  Go string type; here it is a datatype with one constructor per declared constant and
  \<open>PhaseOther\<close> for any other string, with the two conversions the code makes
  (\<open>Phase(text)\<close> and \<open>string(phase)\<close>). The transition table, \<open>CanTransition\<close> and
  \<open>checkTransition\<close> follow the source; \<open>phase_step\<close> is the state machine of
  docs/ARCHITECTURE.md section 6 as a relation, which the table implements.
\<close>

section \<open>Phases\<close>

datatype phase =
    PhaseRequested | PhaseValidating | PhaseDownloading | PhaseStarting | PhaseHealthy
  | PhaseRegistering | PhaseReady | PhaseUnregisteredHealthy | PhaseFailed | PhaseCrashed
  | PhaseDestroying | PhaseDestroyed | PhaseOther string

fun phase_text :: "phase \<Rightarrow> string" where
  "phase_text PhaseRequested = ''REQUESTED''"
| "phase_text PhaseValidating = ''VALIDATING''"
| "phase_text PhaseDownloading = ''DOWNLOADING''"
| "phase_text PhaseStarting = ''STARTING''"
| "phase_text PhaseHealthy = ''HEALTHY''"
| "phase_text PhaseRegistering = ''REGISTERING''"
| "phase_text PhaseReady = ''READY''"
| "phase_text PhaseUnregisteredHealthy = ''UNREGISTERED_HEALTHY''"
| "phase_text PhaseFailed = ''FAILED''"
| "phase_text PhaseCrashed = ''CRASHED''"
| "phase_text PhaseDestroying = ''DESTROYING''"
| "phase_text PhaseDestroyed = ''DESTROYED''"
| "phase_text (PhaseOther s) = s"

definition known_phases :: "phase list" where
  "known_phases =
     [PhaseRequested, PhaseValidating, PhaseDownloading, PhaseStarting, PhaseHealthy,
      PhaseRegistering, PhaseReady, PhaseUnregisteredHealthy, PhaseFailed, PhaseCrashed,
      PhaseDestroying, PhaseDestroyed]"

definition phase_of_text :: "string \<Rightarrow> phase" where
  "phase_of_text s =
     (case map_of (map (\<lambda>p. (phase_text p, p)) known_phases) s of
        Some p \<Rightarrow> p | None \<Rightarrow> PhaseOther s)"

definition known :: "phase \<Rightarrow> bool" where
  "known p = (p \<in> set known_phases)"

lemma known_simps [simp]:
  "known PhaseRequested" "known PhaseValidating" "known PhaseDownloading" "known PhaseStarting"
  "known PhaseHealthy" "known PhaseRegistering" "known PhaseReady" "known PhaseUnregisteredHealthy"
  "known PhaseFailed" "known PhaseCrashed" "known PhaseDestroying" "known PhaseDestroyed"
  "\<not> known (PhaseOther s)"
  by (simp_all add: known_def known_phases_def)

lemma phase_text_of_text [simp]: "phase_text (phase_of_text s) = s"
  by (simp add: phase_of_text_def known_phases_def)

lemma phase_of_text_of_known [simp]: "known p \<Longrightarrow> phase_of_text (phase_text p) = p"
  by (cases p) (simp_all add: phase_of_text_def known_phases_def)

lemma phase_of_text_eq_iff: "known p \<Longrightarrow> phase_of_text s = p \<longleftrightarrow> s = phase_text p"
  by auto

lemma known_phase_text_inj [simp]: "known p \<Longrightarrow> known q \<Longrightarrow> phase_text p = phase_text q \<longleftrightarrow> p = q"
  by (metis phase_of_text_of_known)

declare phase_text.simps [simp del, go_simps]

section \<open>The transition table\<close>

text \<open>The map literal: \<open>None\<close> for a phase that is not a key.\<close>

fun transitions :: "phase \<Rightarrow> phase list option" where
  "transitions PhaseRequested = Some [PhaseValidating]"
| "transitions PhaseValidating = Some [PhaseDownloading]"
| "transitions PhaseDownloading = Some [PhaseStarting]"
| "transitions PhaseStarting = Some [PhaseHealthy]"
| "transitions PhaseHealthy = Some [PhaseRegistering]"
| "transitions PhaseRegistering = Some [PhaseReady, PhaseUnregisteredHealthy]"
| "transitions PhaseUnregisteredHealthy = Some [PhaseRegistering, PhaseDestroying]"
| "transitions PhaseReady = Some [PhaseDestroying]"
| "transitions PhaseFailed = Some [PhaseDestroying]"
| "transitions PhaseCrashed = Some [PhaseDestroying]"
| "transitions PhaseDestroying = Some [PhaseDestroyed]"
| "transitions PhaseDestroyed = Some []"
| "transitions (PhaseOther s) = None"

definition CanTransition :: "phase \<Rightarrow> phase \<Rightarrow> bool" where
  "CanTransition p q =
     (if q = PhaseFailed then p \<noteq> PhaseDestroyed \<and> p \<noteq> PhaseFailed \<and> p \<noteq> PhaseCrashed
      else if q = PhaseCrashed
        then p \<noteq> PhaseDestroyed \<and> p \<noteq> PhaseDestroying \<and> p \<noteq> PhaseFailed \<and> p \<noteq> PhaseCrashed
      else q \<in> set (case transitions p of None \<Rightarrow> [] | Some ps \<Rightarrow> ps))"

definition checkTransition :: "phase \<Rightarrow> phase \<Rightarrow> unit result" where
  "checkTransition p q =
     (if transitions p = None
        then Inl (Errorf ''%w: unknown phase %q'' [ArgW (Sentinel ErrIllegalTransition), ArgS (phase_text p)])
      else if transitions q = None
        then Inl (Errorf ''%w: unknown phase %q'' [ArgW (Sentinel ErrIllegalTransition), ArgS (phase_text q)])
      else if \<not> CanTransition p q
        then Inl (Errorf ''%w: %s -> %s''
               [ArgW (Sentinel ErrIllegalTransition), ArgS (phase_text p), ArgS (phase_text q)])
      else Inr ())"

lemma transitions_None_iff [simp]: "transitions p = None \<longleftrightarrow> \<not> known p"
  by (cases p) simp_all

lemma checkTransition_ok_iff: "checkTransition p q = Inr () \<longleftrightarrow> known p \<and> known q \<and> CanTransition p q"
  by (simp add: checkTransition_def)

lemma checkTransition_error: "checkTransition p q = Inl e \<Longrightarrow> errors_is ErrIllegalTransition e"
  by (auto simp: checkTransition_def split: if_splits)

lemma checkTransition_error_code: "checkTransition p q = Inl e \<Longrightarrow> exit_code (Some e) = 4"
  by (auto simp: checkTransition_def exit_code_def split: if_splits)

section \<open>The documented state machine\<close>

text \<open>
  A phase is down once the deployment stopped being brought up or served: nothing may bring it
  back. It is active otherwise.
\<close>

definition down :: "phase \<Rightarrow> bool" where
  "down p = (p = PhaseFailed \<or> p = PhaseCrashed \<or> p = PhaseDestroying \<or> p = PhaseDestroyed)"

definition active :: "phase \<Rightarrow> bool" where
  "active p = (known p \<and> \<not> down p)"

inductive phase_step :: "phase \<Rightarrow> phase \<Rightarrow> bool" where
  validate: "phase_step PhaseRequested PhaseValidating"
| download: "phase_step PhaseValidating PhaseDownloading"
| start: "phase_step PhaseDownloading PhaseStarting"
| healthy: "phase_step PhaseStarting PhaseHealthy"
| register: "phase_step PhaseHealthy PhaseRegistering"
| ready: "phase_step PhaseRegistering PhaseReady"
| split: "phase_step PhaseRegistering PhaseUnregisteredHealthy"
| retry: "phase_step PhaseUnregisteredHealthy PhaseRegistering"
| fail: "active p \<or> p = PhaseDestroying \<Longrightarrow> phase_step p PhaseFailed"
| crash: "active p \<Longrightarrow> phase_step p PhaseCrashed"
| destroy: "p \<in> {PhaseReady, PhaseUnregisteredHealthy, PhaseFailed, PhaseCrashed} \<Longrightarrow>
     phase_step p PhaseDestroying"
| destroyed: "phase_step PhaseDestroying PhaseDestroyed"

inductive_cases phase_step_fromE [elim]:
  "phase_step PhaseRequested q" "phase_step PhaseValidating q" "phase_step PhaseDownloading q"
  "phase_step PhaseStarting q" "phase_step PhaseHealthy q" "phase_step PhaseRegistering q"
  "phase_step PhaseReady q" "phase_step PhaseUnregisteredHealthy q" "phase_step PhaseFailed q"
  "phase_step PhaseCrashed q" "phase_step PhaseDestroying q"

inductive_cases phase_step_destroyedE [elim!]: "phase_step PhaseDestroyed q" "phase_step (PhaseOther s) q"

inductive_simps phase_step_to:
  "phase_step p PhaseRequested" "phase_step p PhaseValidating" "phase_step p PhaseDownloading"
  "phase_step p PhaseStarting" "phase_step p PhaseHealthy" "phase_step p PhaseRegistering"
  "phase_step p PhaseReady" "phase_step p PhaseUnregisteredHealthy" "phase_step p PhaseFailed"
  "phase_step p PhaseCrashed" "phase_step p PhaseDestroying" "phase_step p PhaseDestroyed"

lemma phase_step_known: "phase_step p q \<Longrightarrow> known p \<and> known q"
  by (induction rule: phase_step.induct) (auto simp: active_def)

lemma no_step_to_other [simp]: "\<not> phase_step p (PhaseOther s)"
  using phase_step_known by fastforce

lemma checkTransition_step: "checkTransition p q = Inr () \<longleftrightarrow> phase_step p q"
  by (cases q; cases p) (simp_all add: checkTransition_ok_iff CanTransition_def phase_step_to active_def down_def)

lemma down_closed: "phase_step p q \<Longrightarrow> down p \<Longrightarrow> down q"
  by (induction rule: phase_step.induct) (auto simp: down_def active_def)

lemma down_closed_rtranclp: "phase_step\<^sup>*\<^sup>* p q \<Longrightarrow> down p \<Longrightarrow> down q"
  by (induction rule: rtranclp_induct) (auto intro: down_closed)

lemma into_destroyed: "phase_step p PhaseDestroyed \<Longrightarrow> p = PhaseDestroying"
  by (simp add: phase_step_to)

lemma destroyed_final: "phase_step\<^sup>*\<^sup>* PhaseDestroyed q \<Longrightarrow> q = PhaseDestroyed"
  by (induction rule: rtranclp_induct) (auto simp: active_def down_def)

lemma down_to_destroyed: "down p \<Longrightarrow> phase_step\<^sup>*\<^sup>* p PhaseDestroyed"
proof -
  have d: "phase_step PhaseDestroying PhaseDestroyed" by (rule destroyed)
  have "phase_step p PhaseDestroying" if "p = PhaseFailed \<or> p = PhaseCrashed"
    using that by (auto intro: destroy)
  with d show "down p \<Longrightarrow> ?thesis"
    by (auto simp: down_def intro: converse_rtranclp_into_rtranclp)
qed

lemma active_to_failed: "active p \<Longrightarrow> phase_step p PhaseFailed"
  by (simp add: phase_step_to)

section \<open>Histories\<close>

text \<open>The phases a deployment must have gone through, in order, to be in an active phase.\<close>

fun bring_up :: "phase \<Rightarrow> phase list" where
  "bring_up PhaseRequested = [PhaseRequested]"
| "bring_up PhaseValidating = [PhaseRequested, PhaseValidating]"
| "bring_up PhaseDownloading = [PhaseRequested, PhaseValidating, PhaseDownloading]"
| "bring_up PhaseStarting = [PhaseRequested, PhaseValidating, PhaseDownloading, PhaseStarting]"
| "bring_up PhaseHealthy =
     [PhaseRequested, PhaseValidating, PhaseDownloading, PhaseStarting, PhaseHealthy]"
| "bring_up PhaseRegistering =
     [PhaseRequested, PhaseValidating, PhaseDownloading, PhaseStarting, PhaseHealthy, PhaseRegistering]"
| "bring_up PhaseReady =
     [PhaseRequested, PhaseValidating, PhaseDownloading, PhaseStarting, PhaseHealthy, PhaseRegistering,
      PhaseReady]"
| "bring_up PhaseUnregisteredHealthy =
     [PhaseRequested, PhaseValidating, PhaseDownloading, PhaseStarting, PhaseHealthy, PhaseRegistering,
      PhaseUnregisteredHealthy]"
| "bring_up _ = []"

lemma bring_up_step: "phase_step p q \<Longrightarrow> subseq (bring_up q) (bring_up p @ [q])"
  by (induction rule: phase_step.induct) (simp_all add: subseq_append')

lemma history_bring_up:
  assumes "successively phase_step ps" "ps \<noteq> []" "hd ps = PhaseRequested"
  shows "subseq (bring_up (last ps)) ps"
  using assms
proof (induction ps rule: rev_induct)
  case Nil
  then show ?case by simp
next
  case (snoc q ps)
  show ?case
  proof (cases "ps = []")
    case True
    with snoc.prems show ?thesis by simp
  next
    case False
    with snoc.prems have "subseq (bring_up (last ps)) ps" "phase_step (last ps) q"
      by (auto intro: snoc.IH simp: successively_append_iff)
    then have "subseq (bring_up q) (bring_up (last ps) @ [q])"
      and "subseq (bring_up (last ps) @ [q]) (ps @ [q])"
      by (auto intro: bring_up_step simp: subseq_append')
    then have "subseq (bring_up q) (ps @ [q])"
      by (rule subseq_order.order_trans)
    then show ?thesis by simp
  qed
qed

section \<open>Properties\<close>


text \<open>
  No deployment is served without the whole bring-up: a history of accepted transitions that
  starts at REQUESTED and ends at READY or UNREGISTERED_HEALTHY contains VALIDATING,
  DOWNLOADING, STARTING, HEALTHY and REGISTERING in this order.
\<close>

theorem served_after_bring_up:
  assumes "successively (\<lambda>p q. checkTransition p q = Inr ()) ps" "ps \<noteq> []" "hd ps = PhaseRequested"
    and "last ps = PhaseReady \<or> last ps = PhaseUnregisteredHealthy"
  shows "subseq [PhaseRequested, PhaseValidating, PhaseDownloading, PhaseStarting, PhaseHealthy,
    PhaseRegistering] ps"
proof -
  have "subseq (bring_up (last ps)) ps"
    using assms(1-3) by (intro history_bring_up) (simp_all add: checkTransition_step)
  moreover have "subseq (bring_up PhaseRegistering) (bring_up (last ps))"
    using assms(4) by auto
  ultimately show ?thesis by (auto intro: subseq_order.order_trans)
qed

theorem served_after_bring_up_witness:
  "subseq [PhaseRequested, PhaseValidating, PhaseDownloading, PhaseStarting, PhaseHealthy,
      PhaseRegistering]
    [PhaseRequested, PhaseValidating, PhaseDownloading, PhaseStarting, PhaseHealthy,
      PhaseRegistering, PhaseUnregisteredHealthy, PhaseRegistering, PhaseReady]"
  by (rule served_after_bring_up) (simp_all add: checkTransition_def CanTransition_def)

text \<open>
  C29. Destruction is always possible and final: from any phase a deployment can be in, a failed,
  crashed or destroying one stays down for ever, whatever accepted transitions follow, and DESTROYED
  stays within reach; DESTROYED itself has no successor, and only DESTROYING leads to it.
\<close>

theorem down_is_final:
  assumes "(\<lambda>p q. checkTransition p q = Inr ())\<^sup>*\<^sup>* p q" "down p"
  shows "down q \<and> \<not> active q \<and> (\<lambda>p q. checkTransition p q = Inr ())\<^sup>*\<^sup>* q PhaseDestroyed \<and>
    (p = PhaseDestroyed \<longrightarrow> q = PhaseDestroyed)"
  using assms unfolding checkTransition_step
  by (auto simp: active_def intro: down_closed_rtranclp down_to_destroyed dest: destroyed_final)

theorem down_is_final_witness:
  "down PhaseFailed \<and> \<not> active PhaseFailed \<and>
   (\<lambda>p q. checkTransition p q = Inr ())\<^sup>*\<^sup>* PhaseFailed PhaseDestroyed"
proof -
  have "(\<lambda>p q. checkTransition p q = Inr ())\<^sup>*\<^sup>* PhaseDestroying PhaseFailed"
    by (rule r_into_rtranclp) (simp add: checkTransition_def CanTransition_def)
  from down_is_final [OF this] show ?thesis by (simp add: down_def)
qed

end
