(* ===== verification/StateStore.thy ===== *)
theory StateStore imports PhaseMachine begin

text \<open>
  The deployment store (internal/state/store.go). The SQLite table is a list of rows, a
  statement is a function on the store, and every statement may fail: the store carries the answers
  the driver is going to give (\<open>faults\<close>), one consumed per driver call, a missing one meaning
  success. A failed statement leaves the table as it was (the code relies on single statements being
  atomic). Timestamp columns hold what \<open>time.Parse\<close> makes of their text.
  \<open>unique_text\<close> is the text of the driver's error for a duplicate primary key: the driver is
  not part of the repository, and what the code relies on is stated in \<open>store_inv\<close>.
\<close>

section \<open>Deployments and rows\<close>

definition second :: duration where
  "second = 10 ^ 9"

definition trunc_second :: "gotime \<Rightarrow> gotime" where
  "trunc_second t = t div second * second"

text \<open>A TEXT timestamp column: empty, a text \<open>time.Parse\<close> accepts, or one it rejects.\<close>

datatype stamp = EmptyText | TimeText gotime | BadText string

text \<open>
  The order of the columns in \<open>ORDER BY created_at\<close>: RFC 3339 texts in UTC sort as their
  times, the empty text comes first, texts that are not timestamps last.
\<close>

instantiation stamp :: linorder
begin

fun less_eq_stamp :: "stamp \<Rightarrow> stamp \<Rightarrow> bool" where
  "less_eq_stamp EmptyText y = True"
| "less_eq_stamp (TimeText a) EmptyText = False"
| "less_eq_stamp (TimeText a) (TimeText b) = (a \<le> b)"
| "less_eq_stamp (TimeText a) (BadText b) = True"
| "less_eq_stamp (BadText a) (BadText b) = (a \<le> b)"
| "less_eq_stamp (BadText a) y = False"

definition less_stamp :: "stamp \<Rightarrow> stamp \<Rightarrow> bool" where
  "less_stamp x y = (x \<le> y \<and> \<not> y \<le> x)"

instance
proof
  fix x y z :: stamp
  show "(x < y) = (x \<le> y \<and> \<not> y \<le> x)" by (rule less_stamp_def)
  show "x \<le> x" by (cases x) auto
  show "x \<le> y \<Longrightarrow> y \<le> z \<Longrightarrow> x \<le> z" by (cases x; cases y; cases z) auto
  show "x \<le> y \<Longrightarrow> y \<le> x \<Longrightarrow> x = y" by (cases x; cases y) auto
  show "x \<le> y \<or> y \<le> x" by (cases x; cases y) auto
qed

end

record deployment =
  d_id :: string
  d_alias :: string
  d_artifact :: string
  d_artifact_revision :: string
  d_model_cache_dir :: string
  d_port :: int
  d_pid :: int
  d_command :: string
  d_started_at :: gotime
  d_start_token :: string
  d_phase :: phase
  d_failure_reason :: string
  d_idempotency_key :: string
  d_created_at :: gotime
  d_updated_at :: gotime

record row =
  r_id :: string
  r_alias :: string
  r_artifact :: string
  r_artifact_revision :: string
  r_model_cache_dir :: string
  r_port :: int
  r_pid :: int
  r_command :: string
  r_started_at :: stamp
  r_start_token :: string
  r_phase :: string
  r_failure_reason :: string
  r_idempotency_key :: string
  r_created_at :: stamp
  r_updated_at :: stamp

text \<open>\<open>Format(time.RFC3339)\<close> drops the fraction of a second; \<open>RFC3339Nano\<close> keeps it.\<close>

definition rfc3339 :: "gotime \<Rightarrow> stamp" where
  "rfc3339 t = TimeText (trunc_second t)"

definition rfc3339_nano :: "gotime \<Rightarrow> stamp" where
  "rfc3339_nano t = TimeText t"

definition parse_time :: "stamp \<Rightarrow> gotime result" where
  "parse_time x = (case x of
     TimeText t \<Rightarrow> Inr t
   | EmptyText \<Rightarrow> Inl (Opaque ''parsing time'')
   | BadText s \<Rightarrow> Inl (Opaque ''parsing time''))"

definition stamp_text :: "stamp \<Rightarrow> string" where
  "stamp_text x = (case x of EmptyText \<Rightarrow> '''' | TimeText t \<Rightarrow> itoa t | BadText s \<Rightarrow> s)"

definition formatOptionalTime :: "gotime \<Rightarrow> stamp" where
  "formatOptionalTime t = (if t = zero_time then EmptyText else rfc3339_nano t)"

definition parseOptionalTime :: "stamp \<Rightarrow> gotime result" where
  "parseOptionalTime x = (if x = EmptyText then Inr zero_time else parse_time x)"

lemma parseOptionalTime_format [simp]: "parseOptionalTime (formatOptionalTime t) = Inr t"
  by (simp add: parseOptionalTime_def formatOptionalTime_def rfc3339_nano_def parse_time_def)

lemma parseOptionalTime_nano [simp]: "parseOptionalTime (rfc3339_nano t) = Inr t"
  by (simp add: parseOptionalTime_def rfc3339_nano_def parse_time_def)

definition scanDeployment :: "row \<Rightarrow> deployment result" where
  "scanDeployment r =
     (case parseOptionalTime (r_started_at r) of
        Inl e \<Rightarrow> Inl (Errorf ''corrupt started_at %q: %w'' [ArgS (stamp_text (r_started_at r)), ArgW e])
      | Inr started \<Rightarrow>
     (case parse_time (r_created_at r) of
        Inl e \<Rightarrow> Inl (Errorf ''corrupt created_at %q: %w'' [ArgS (stamp_text (r_created_at r)), ArgW e])
      | Inr created \<Rightarrow>
     (case parse_time (r_updated_at r) of
        Inl e \<Rightarrow> Inl (Errorf ''corrupt updated_at %q: %w'' [ArgS (stamp_text (r_updated_at r)), ArgW e])
      | Inr updated \<Rightarrow>
        Inr \<lparr>d_id = r_id r, d_alias = r_alias r, d_artifact = r_artifact r,
             d_artifact_revision = r_artifact_revision r, d_model_cache_dir = r_model_cache_dir r,
             d_port = r_port r, d_pid = r_pid r, d_command = r_command r, d_started_at = started,
             d_start_token = r_start_token r, d_phase = phase_of_text (r_phase r),
             d_failure_reason = r_failure_reason r, d_idempotency_key = r_idempotency_key r,
             d_created_at = created, d_updated_at = updated\<rparr>)))"

section \<open>The database\<close>

record store =
  rows :: "row list"
  columns :: "string list"
  user_version :: nat
  faults :: "goerr option list"
  unique_text :: string

text \<open>One call into the driver: it fails with the next fault, or runs.\<close>

definition sql_call :: "(store \<Rightarrow> 'a result \<times> store) \<Rightarrow> store \<Rightarrow> 'a result \<times> store" where
  "sql_call f s = (case faults s of
     [] \<Rightarrow> f s
   | None # fs \<Rightarrow> f (s\<lparr>faults := fs\<rparr>)
   | Some e # fs \<Rightarrow> (Inl e, s\<lparr>faults := fs\<rparr>))"

definition sql_update :: "(row \<Rightarrow> bool) \<Rightarrow> (row \<Rightarrow> row) \<Rightarrow> store \<Rightarrow> nat result \<times> store" where
  "sql_update P f = sql_call (\<lambda>s.
     (Inr (length (filter P (rows s))), s\<lparr>rows := map (\<lambda>r. if P r then f r else r) (rows s)\<rparr>))"

definition sql_delete :: "(row \<Rightarrow> bool) \<Rightarrow> store \<Rightarrow> nat result \<times> store" where
  "sql_delete P = sql_call (\<lambda>s.
     (Inr (length (filter P (rows s))), s\<lparr>rows := filter (\<lambda>r. \<not> P r) (rows s)\<rparr>))"

definition sql_insert :: "row \<Rightarrow> store \<Rightarrow> unit result \<times> store" where
  "sql_insert r = sql_call (\<lambda>s.
     if r_id r \<in> r_id ` set (rows s) then (Inl (Opaque (unique_text s)), s)
     else (Inr (), s\<lparr>rows := rows s @ [r]\<rparr>))"

definition sql_select :: "(row \<Rightarrow> bool) \<Rightarrow> store \<Rightarrow> row list result \<times> store" where
  "sql_select P = sql_call (\<lambda>s. (Inr (filter P (rows s)), s))"

definition rows_affected :: "nat \<Rightarrow> store \<Rightarrow> nat result \<times> store" where
  "rows_affected n = sql_call (\<lambda>s. (Inr n, s))"

section \<open>Operations\<close>

definition isUniqueViolation :: "goerr \<Rightarrow> bool" where
  "isUniqueViolation e = str_contains (error_text e) ''constraint failed''"

definition row_of :: "deployment \<Rightarrow> row" where
  "row_of d =
     \<lparr>r_id = d_id d, r_alias = d_alias d, r_artifact = d_artifact d,
      r_artifact_revision = d_artifact_revision d, r_model_cache_dir = d_model_cache_dir d,
      r_port = d_port d, r_pid = d_pid d, r_command = d_command d,
      r_started_at = formatOptionalTime (d_started_at d), r_start_token = d_start_token d,
      r_phase = phase_text (d_phase d), r_failure_reason = d_failure_reason d,
      r_idempotency_key = d_idempotency_key d, r_created_at = rfc3339 (d_created_at d),
      r_updated_at = rfc3339 (d_updated_at d)\<rparr>"

definition Create :: "gotime \<Rightarrow> deployment \<Rightarrow> store \<Rightarrow> deployment result \<times> store" where
  "Create now d s =
     (let d' = d\<lparr>d_phase := PhaseRequested, d_failure_reason := '''',
                 d_created_at := trunc_second now, d_updated_at := trunc_second now\<rparr>
      in case sql_insert (row_of d') s of
           (Inl e, s1) \<Rightarrow>
             (if isUniqueViolation e
              then (Inl (Errorf ''%w: %s'' [ArgW (Sentinel ErrDuplicate), ArgS (d_id d)]), s1)
              else (Inl e, s1))
         | (Inr u, s1) \<Rightarrow> (Inr d', s1))"

definition Get :: "string \<Rightarrow> store \<Rightarrow> deployment result \<times> store" where
  "Get i s = (case sql_select (\<lambda>r. r_id r = i) s of
     (Inl e, s1) \<Rightarrow> (Inl e, s1)
   | (Inr [], s1) \<Rightarrow> (Inl (Sentinel ErrNotFound), s1)
   | (Inr (r # rs), s1) \<Rightarrow> (scanDeployment r, s1))"

fun scan_all :: "row list \<Rightarrow> deployment list result" where
  "scan_all [] = Inr []"
| "scan_all (r # rs) =
     (case scanDeployment r of
        Inl e \<Rightarrow> Inl e
      | Inr d \<Rightarrow> (case scan_all rs of Inl e \<Rightarrow> Inl e | Inr ds \<Rightarrow> Inr (d # ds)))"

text \<open>\<open>List\<close>: the query, the scans in order, then \<open>rows.Err()\<close>.\<close>

definition ListAll :: "store \<Rightarrow> deployment list result \<times> store" where
  "ListAll s = (case sql_select (\<lambda>r. True) s of
     (Inl e, s1) \<Rightarrow> (Inl e, s1)
   | (Inr rs, s1) \<Rightarrow>
      (case scan_all (sort_key (\<lambda>r. (r_created_at r, r_id r)) rs) of
         Inl e \<Rightarrow> (Inl e, s1)
       | Inr ds \<Rightarrow> sql_call (\<lambda>s. (Inr ds, s)) s1))"

definition Transition ::
  "gotime \<Rightarrow> string \<Rightarrow> phase \<Rightarrow> phase \<Rightarrow> string \<Rightarrow> store \<Rightarrow> unit result \<times> store" where
  "Transition now i p q reason s =
     (case checkTransition p q of
        Inl e \<Rightarrow> (Inl e, s)
      | Inr u \<Rightarrow>
        (let why = (if q \<noteq> PhaseFailed \<and> q \<noteq> PhaseCrashed then '''' else reason)
         in case sql_update (\<lambda>r. r_id r = i \<and> r_phase r = phase_text p)
                 (\<lambda>r. r\<lparr>r_phase := phase_text q, r_failure_reason := why, r_updated_at := rfc3339 now\<rparr>) s of
              (Inl e, s1) \<Rightarrow> (Inl e, s1)
            | (Inr n, s1) \<Rightarrow>
              (case rows_affected n s1 of
                 (Inl e, s2) \<Rightarrow> (Inl e, s2)
               | (Inr m, s2) \<Rightarrow>
                 (if m = 0
                  then case Get i s2 of
                         (Inl e, s3) \<Rightarrow> (Inl e, s3)
                       | (Inr cur, s3) \<Rightarrow>
                         (Inl (Errorf ''%w: expected phase %s, found %s''
                            [ArgW (Sentinel ErrConflict), ArgS (phase_text p),
                             ArgS (phase_text (d_phase cur))]), s3)
                  else (Inr (), s2)))))"

definition expectOneRuntimeRow :: "nat \<Rightarrow> string \<Rightarrow> phase \<Rightarrow> store \<Rightarrow> unit result \<times> store" where
  "expectOneRuntimeRow n i expected s =
     (case rows_affected n s of
        (Inl e, s1) \<Rightarrow> (Inl e, s1)
      | (Inr m, s1) \<Rightarrow>
        (if m = 0
         then case Get i s1 of
                (Inl e, s2) \<Rightarrow> (if errors_is ErrNotFound e then (Inl (Sentinel ErrNotFound), s2) else (Inl e, s2))
              | (Inr cur, s2) \<Rightarrow>
                (Inl (Errorf ''%w: expected phase %s with no runtime, found phase %s pid %d''
                   [ArgW (Sentinel ErrConflict), ArgS (phase_text expected),
                    ArgS (phase_text (d_phase cur)), ArgD (d_pid cur)]), s2)
         else (Inr (), s1)))"

definition SetRuntimeIntent ::
  "gotime \<Rightarrow> string \<Rightarrow> int \<Rightarrow> string \<Rightarrow> store \<Rightarrow> unit result \<times> store" where
  "SetRuntimeIntent now i port command s =
     (case sql_update (\<lambda>r. r_id r = i \<and> r_phase r = phase_text PhaseDownloading)
             (\<lambda>r. r\<lparr>r_pid := 0, r_port := port, r_command := command, r_started_at := EmptyText,
                    r_start_token := '''', r_updated_at := rfc3339_nano now\<rparr>) s of
        (Inl e, s1) \<Rightarrow> (Inl e, s1)
      | (Inr n, s1) \<Rightarrow> expectOneRuntimeRow n i PhaseDownloading s1)"

definition SetRuntime ::
  "gotime \<Rightarrow> string \<Rightarrow> int \<Rightarrow> int \<Rightarrow> string \<Rightarrow> gotime \<Rightarrow> string \<Rightarrow> store \<Rightarrow> unit result \<times> store" where
  "SetRuntime now i pid port command started token s =
     (case sql_update (\<lambda>r. r_id r = i \<and> r_phase r = phase_text PhaseStarting \<and> r_pid r = 0)
             (\<lambda>r. r\<lparr>r_pid := pid, r_port := port, r_command := command,
                    r_started_at := formatOptionalTime started, r_start_token := token,
                    r_updated_at := rfc3339_nano now\<rparr>) s of
        (Inl e, s1) \<Rightarrow> (Inl e, s1)
      | (Inr n, s1) \<Rightarrow> expectOneRuntimeRow n i PhaseStarting s1)"

definition Delete :: "string \<Rightarrow> store \<Rightarrow> unit result \<times> store" where
  "Delete i s =
     (case sql_delete (\<lambda>r. r_id r = i \<and> r_phase r = phase_text PhaseDestroyed) s of
        (Inl e, s1) \<Rightarrow> (Inl e, s1)
      | (Inr n, s1) \<Rightarrow>
        (case rows_affected n s1 of
           (Inl e, s2) \<Rightarrow> (Inl e, s2)
         | (Inr m, s2) \<Rightarrow>
           (if m = 0
            then case Get i s2 of
                   (Inl e, s3) \<Rightarrow>
                     (if errors_is ErrNotFound e then (Inl (Sentinel ErrNotFound), s3)
                      else (Inl (Errorf ''%w: %s'' [ArgW (Sentinel ErrNotDestroyed), ArgS i]), s3))
                 | (Inr cur, s3) \<Rightarrow>
                     (Inl (Errorf ''%w: %s'' [ArgW (Sentinel ErrNotDestroyed), ArgS i]), s3)
            else (Inr (), s2))))"

section \<open>Migrations\<close>

text \<open>
  The migrations only append: the first creates the table with its eleven columns, each later one
  adds a column. \<open>migration i\<close> is the effect of the statement on the column list; each runs in
  a transaction with the bump of \<open>user_version\<close>, so a failure of either statement or of the
  commit rolls both back.
\<close>

datatype migration_stmt = CreateTable "string list" | AddColumn string

definition migrations :: "migration_stmt list" where
  "migrations =
     [CreateTable [''id'', ''alias'', ''artifact'', ''artifact_revision'', ''port'', ''pid'', ''phase'',
                   ''failure_reason'', ''idempotency_key'', ''created_at'', ''updated_at''],
      AddColumn ''command'', AddColumn ''started_at'', AddColumn ''start_token'',
      AddColumn ''model_cache_dir'']"

fun apply_stmt :: "migration_stmt \<Rightarrow> string list \<Rightarrow> string list result" where
  "apply_stmt (CreateTable cs) old =
     (if old \<noteq> [] then Inl (Opaque ''table deployments already exists'') else Inr cs)"
| "apply_stmt (AddColumn c) old =
     (if old = [] then Inl (Opaque ''no such table: deployments'')
      else if c \<in> set old then Inl (Opaque ''duplicate column name'') else Inr (old @ [c]))"

definition run_migration :: "nat \<Rightarrow> store \<Rightarrow> unit result \<times> store" where
  "run_migration i s =
     (case sql_call (\<lambda>s. (Inr (), s)) s of
        (Inl e, s1) \<Rightarrow> (Inl e, s1)
      | (Inr u, s1) \<Rightarrow>
        (case sql_call (\<lambda>s. (apply_stmt (migrations ! i) (columns s), s)) s1 of
           (Inl e, s2) \<Rightarrow> (Inl (Errorf ''apply migration %d: %w'' [ArgD (int i + 1), ArgW e]), s2)
         | (Inr cs, s2) \<Rightarrow>
           (case sql_call (\<lambda>s. (Inr (), s)) s2 of
              (Inl e, s3) \<Rightarrow> (Inl (Errorf ''bump schema version to %d: %w'' [ArgD (int i + 1), ArgW e]), s3)
            | (Inr u, s3) \<Rightarrow>
              (case sql_call (\<lambda>s. (Inr (), s\<lparr>columns := cs, user_version := i + 1\<rparr>)) s3 of
                 (Inl e, s4) \<Rightarrow> (Inl (Errorf ''commit migration %d: %w'' [ArgD (int i + 1), ArgW e]), s4)
               | (Inr u, s4) \<Rightarrow> (Inr (), s4)))))"

function migrate_from :: "nat \<Rightarrow> store \<Rightarrow> unit result \<times> store" where
  "migrate_from i s =
     (if i < length migrations
      then case run_migration i s of
             (Inl e, s1) \<Rightarrow> (Inl e, s1)
           | (Inr u, s1) \<Rightarrow> migrate_from (Suc i) s1
      else (Inr (), s))"
  by pat_completeness auto
termination by (relation "measure (\<lambda>(i, s). length migrations - i)") auto

declare migrate_from.simps [simp del]

text \<open>
  \<open>user_version\<close> is a natural number: only this program writes it, and it never writes a
  negative one.
\<close>

definition migrate :: "store \<Rightarrow> unit result \<times> store" where
  "migrate s =
     (case sql_call (\<lambda>s. (Inr (user_version s), s)) s of
        (Inl e, s1) \<Rightarrow> (Inl (Errorf ''read schema version: %w'' [ArgW e]), s1)
      | (Inr version, s1) \<Rightarrow>
        (if version > length migrations
         then (Inl (Errorf ''state db schema version %d is newer than this binary supports (%d)''
                [ArgD (int version), ArgD (int (length migrations))]), s1)
         else migrate_from version s1))"

section \<open>Laws of the driver calls\<close>

text \<open>Stores that differ in the fault schedule only.\<close>

definition same_data :: "store \<Rightarrow> store \<Rightarrow> bool" where
  "same_data s s' = (rows s' = rows s \<and> columns s' = columns s \<and>
     user_version s' = user_version s \<and> unique_text s' = unique_text s)"

lemma same_data_refl [simp]: "same_data s s"
  by (simp add: same_data_def)

lemma same_data_faults [simp]:
  "same_data s (t\<lparr>faults := fs\<rparr>) = same_data s t" "same_data (s\<lparr>faults := fs\<rparr>) t = same_data s t"
  by (simp_all add: same_data_def)

lemma same_data_trans [trans]: "same_data s t \<Longrightarrow> same_data t u \<Longrightarrow> same_data s u"
  by (simp add: same_data_def)

lemma same_data_rows: "same_data s s' \<Longrightarrow> rows s' = rows s" "same_data s s' \<Longrightarrow> unique_text s' = unique_text s"
  by (simp_all add: same_data_def)

lemma sql_callE:
  assumes "sql_call f s = (res, s')"
  obtains (fault) e where "res = Inl e" "same_data s s'"
  | (run) t where "same_data s t" "f t = (res, s')"
proof (cases "faults s")
  case Nil
  with assms run [of s] show ?thesis by (simp add: sql_call_def)
next
  case (Cons x fs)
  with assms fault run [of "s\<lparr>faults := fs\<rparr>"] show ?thesis
    by (cases x) (auto simp: sql_call_def)
qed

lemma sql_call_no_faults: "faults s = [] \<Longrightarrow> sql_call f s = f s"
  by (simp add: sql_call_def)

lemma sql_update_effect:
  assumes "sql_update P f s = (res, s')"
  obtains (fault) e where "res = Inl e" "same_data s s'"
  | (run) "res = Inr (length (filter P (rows s)))"
      "same_data (s\<lparr>rows := map (\<lambda>r. if P r then f r else r) (rows s)\<rparr>) s'"
  using assms unfolding sql_update_def
  by (elim sql_callE) (auto simp: same_data_def intro: fault run)

lemma sql_delete_effect:
  assumes "sql_delete P s = (res, s')"
  obtains (fault) e where "res = Inl e" "same_data s s'"
  | (run) "res = Inr (length (filter P (rows s)))"
      "same_data (s\<lparr>rows := filter (\<lambda>r. \<not> P r) (rows s)\<rparr>) s'"
  using assms unfolding sql_delete_def
  by (elim sql_callE) (auto simp: same_data_def intro: fault run)

lemma rows_affected_effect:
  "rows_affected n s = (res, s') \<Longrightarrow> same_data s s' \<and> (res = Inr n \<or> (\<exists>e. res = Inl e))"
  unfolding rows_affected_def by (elim sql_callE) auto

lemma Get_effect: "Get i s = (res, s') \<Longrightarrow> same_data s s'"
proof -
  assume g: "Get i s = (res, s')"
  obtain q s1 where q: "sql_select (\<lambda>r. r_id r = i) s = (q, s1)" by fastforce
  then have "same_data s s1"
    unfolding sql_select_def by (elim sql_callE) auto
  with g q show ?thesis
    by (auto simp: Get_def split: sum.splits list.splits)
qed

lemma ListAll_effect: "ListAll s = (res, s') \<Longrightarrow> same_data s s'"
proof -
  assume l: "ListAll s = (res, s')"
  obtain q s1 where q: "sql_select (\<lambda>r. True) s = (q, s1)" by fastforce
  then have s1: "same_data s s1"
    unfolding sql_select_def by (elim sql_callE) auto
  have "same_data s s2" if "sql_call (\<lambda>s. (Inr ds, s)) s1 = (r, s2)" for ds r s2
    using that s1 by (elim sql_callE) (auto intro: same_data_trans)
  with l q s1 show ?thesis
    by (auto simp: ListAll_def split: sum.splits)
qed

text \<open>
  The guarded update every writing operation is: one UPDATE whose WHERE clause is the guard,
  then the row count, and on no row an error, whatever the reads that word it.
\<close>

definition update_where :: "(row \<Rightarrow> bool) \<Rightarrow> (row \<Rightarrow> row) \<Rightarrow> row list \<Rightarrow> row list" where
  "update_where P f rs = map (\<lambda>r. if P r then f r else r) rs"

lemma update_where_none: "filter P rs = [] \<Longrightarrow> update_where P f rs = rs"
  by (induction rs) (auto simp: update_where_def split: if_splits)

definition guarded :: "(row \<Rightarrow> bool) \<Rightarrow> (row list \<Rightarrow> row list) \<Rightarrow> unit result \<times> store \<Rightarrow> store \<Rightarrow> bool" where
  "guarded P change out s =
     ((\<exists>e. fst out = Inl e) \<and> same_data s (snd out) \<or>
      (\<exists>r\<in>set (rows s). P r) \<and> same_data (s\<lparr>rows := change (rows s)\<rparr>) (snd out))"

lemma guarded_cases:
  assumes "guarded P change (res, s') s"
  obtains (refused) e where "res = Inl e" "same_data s s'"
  | (written) r where "r \<in> set (rows s)" "P r" "same_data (s\<lparr>rows := change (rows s)\<rparr>) s'"
  using assms by (auto simp: guarded_def)

lemma guarded_ok:
  assumes "guarded P change (Inr u, s') s"
  shows "(\<exists>r\<in>set (rows s). P r) \<and> rows s' = change (rows s)"
  using assms by (auto simp: guarded_def dest: same_data_rows)

text \<open>
  What follows the statement in every writer: the row count, and on no row one more read that words
  the error. It leaves the data alone.
\<close>

definition count_tail ::
  "string \<Rightarrow> (goerr \<Rightarrow> goerr) \<Rightarrow> (deployment \<Rightarrow> goerr) \<Rightarrow> nat \<Rightarrow> store \<Rightarrow> unit result \<times> store" where
  "count_tail i f g n s =
     (case rows_affected n s of
        (Inl e, s1) \<Rightarrow> (Inl e, s1)
      | (Inr m, s1) \<Rightarrow>
        (if m = 0
         then case Get i s1 of
                (Inl e, s2) \<Rightarrow> (Inl (f e), s2)
              | (Inr cur, s2) \<Rightarrow> (Inl (g cur), s2)
         else (Inr (), s1)))"

lemma count_tail_data: "same_data s (snd (count_tail i f g n s))"
  and count_tail_none: "\<exists>e. fst (count_tail i f g 0 s) = Inl e"
proof -
  obtain r s1 where a: "rows_affected n s = (r, s1)" by fastforce
  obtain x s2 where x: "Get i s1 = (x, s2)" by fastforce
  from rows_affected_effect [OF a] Get_effect [OF x] show "same_data s (snd (count_tail i f g n s))"
    unfolding count_tail_def a by (auto simp: x split: sum.split intro: same_data_trans)
  obtain r s1 where a: "rows_affected 0 s = (r, s1)" by fastforce
  obtain x s2 where x: "Get i s1 = (x, s2)" by fastforce
  from rows_affected_effect [OF a] show "\<exists>e. fst (count_tail i f g 0 s) = Inl e"
    unfolding count_tail_def a by (auto simp: x split: sum.split)
qed

lemma guarded_writer:
  assumes out: "out = (case n1 of Inl e \<Rightarrow> (Inl e, s1) | Inr n \<Rightarrow> count_tail i f g n s1)"
    and eff: "(\<exists>e. n1 = Inl e) \<and> same_data s s1 \<or>
      n1 = Inr (length (filter P (rows s))) \<and> same_data (s\<lparr>rows := change (rows s)\<rparr>) s1"
    and none: "filter P (rows s) = [] \<Longrightarrow> change (rows s) = rows s"
  shows "guarded P change out s"
proof (cases n1)
  case (Inl e)
  with eff out show ?thesis by (simp add: guarded_def)
next
  case (Inr n)
  with eff have n: "n = length (filter P (rows s))" and s1: "same_data (s\<lparr>rows := change (rows s)\<rparr>) s1"
    by auto
  have o: "out = count_tail i f g n s1" using out Inr by simp
  have d: "same_data (s\<lparr>rows := change (rows s)\<rparr>) (snd out)"
    using s1 count_tail_data o by (auto intro: same_data_trans)
  show ?thesis
  proof (cases "filter P (rows s) = []")
    case True
    with none d have "same_data s (snd out)" by (simp add: same_data_def)
    moreover have "\<exists>e. fst out = Inl e" using count_tail_none o n True by simp
    ultimately show ?thesis by (simp add: guarded_def)
  next
    case False
    then have "\<exists>r\<in>set (rows s). P r" by (auto simp: filter_empty_conv)
    with d show ?thesis by (simp add: guarded_def)
  qed
qed

lemma expectOne_tail:
  "expectOneRuntimeRow n i p = count_tail i
     (\<lambda>e. if errors_is ErrNotFound e then Sentinel ErrNotFound else e)
     (\<lambda>cur. Errorf ''%w: expected phase %s with no runtime, found phase %s pid %d''
        [ArgW (Sentinel ErrConflict), ArgS (phase_text p), ArgS (phase_text (d_phase cur)), ArgD (d_pid cur)]) n"
  by (rule ext) (simp add: expectOneRuntimeRow_def count_tail_def if_distrib split: sum.split prod.split)

lemma update_effect_where:
  assumes "sql_update P f s = (n1, s1)"
  shows "(\<exists>e. n1 = Inl e) \<and> same_data s s1 \<or>
    n1 = Inr (length (filter P (rows s))) \<and> same_data (s\<lparr>rows := update_where P f (rows s)\<rparr>) s1"
  using assms by (cases rule: sql_update_effect) (auto simp: update_where_def)

lemma delete_effect_filter:
  assumes "sql_delete P s = (n1, s1)"
  shows "(\<exists>e. n1 = Inl e) \<and> same_data s s1 \<or>
    n1 = Inr (length (filter P (rows s))) \<and> same_data (s\<lparr>rows := filter (\<lambda>r. \<not> P r) (rows s)\<rparr>) s1"
  using assms by (cases rule: sql_delete_effect) auto

definition in_phase :: "string \<Rightarrow> phase \<Rightarrow> row \<Rightarrow> bool" where
  "in_phase i p r = (r_id r = i \<and> r_phase r = phase_text p)"

definition transition_row :: "gotime \<Rightarrow> phase \<Rightarrow> string \<Rightarrow> row \<Rightarrow> row" where
  "transition_row now q reason r =
     r\<lparr>r_phase := phase_text q,
       r_failure_reason := (if q \<noteq> PhaseFailed \<and> q \<noteq> PhaseCrashed then '''' else reason),
       r_updated_at := rfc3339 now\<rparr>"

definition intent_row :: "gotime \<Rightarrow> int \<Rightarrow> string \<Rightarrow> row \<Rightarrow> row" where
  "intent_row now port command r =
     r\<lparr>r_pid := 0, r_port := port, r_command := command, r_started_at := EmptyText,
       r_start_token := '''', r_updated_at := rfc3339_nano now\<rparr>"

definition runtime_row :: "gotime \<Rightarrow> int \<Rightarrow> int \<Rightarrow> string \<Rightarrow> gotime \<Rightarrow> string \<Rightarrow> row \<Rightarrow> row" where
  "runtime_row now pid port command started token r =
     r\<lparr>r_pid := pid, r_port := port, r_command := command,
       r_started_at := formatOptionalTime started, r_start_token := token,
       r_updated_at := rfc3339_nano now\<rparr>"

lemma Transition_guarded:
  assumes "phase_step p q"
  shows "guarded (in_phase i p) (update_where (in_phase i p) (transition_row now q reason))
    (Transition now i p q reason s) s"
proof -
  obtain n1 s1 where u: "sql_update (in_phase i p) (transition_row now q reason) s = (n1, s1)" by fastforce
  have "Transition now i p q reason s = (case n1 of Inl e \<Rightarrow> (Inl e, s1) | Inr n \<Rightarrow> count_tail i (\<lambda>e. e)
      (\<lambda>cur. Errorf ''%w: expected phase %s, found %s''
         [ArgW (Sentinel ErrConflict), ArgS (phase_text p), ArgS (phase_text (d_phase cur))]) n s1)"
    using assms u unfolding checkTransition_step [symmetric] Transition_def count_tail_def
    by (simp add: Let_def in_phase_def [abs_def] transition_row_def [abs_def] split: sum.split)
  then show ?thesis
    by (rule guarded_writer) (fact update_effect_where [OF u], simp add: update_where_none)
qed

lemma Transition_illegal:
  "\<not> phase_step p q \<Longrightarrow> \<exists>e. Transition now i p q reason s = (Inl e, s) \<and> errors_is ErrIllegalTransition e"
  by (cases "checkTransition p q")
    (auto simp: Transition_def checkTransition_step [symmetric] checkTransition_error)

lemma SetRuntimeIntent_guarded:
  "guarded (in_phase i PhaseDownloading)
     (update_where (in_phase i PhaseDownloading) (intent_row now port command))
     (SetRuntimeIntent now i port command s) s"
proof -
  obtain n1 s1 where u: "sql_update (in_phase i PhaseDownloading) (intent_row now port command) s = (n1, s1)"
    by fastforce
  have "SetRuntimeIntent now i port command s =
      (case n1 of Inl e \<Rightarrow> (Inl e, s1) | Inr n \<Rightarrow> expectOneRuntimeRow n i PhaseDownloading s1)"
    using u by (simp add: SetRuntimeIntent_def in_phase_def [abs_def] intent_row_def [abs_def] split: sum.split)
  then show ?thesis unfolding expectOne_tail
    by (rule guarded_writer) (fact update_effect_where [OF u], simp add: update_where_none)
qed

lemma SetRuntime_guarded:
  "guarded (\<lambda>r. in_phase i PhaseStarting r \<and> r_pid r = 0)
     (update_where (\<lambda>r. in_phase i PhaseStarting r \<and> r_pid r = 0)
       (runtime_row now pid port command started token))
     (SetRuntime now i pid port command started token s) s"
proof -
  obtain n1 s1 where u: "sql_update (\<lambda>r. in_phase i PhaseStarting r \<and> r_pid r = 0)
      (runtime_row now pid port command started token) s = (n1, s1)"
    by fastforce
  have "SetRuntime now i pid port command started token s =
      (case n1 of Inl e \<Rightarrow> (Inl e, s1) | Inr n \<Rightarrow> expectOneRuntimeRow n i PhaseStarting s1)"
    using u by (simp add: SetRuntime_def in_phase_def [abs_def] runtime_row_def [abs_def] conj_assoc
        split: sum.split)
  then show ?thesis unfolding expectOne_tail
    by (rule guarded_writer) (fact update_effect_where [OF u], simp add: update_where_none)
qed

lemma Delete_guarded:
  "guarded (in_phase i PhaseDestroyed) (filter (\<lambda>r. \<not> in_phase i PhaseDestroyed r)) (Delete i s) s"
proof -
  obtain n1 s1 where u: "sql_delete (in_phase i PhaseDestroyed) s = (n1, s1)" by fastforce
  have "Delete i s = (case n1 of Inl e \<Rightarrow> (Inl e, s1) | Inr n \<Rightarrow> count_tail i
      (\<lambda>e. if errors_is ErrNotFound e then Sentinel ErrNotFound
        else Errorf ''%w: %s'' [ArgW (Sentinel ErrNotDestroyed), ArgS i])
      (\<lambda>cur. Errorf ''%w: %s'' [ArgW (Sentinel ErrNotDestroyed), ArgS i]) n s1)"
    using u by (simp add: Delete_def count_tail_def in_phase_def [abs_def] if_distrib
        split: sum.split prod.split)
  then show ?thesis
    by (rule guarded_writer) (fact delete_effect_filter [OF u], auto simp: filter_empty_conv filter_id_conv)
qed

lemma Create_effect:
  fixes now d
  defines "d' \<equiv> d\<lparr>d_phase := PhaseRequested, d_failure_reason := '''',
                 d_created_at := trunc_second now, d_updated_at := trunc_second now\<rparr>"
  assumes "Create now d s = (res, s')"
  obtains (refused) e where "res = Inl e" "same_data s s'"
  | (created) "res = Inr d'" "d_id d \<notin> r_id ` set (rows s)"
      "same_data (s\<lparr>rows := rows s @ [row_of d']\<rparr>) s'"
proof -
  obtain r s1 where i: "sql_insert (row_of d') s = (r, s1)" by fastforce
  then have "(\<exists>e. r = Inl e) \<and> same_data s s1 \<or>
      r = Inr () \<and> d_id d \<notin> r_id ` set (rows s) \<and> same_data (s\<lparr>rows := rows s @ [row_of d']\<rparr>) s1"
    unfolding sql_insert_def
    by (elim sql_callE) (auto simp: same_data_def row_of_def d'_def split: if_splits)
  with assms i refused created show ?thesis
    by (auto simp: Create_def Let_def split: sum.splits if_splits)
qed

section \<open>Rows by id\<close>

definition row_at :: "row list \<Rightarrow> string \<Rightarrow> row option" where
  "row_at rs i = find (\<lambda>r. r_id r = i) rs"

definition phase_at :: "store \<Rightarrow> string \<Rightarrow> phase option" where
  "phase_at s i = map_option (\<lambda>r. phase_of_text (r_phase r)) (row_at (rows s) i)"

lemma row_at_Nil [simp]: "row_at [] i = None"
  by (simp add: row_at_def)

lemma row_at_Cons [simp]: "row_at (r # rs) i = (if r_id r = i then Some r else row_at rs i)"
  by (simp add: row_at_def)

lemma row_at_Some: "row_at rs i = Some r \<Longrightarrow> r \<in> set rs \<and> r_id r = i"
  by (auto simp: row_at_def find_Some_iff)

lemma row_at_None: "row_at rs i = None \<longleftrightarrow> i \<notin> r_id ` set rs"
  by (auto simp: row_at_def find_None_iff)

lemma row_at_unique: "distinct (map r_id rs) \<Longrightarrow> r \<in> set rs \<Longrightarrow> row_at rs (r_id r) = Some r"
  by (induction rs) auto

lemma row_at_append: "row_at (rs @ [r]) i =
    (case row_at rs i of None \<Rightarrow> (if r_id r = i then Some r else None) | Some x \<Rightarrow> Some x)"
  by (induction rs) auto

lemma row_at_update:
  assumes "\<And>r. r_id (f r) = r_id r"
  shows "row_at (update_where P f rs) i = map_option (\<lambda>r. if P r then f r else r) (row_at rs i)"
  using assms by (induction rs) (auto simp: update_where_def)

lemma row_at_remove:
  assumes "distinct (map r_id rs)" "\<And>r. P r \<Longrightarrow> r_id r = i" "x \<in> set rs" "P x"
  shows "row_at (filter (\<lambda>r. \<not> P r) rs) j = (if j = i then None else row_at rs j)"
  using assms
proof (induction rs)
  case (Cons r rs)
  show ?case
  proof (cases "P r")
    case True
    with Cons.prems have r: "r_id r = i" "i \<notin> r_id ` set rs" by auto
    have "\<not> P y" if "y \<in> set rs" for y
      using that Cons.prems(2) [of y] r(2) by (metis imageI)
    then have "filter (\<lambda>r. \<not> P r) rs = rs" by (simp add: filter_id_conv)
    with True r show ?thesis by (auto simp: row_at_None)
  next
    case False
    with Cons.prems(3,4) have x: "x \<in> set rs" by auto
    have "r_id x = i" using Cons.prems(2,4) by simp
    with x Cons.prems(1) have "r_id r \<noteq> i" by (metis distinct.simps(2) image_eqI list.set_map list.simps(9))
    moreover have "row_at (filter (\<lambda>r. \<not> P r) rs) j = (if j = i then None else row_at rs j)"
      using Cons.prems x by (intro Cons.IH) auto
    ultimately show ?thesis using False by (cases "j = i") auto
  qed
qed simp

lemma row_fields [simp]:
  "r_id (transition_row now q why r) = r_id r" "r_id (intent_row now port cmd r) = r_id r"
  "r_id (runtime_row now pid port cmd st tok r) = r_id r"
  by (simp_all add: transition_row_def intent_row_def runtime_row_def)

lemma update_ids: "(\<And>r. r_id (f r) = r_id r) \<Longrightarrow> map r_id (update_where P f rs) = map r_id rs"
  by (induction rs) (auto simp: update_where_def)

lemma phase_at_data: "same_data s t \<Longrightarrow> phase_at t = phase_at s"
  by (simp add: phase_at_def same_data_def fun_eq_iff)

section \<open>The store invariant\<close>

text \<open>
  Ids are unique; every row scans and is in a known phase; a row that records a process id has left
  the phases before the launch; and the driver's duplicate-key error is recognisable.
\<close>

definition before_launch :: "phase \<Rightarrow> bool" where
  "before_launch p = (p = PhaseRequested \<or> p = PhaseValidating \<or> p = PhaseDownloading)"

definition time_ok :: "stamp \<Rightarrow> bool" where
  "time_ok x = (case x of TimeText t \<Rightarrow> True | _ \<Rightarrow> False)"

definition row_ok :: "row \<Rightarrow> bool" where
  "row_ok r =
     ((r_started_at r = EmptyText \<or> time_ok (r_started_at r)) \<and>
      time_ok (r_created_at r) \<and> time_ok (r_updated_at r) \<and>
      known (phase_of_text (r_phase r)) \<and>
      (r_pid r \<noteq> 0 \<longrightarrow> \<not> before_launch (phase_of_text (r_phase r))))"

definition store_inv :: "store \<Rightarrow> bool" where
  "store_inv s = (distinct (map r_id (rows s)) \<and> list_all row_ok (rows s) \<and>
     str_contains (unique_text s) ''constraint failed'')"

lemma store_inv_data: "same_data s t \<Longrightarrow> store_inv t = store_inv s"
  by (simp add: store_inv_def same_data_def)

lemma store_inv_row: "store_inv s \<Longrightarrow> row_at (rows s) i = Some r \<Longrightarrow> row_ok r"
  by (auto simp: store_inv_def list_all_iff dest: row_at_Some)

lemma time_ok_simps [simp]: "time_ok (rfc3339 t)" "time_ok (rfc3339_nano t)" "\<not> time_ok EmptyText"
  by (simp_all add: time_ok_def rfc3339_def rfc3339_nano_def)

lemma formatOptionalTime_ok [simp]: "formatOptionalTime t = EmptyText \<or> time_ok (formatOptionalTime t)"
  by (simp add: formatOptionalTime_def)

lemma scan_ok:
  assumes "row_ok r"
  obtains d where "scanDeployment r = Inr d" "d_id d = r_id r" "d_phase d = phase_of_text (r_phase r)"
    "d_pid d = r_pid r"
proof -
  from assms obtain st where "parseOptionalTime (r_started_at r) = Inr st"
    by (cases "r_started_at r") (auto simp: row_ok_def parseOptionalTime_def parse_time_def time_ok_def)
  moreover from assms obtain ct ut where "parse_time (r_created_at r) = Inr ct" "parse_time (r_updated_at r) = Inr ut"
    by (cases "r_created_at r"; cases "r_updated_at r") (auto simp: row_ok_def parse_time_def time_ok_def)
  ultimately show ?thesis using that by (simp add: scanDeployment_def)
qed

lemma row_ok_create [simp]:
  "d_pid d = 0 \<Longrightarrow> d_phase d = PhaseRequested \<Longrightarrow> row_ok (row_of d)"
  by (simp add: row_ok_def row_of_def)

lemma row_ok_transition:
  assumes "row_ok r" "in_phase i p r" "phase_step p q"
  shows "row_ok (transition_row now q why r)"
proof -
  have p: "phase_of_text (r_phase r) = p" and k: "known q"
    using assms phase_step_known by (auto simp: in_phase_def)
  have "before_launch q \<Longrightarrow> before_launch p"
    using assms(3) by (induction rule: phase_step.induct) (auto simp: before_launch_def)
  with assms(1) p k show ?thesis by (auto simp: row_ok_def transition_row_def)
qed

lemma row_ok_intent: "row_ok r \<Longrightarrow> row_ok (intent_row now port cmd r)"
  by (simp add: row_ok_def intent_row_def)

lemma row_ok_runtime:
  "row_ok r \<Longrightarrow> in_phase i PhaseStarting r \<Longrightarrow> row_ok (runtime_row now pid port cmd st tok r)"
  by (auto simp: row_ok_def runtime_row_def in_phase_def before_launch_def)

lemma store_inv_update:
  assumes "store_inv s" "same_data (s\<lparr>rows := update_where P f (rows s)\<rparr>) t"
    and "\<And>r. r_id (f r) = r_id r" and "\<And>r. row_ok r \<Longrightarrow> P r \<Longrightarrow> row_ok (f r)"
  shows "store_inv t"
proof -
  have "map r_id (rows t) = map r_id (rows s)"
    using assms(2,3) by (simp add: same_data_def update_ids)
  moreover have "list_all row_ok (rows t)"
    using assms by (auto simp: store_inv_def same_data_def list_all_iff update_where_def)
  ultimately show ?thesis
    using assms(1,2) by (simp add: store_inv_def same_data_def)
qed

lemma store_inv_remove:
  assumes "store_inv s" "same_data (s\<lparr>rows := filter P (rows s)\<rparr>) t"
  shows "store_inv t"
  using assms by (auto simp: store_inv_def same_data_def list_all_iff distinct_map_filter)

section \<open>The compare-and-set contract\<close>

text \<open>
  The life of one deployment id: no record, then the phases of the state machine from REQUESTED,
  and no record again once a DESTROYED record is purged.
\<close>

inductive life_step :: "phase option \<Rightarrow> phase option \<Rightarrow> bool" where
  created: "life_step None (Some PhaseRequested)"
| moved: "phase_step p q \<Longrightarrow> life_step (Some p) (Some q)"
| purged: "life_step (Some PhaseDestroyed) None"

inductive_simps life_step_simps: "life_step None x" "life_step (Some p) None" "life_step (Some p) (Some q)"

lemma life_reflcl: "life_step\<^sup>=\<^sup>= x y \<Longrightarrow> life_step\<^sup>*\<^sup>* x y"
  by auto

text \<open>
  What the lifecycle commands rely on: a move is a compare-and-set on the phase along a legal edge,
  a purge removes a DESTROYED record only, and neither touches any other deployment. A call that
  reports an error did nothing, or did exactly this and lost the driver's answer.
\<close>

locale phase_store =
  fixes phase_of :: "'s \<Rightarrow> string \<Rightarrow> phase option"
    and move :: "'a \<Rightarrow> string \<Rightarrow> phase \<Rightarrow> phase \<Rightarrow> 's \<Rightarrow> unit result \<times> 's"
    and purge :: "string \<Rightarrow> 's \<Rightarrow> unit result \<times> 's"
    and good :: "'s \<Rightarrow> bool"
  assumes move_cases: "good s \<Longrightarrow> move a i p q s = (res, s') \<Longrightarrow>
      (\<exists>e. res = Inl e) \<and> phase_of s' = phase_of s \<or>
      phase_step p q \<and> phase_of s i = Some p \<and> phase_of s' = (phase_of s)(i := Some q)"
    and move_good: "good s \<Longrightarrow> good (snd (move a i p q s))"
    and purge_cases: "good s \<Longrightarrow> purge i s = (res, s') \<Longrightarrow>
      (\<exists>e. res = Inl e) \<and> phase_of s' = phase_of s \<or>
      phase_of s i = Some PhaseDestroyed \<and> phase_of s' = (phase_of s)(i := None)"
    and purge_good: "good s \<Longrightarrow> good (snd (purge i s))"
begin

lemma move_ok:
  "good s \<Longrightarrow> move a i p q s = (Inr u, s') \<Longrightarrow>
    phase_step p q \<and> phase_of s i = Some p \<and> phase_of s' = (phase_of s)(i := Some q)"
  using move_cases by fastforce

lemma purge_ok:
  "good s \<Longrightarrow> purge i s = (Inr u, s') \<Longrightarrow>
    phase_of s i = Some PhaseDestroyed \<and> phase_of s' = (phase_of s)(i := None)"
  using purge_cases by fastforce

lemma move_frame: "good s \<Longrightarrow> move a i p q s = (res, s') \<Longrightarrow> j \<noteq> i \<Longrightarrow> phase_of s' j = phase_of s j"
  using move_cases by fastforce

lemma move_life: "good s \<Longrightarrow> move a i p q s = (res, s') \<Longrightarrow> life_step\<^sup>=\<^sup>= (phase_of s j) (phase_of s' j)"
  using move_cases [of s a i p q res s'] by (auto simp: life_step_simps)

lemma purge_life: "good s \<Longrightarrow> purge i s = (res, s') \<Longrightarrow> life_step\<^sup>=\<^sup>= (phase_of s j) (phase_of s' j)"
  using purge_cases [of s i res s'] by (auto simp: life_step_simps)

text \<open>Two clients that both saw phase \<open>p\<close>: once the first has moved on, the second is refused.\<close>

lemma move_race:
  assumes "good s" "move a i p q s = (Inr u, s1)" "move b i p r s1 = (res, s2)"
  shows "\<exists>e. res = Inl e"
proof (rule ccontr)
  assume "\<not> ?thesis"
  then obtain v where "res = Inr v" by (cases res) auto
  moreover have "good s1" using assms(1,2) move_good [of s a i p q] by simp
  ultimately have "phase_of s1 i = Some p" using assms(3) move_ok by blast
  moreover have "phase_of s1 i = Some q" "phase_step p q" using assms(1,2) move_ok by auto
  ultimately show False by (auto elim: phase_step.cases simp: active_def down_def)
qed

end

definition move_phase :: "gotime \<times> string \<Rightarrow> string \<Rightarrow> phase \<Rightarrow> phase \<Rightarrow> store \<Rightarrow> unit result \<times> store" where
  "move_phase a i p q = Transition (fst a) i p q (snd a)"

lemma guarded_update_inv:
  assumes "guarded P (update_where P f) (res, s') s" "store_inv s"
    and "\<And>r. r_id (f r) = r_id r" "\<And>r. row_ok r \<Longrightarrow> P r \<Longrightarrow> row_ok (f r)"
  shows "store_inv s'"
  using assms(1)
proof (cases rule: guarded_cases)
  case (refused e)
  with assms(2) show ?thesis by (simp add: store_inv_data)
next
  case (written r)
  show ?thesis by (rule store_inv_update [OF assms(2) written(3) assms(3,4)])
qed

lemma Transition_inv:
  assumes "Transition now i p q why s = (res, s')" "store_inv s"
  shows "store_inv s'"
proof (cases "phase_step p q")
  case True
  from guarded_update_inv [OF Transition_guarded [OF True, of i now why s, unfolded assms(1)] assms(2)]
  show ?thesis using True by (auto intro: row_ok_transition)
next
  case False
  with assms Transition_illegal [OF False, of now i why s] show ?thesis by auto
qed

lemma Delete_inv:
  assumes "Delete i s = (res, s')" "store_inv s"
  shows "store_inv s'"
  using Delete_guarded [of i s, unfolded assms(1)]
proof (cases rule: guarded_cases)
  case (refused e)
  with assms(2) show ?thesis by (simp add: store_inv_data)
next
  case (written r)
  with assms(2) show ?thesis by (auto intro: store_inv_remove)
qed

lemma in_phase_row:
  assumes "store_inv s" "r \<in> set (rows s)" "in_phase i p r"
  shows "row_at (rows s) i = Some r"
  using assms row_at_unique [of "rows s" r] by (auto simp: store_inv_def in_phase_def)

lemma in_phase_phase: "in_phase i p r \<Longrightarrow> known p \<Longrightarrow> phase_of_text (r_phase r) = p"
  by (simp add: in_phase_def)

lemma Transition_cases:
  assumes "store_inv s" "Transition now i p q why s = (res, s')"
  shows "(\<exists>e. res = Inl e) \<and> same_data s s' \<or>
    phase_step p q \<and> (\<exists>r. row_at (rows s) i = Some r \<and> in_phase i p r) \<and>
    (\<forall>j. row_at (rows s') j =
       (if j = i then map_option (transition_row now q why) (row_at (rows s) i) else row_at (rows s) j))"
proof (cases "phase_step p q")
  case True
  from Transition_guarded [OF True, of i now why s, unfolded assms(2)] show ?thesis
  proof (cases rule: guarded_cases)
    case (written r)
    then have r: "row_at (rows s) i = Some r" using assms(1) by (auto intro: in_phase_row)
    have "row_at (rows s') j = map_option (\<lambda>r. if in_phase i p r then transition_row now q why r else r)
        (row_at (rows s) j)" for j
      using same_data_rows(1) [OF written(3)] by (simp add: row_at_update)
    with r written(2) True show ?thesis
      by (auto simp: in_phase_def map_option_case dest: row_at_Some split: option.split)
  qed auto
next
  case False
  with assms Transition_illegal [OF False, of now i why s] show ?thesis by auto
qed

lemma Delete_cases:
  assumes "store_inv s" "Delete i s = (res, s')"
  shows "(\<exists>e. res = Inl e) \<and> same_data s s' \<or>
    phase_at s i = Some PhaseDestroyed \<and>
    (\<forall>j. row_at (rows s') j = (if j = i then None else row_at (rows s) j))"
  using Delete_guarded [of i s, unfolded assms(2)]
proof (cases rule: guarded_cases)
  case (written r)
  then have r: "row_at (rows s) i = Some r" using assms(1) by (auto intro: in_phase_row)
  have "row_at (rows s') j = (if j = i then None else row_at (rows s) j)" for j
  proof -
    have "distinct (map r_id (rows s))" using assms(1) by (simp add: store_inv_def)
    moreover have "\<And>x. in_phase i PhaseDestroyed x \<Longrightarrow> r_id x = i" by (simp add: in_phase_def)
    ultimately have "row_at (filter (\<lambda>r. \<not> in_phase i PhaseDestroyed r) (rows s)) j =
        (if j = i then None else row_at (rows s) j)"
      using row_at_remove [of "rows s" "in_phase i PhaseDestroyed" i r j] written(1,2) by blast
    then show ?thesis using same_data_rows(1) [OF written(3)] by simp
  qed
  with r written(2) show ?thesis by (auto simp: phase_at_def in_phase_phase)
qed auto

interpretation db: phase_store phase_at move_phase Delete store_inv
proof unfold_locales
  fix s :: store and a i p q res s'
  assume inv: "store_inv s" and mv: "move_phase a i p q s = (res, s')"
  from Transition_cases [OF inv mv [unfolded move_phase_def]]
  show "(\<exists>e. res = Inl e) \<and> phase_at s' = phase_at s \<or>
      phase_step p q \<and> phase_at s i = Some p \<and> phase_at s' = (phase_at s)(i := Some q)"
  proof (elim disjE conjE exE)
    fix r
    assume "phase_step p q" "row_at (rows s) i = Some r" "in_phase i p r"
      "\<forall>j. row_at (rows s') j = (if j = i then map_option (transition_row (fst a) q (snd a)) (row_at (rows s) i)
         else row_at (rows s) j)"
    then show ?thesis
      by (auto simp: phase_at_def fun_eq_iff transition_row_def in_phase_phase dest: phase_step_known)
  qed (simp add: phase_at_data)
next
  fix s :: store and i res s'
  assume inv: "store_inv s" and dl: "Delete i s = (res, s')"
  from Delete_cases [OF inv dl]
  show "(\<exists>e. res = Inl e) \<and> phase_at s' = phase_at s \<or>
      phase_at s i = Some PhaseDestroyed \<and> phase_at s' = (phase_at s)(i := None)"
  proof (elim disjE conjE)
    assume "phase_at s i = Some PhaseDestroyed"
      "\<forall>j. row_at (rows s') j = (if j = i then None else row_at (rows s) j)"
    then show ?thesis by (simp add: phase_at_def fun_eq_iff)
  qed (simp add: phase_at_data)
next
  show "store_inv s \<Longrightarrow> store_inv (snd (move_phase a i p q s))" for s a i p q
    by (metis Transition_inv move_phase_def prod.collapse)
  show "store_inv s \<Longrightarrow> store_inv (snd (Delete i s))" for s i
    by (metis Delete_inv prod.collapse)
qed

section \<open>Runs of store operations\<close>

text \<open>
  The operations as data, so that a run is a list: any number of commands, each operation with the
  wall-clock time it reads. \<open>op_ok\<close> is the one thing the command layer promises: it creates
  deployments with no process id.
\<close>

datatype store_op =
    OpCreate gotime deployment
  | OpGet string
  | OpList
  | OpTransition gotime string phase phase string
  | OpIntent gotime string int string
  | OpRuntime gotime string int int string gotime string
  | OpDelete string

fun apply_op :: "store_op \<Rightarrow> store \<Rightarrow> store" where
  "apply_op (OpCreate now d) s = snd (Create now d s)"
| "apply_op (OpGet i) s = snd (Get i s)"
| "apply_op OpList s = snd (ListAll s)"
| "apply_op (OpTransition now i p q why) s = snd (Transition now i p q why s)"
| "apply_op (OpIntent now i port cmd) s = snd (SetRuntimeIntent now i port cmd s)"
| "apply_op (OpRuntime now i pid port cmd st tok) s = snd (SetRuntime now i pid port cmd st tok s)"
| "apply_op (OpDelete i) s = snd (Delete i s)"

fun op_ok :: "store_op \<Rightarrow> bool" where
  "op_ok (OpCreate now d) = (d_pid d = 0)"
| "op_ok _ = True"

fun deletes :: "string \<Rightarrow> store_op \<Rightarrow> bool" where
  "deletes i (OpDelete j) = (i = j)"
| "deletes i _ = False"

definition history :: "store \<Rightarrow> store \<Rightarrow> bool" where
  "history s s' = (\<forall>i. life_step\<^sup>*\<^sup>* (phase_at s i) (phase_at s' i))"

text \<open>
  What a row says about who owns what: its origin never changes, and once it records a process id
  the identity of that process never changes either.
\<close>

definition origin :: "row \<Rightarrow> string \<times> string \<times> string \<times> string \<times> string \<times> stamp" where
  "origin r = (r_alias r, r_artifact r, r_artifact_revision r, r_model_cache_dir r,
     r_idempotency_key r, r_created_at r)"

definition identity :: "row \<Rightarrow> int \<times> int \<times> string \<times> stamp \<times> string" where
  "identity r = (r_pid r, r_port r, r_command r, r_started_at r, r_start_token r)"

definition keeps_owner :: "string \<Rightarrow> store \<Rightarrow> store \<Rightarrow> bool" where
  "keeps_owner i s s' = (\<forall>r. row_at (rows s) i = Some r \<longrightarrow>
     (\<exists>r'. row_at (rows s') i = Some r' \<and> origin r' = origin r \<and> (r_pid r \<noteq> 0 \<longrightarrow> identity r' = identity r)))"

lemma keeps_owner_refl: "keeps_owner i s s"
  by (simp add: keeps_owner_def)

lemma keeps_owner_trans: "keeps_owner i s t \<Longrightarrow> keeps_owner i t u \<Longrightarrow> keeps_owner i s u"
  unfolding keeps_owner_def identity_def by fastforce

lemma keeps_owner_data: "same_data s t \<Longrightarrow> keeps_owner i s t"
  by (simp add: keeps_owner_def same_data_def)

lemma keeps_owner_update:
  assumes "same_data (s\<lparr>rows := update_where P f (rows s)\<rparr>) t" "\<And>r. r_id (f r) = r_id r"
    and "\<And>r. row_at (rows s) i = Some r \<Longrightarrow> P r \<Longrightarrow>
      origin (f r) = origin r \<and> (r_pid r \<noteq> 0 \<longrightarrow> identity (f r) = identity r)"
  shows "keeps_owner i s t"
  unfolding keeps_owner_def
  using assms(3) same_data_rows(1) [OF assms(1)] by (auto simp: row_at_update [OF assms(2)])

lemma phase_at_update_same:
  assumes "same_data (s\<lparr>rows := update_where P f (rows s)\<rparr>) t" "\<And>r. r_id (f r) = r_id r"
    and "\<And>r. r_phase (f r) = r_phase r"
  shows "phase_at t = phase_at s"
  using same_data_rows(1) [OF assms(1)]
  by (auto simp: phase_at_def row_at_update [OF assms(2)] assms(3) fun_eq_iff option.map_comp o_def
      intro!: option.map_cong0)

lemma phase_at_create:
  assumes "same_data (s\<lparr>rows := rows s @ [r]\<rparr>) t" "r_id r \<notin> r_id ` set (rows s)"
  shows "phase_at t = (phase_at s)(r_id r := Some (phase_of_text (r_phase r)))" "phase_at s (r_id r) = None"
proof -
  have none: "row_at (rows s) (r_id r) = None" using assms(2) by (simp add: row_at_None)
  then show "phase_at s (r_id r) = None" by (simp add: phase_at_def)
  show "phase_at t = (phase_at s)(r_id r := Some (phase_of_text (r_phase r)))"
    using same_data_rows(1) [OF assms(1)] none
    by (auto simp: phase_at_def row_at_append fun_eq_iff split: option.split)
qed

lemma store_inv_create:
  assumes "store_inv s" "same_data (s\<lparr>rows := rows s @ [r]\<rparr>) t" "r_id r \<notin> r_id ` set (rows s)" "row_ok r"
  shows "store_inv t"
  using assms by (auto simp: store_inv_def same_data_def)

lemma intent_kept [simp]: "origin (intent_row now port cmd r) = origin r" "r_phase (intent_row now port cmd r) = r_phase r"
  by (simp_all add: origin_def intent_row_def)

lemma runtime_kept [simp]: "origin (runtime_row now pid port cmd st tok r) = origin r"
  "r_phase (runtime_row now pid port cmd st tok r) = r_phase r"
  by (simp_all add: origin_def runtime_row_def)

lemma transition_kept [simp]: "origin (transition_row now q why r) = origin r"
  "identity (transition_row now q why r) = identity r"
  by (simp_all add: origin_def identity_def transition_row_def)

text \<open>Each operation, in the form the runs need: the invariant, the phases, the owner columns.\<close>

lemma create_step:
  assumes "Create now d s = (res, s')" "store_inv s" "d_pid d = 0"
  shows "store_inv s' \<and> history s s' \<and> keeps_owner i s s'"
  using assms(1)
proof (cases rule: Create_effect)
  case (refused e)
  with assms(2) show ?thesis
    by (simp add: store_inv_data history_def phase_at_data keeps_owner_data)
next
  case created
  let ?d = "d\<lparr>d_phase := PhaseRequested, d_failure_reason := '''', d_created_at := trunc_second now,
    d_updated_at := trunc_second now\<rparr>"
  have id: "r_id (row_of ?d) = d_id d" by (simp add: row_of_def)
  have ok: "row_ok (row_of ?d)" using assms(3) by simp
  have "life_step\<^sup>*\<^sup>* (phase_at s j) (phase_at s' j)" for j
    using phase_at_create [OF created(3), unfolded id, OF created(2)]
    by (auto simp: row_of_def intro: life_step.created)
  moreover have "keeps_owner i s s'"
    using same_data_rows(1) [OF created(3)] by (simp add: keeps_owner_def row_at_append)
  ultimately show ?thesis
    using store_inv_create [OF assms(2) created(3), unfolded id, OF created(2) ok] by (simp add: history_def)
qed

lemma reads_step:
  assumes "same_data s s'" "store_inv s"
  shows "store_inv s' \<and> history s s' \<and> keeps_owner i s s'"
  using assms by (simp add: store_inv_data history_def phase_at_data keeps_owner_data)

lemma transition_step:
  assumes "Transition now j p q why s = (res, s')" "store_inv s"
  shows "store_inv s' \<and> history s s' \<and> keeps_owner i s s'"
proof -
  have "history s s'"
    using db.move_life [OF assms(2), of "(now, why)" j p q res s'] assms(1)
    by (simp add: history_def move_phase_def life_reflcl)
  moreover have "keeps_owner i s s'"
    using Transition_cases [OF assms(2,1)] by (auto simp: keeps_owner_def same_data_def)
  ultimately show ?thesis using Transition_inv [OF assms] by simp
qed

lemma intent_step:
  assumes "SetRuntimeIntent now j port cmd s = (res, s')" "store_inv s"
  shows "store_inv s' \<and> history s s' \<and> keeps_owner i s s'"
  using SetRuntimeIntent_guarded [of j now port cmd s, unfolded assms(1)]
proof (cases rule: guarded_cases)
  case (refused e)
  with assms(2) show ?thesis by (intro reads_step)
next
  case (written r)
  have "store_inv s'"
    by (rule store_inv_update [OF assms(2) written(3)]) (simp_all add: row_ok_intent)
  moreover have "history s s'"
    using phase_at_update_same [OF written(3)] by (simp add: history_def)
  moreover have "keeps_owner i s s'"
  proof (rule keeps_owner_update [OF written(3)], goal_cases)
    case (2 r)
    then have "row_ok r" using assms(2) by (blast intro: store_inv_row)
    then show ?case using 2 by (auto simp: row_ok_def in_phase_def before_launch_def)
  qed simp
  ultimately show ?thesis by simp
qed

lemma runtime_step:
  assumes "SetRuntime now j pid port cmd st tok s = (res, s')" "store_inv s"
  shows "store_inv s' \<and> history s s' \<and> keeps_owner i s s'"
  using SetRuntime_guarded [of j now pid port cmd st tok s, unfolded assms(1)]
proof (cases rule: guarded_cases)
  case (refused e)
  with assms(2) show ?thesis by (intro reads_step)
next
  case (written r)
  have "store_inv s'"
    by (rule store_inv_update [OF assms(2) written(3)]) (auto simp: row_ok_runtime)
  moreover have "history s s'"
    using phase_at_update_same [OF written(3)] by (simp add: history_def)
  moreover have "keeps_owner i s s'"
    by (rule keeps_owner_update [OF written(3)]) auto
  ultimately show ?thesis by simp
qed

lemma delete_step:
  assumes "Delete j s = (res, s')" "store_inv s"
  shows "store_inv s' \<and> history s s' \<and> (i \<noteq> j \<longrightarrow> keeps_owner i s s')"
proof -
  have "history s s'"
    using db.purge_life [OF assms(2), of j res s'] assms(1)
    by (simp add: history_def life_reflcl)
  moreover have "i \<noteq> j \<longrightarrow> keeps_owner i s s'"
    using Delete_cases [OF assms(2,1)] by (auto simp: keeps_owner_def same_data_def)
  ultimately show ?thesis using Delete_inv [OF assms] by simp
qed

lemma apply_op_step:
  assumes "store_inv s" "op_ok x"
  shows "store_inv (apply_op x s) \<and> history s (apply_op x s) \<and> (\<not> deletes i x \<longrightarrow> keeps_owner i s (apply_op x s))"
proof (cases x)
  case (OpCreate now d)
  with assms create_step [of now d s "fst (Create now d s)" "snd (Create now d s)" i] show ?thesis by simp
next
  case (OpGet j)
  with assms reads_step [of s "apply_op x s" i] Get_effect [of j s "fst (Get j s)" "snd (Get j s)"]
  show ?thesis by simp
next
  case OpList
  with assms reads_step [of s "apply_op x s" i] ListAll_effect [of s "fst (ListAll s)" "snd (ListAll s)"]
  show ?thesis by simp
next
  case (OpTransition now j p q why)
  with assms transition_step [of now j p q why s "fst (Transition now j p q why s)"
      "snd (Transition now j p q why s)" i] show ?thesis by simp
next
  case (OpIntent now j port cmd)
  with assms intent_step [of now j port cmd s "fst (SetRuntimeIntent now j port cmd s)"
      "snd (SetRuntimeIntent now j port cmd s)" i] show ?thesis by simp
next
  case (OpRuntime now j pid port cmd st tok)
  with assms runtime_step [of now j pid port cmd st tok s "fst (SetRuntime now j pid port cmd st tok s)"
      "snd (SetRuntime now j pid port cmd st tok s)" i] show ?thesis by simp
next
  case (OpDelete j)
  with assms delete_step [of j s "fst (Delete j s)" "snd (Delete j s)" i] show ?thesis by simp
qed

lemma history_refl: "history s s"
  by (simp add: history_def)

lemma history_trans: "history s t \<Longrightarrow> history t u \<Longrightarrow> history s u"
  unfolding history_def by (meson rtranclp_trans)

interpretation runs: op_system apply_op op_ok store_inv history
  using apply_op_step history_refl history_trans by unfold_locales blast+

interpretation owned_runs: op_system apply_op "\<lambda>x. op_ok x \<and> \<not> deletes i x" store_inv "keeps_owner i" for i
  using apply_op_step keeps_owner_refl keeps_owner_trans by unfold_locales blast+

end
