(* ===== verification/StoreSpec.thy ===== *)
theory StoreSpec imports StateStore begin

text \<open>
  What the store promises, as a map from ids to deployments with one abstract step per operation,
  and the proof that the SQL operations implement it; the migrations of the schema; and the
  properties of the store.
\<close>

section \<open>The abstract store\<close>

definition deployments :: "store \<Rightarrow> string \<Rightarrow> deployment option" where
  "deployments s i = (case row_at (rows s) i of
     None \<Rightarrow> None
   | Some r \<Rightarrow> (case scanDeployment r of Inl e \<Rightarrow> None | Inr d \<Rightarrow> Some d))"

type_synonym abs_store = "string \<Rightarrow> deployment option"

text \<open>A guarded abstract update: the sentinel reported, or the change made.\<close>

definition spec_update ::
  "string \<Rightarrow> (deployment \<Rightarrow> bool) \<Rightarrow> sentinel \<Rightarrow> (deployment \<Rightarrow> deployment option) \<Rightarrow> abs_store
    \<Rightarrow> sentinel option \<times> abs_store" where
  "spec_update i guard refusal change m = (case m i of
     None \<Rightarrow> (Some ErrNotFound, m)
   | Some d \<Rightarrow> if guard d then (None, m(i := change d)) else (Some refusal, m))"

fun spec_op :: "store_op \<Rightarrow> abs_store \<Rightarrow> sentinel option \<times> abs_store" where
  "spec_op (OpCreate now d) m =
     (if m (d_id d) \<noteq> None then (Some ErrDuplicate, m)
      else (None, m(d_id d := Some (d\<lparr>d_phase := PhaseRequested, d_failure_reason := '''',
              d_created_at := trunc_second now, d_updated_at := trunc_second now\<rparr>))))"
| "spec_op (OpGet i) m = ((if m i = None then Some ErrNotFound else None), m)"
| "spec_op OpList m = (None, m)"
| "spec_op (OpTransition now i p q why) m =
     (if \<not> phase_step p q then (Some ErrIllegalTransition, m)
      else spec_update i (\<lambda>d. d_phase d = p) ErrConflict
        (\<lambda>d. Some (d\<lparr>d_phase := q, d_failure_reason := (if q = PhaseFailed \<or> q = PhaseCrashed then why else ''''),
                   d_updated_at := trunc_second now\<rparr>)) m)"
| "spec_op (OpIntent now i port cmd) m =
     spec_update i (\<lambda>d. d_phase d = PhaseDownloading) ErrConflict
       (\<lambda>d. Some (d\<lparr>d_pid := 0, d_port := port, d_command := cmd, d_started_at := zero_time,
                  d_start_token := '''', d_updated_at := now\<rparr>)) m"
| "spec_op (OpRuntime now i pid port cmd st tok) m =
     spec_update i (\<lambda>d. d_phase d = PhaseStarting \<and> d_pid d = 0) ErrConflict
       (\<lambda>d. Some (d\<lparr>d_pid := pid, d_port := port, d_command := cmd, d_started_at := st,
                  d_start_token := tok, d_updated_at := now\<rparr>)) m"
| "spec_op (OpDelete i) m =
     spec_update i (\<lambda>d. d_phase d = PhaseDestroyed) ErrNotDestroyed (\<lambda>d. None) m"

text \<open>The error an operation reports, if any.\<close>

definition err_of :: "'a result \<Rightarrow> goerr option" where
  "err_of res = (case res of Inl e \<Rightarrow> Some e | Inr x \<Rightarrow> None)"

fun op_error :: "store_op \<Rightarrow> store \<Rightarrow> goerr option" where
  "op_error (OpCreate now d) s = err_of (fst (Create now d s))"
| "op_error (OpGet i) s = err_of (fst (Get i s))"
| "op_error OpList s = err_of (fst (ListAll s))"
| "op_error (OpTransition now i p q why) s = err_of (fst (Transition now i p q why s))"
| "op_error (OpIntent now i port cmd) s = err_of (fst (SetRuntimeIntent now i port cmd s))"
| "op_error (OpRuntime now i pid port cmd st tok) s = err_of (fst (SetRuntime now i pid port cmd st tok s))"
| "op_error (OpDelete i) s = err_of (fst (Delete i s))"

definition reports :: "goerr option \<Rightarrow> sentinel option \<Rightarrow> bool" where
  "reports err want = (case want of
     None \<Rightarrow> err = None
   | Some t \<Rightarrow> (case err of None \<Rightarrow> False | Some e \<Rightarrow> errors_is t e))"

lemma err_of_simps [simp]: "err_of (Inl e) = Some e" "err_of (Inr x) = None"
  by (simp_all add: err_of_def)

lemma reports_simps [simp]: "reports None None" "reports (Some e) (Some t) = errors_is t e"
  by (simp_all add: reports_def)

section \<open>Operations on a store without faults\<close>

lemma filter_by_id:
  "distinct (map r_id rs) \<Longrightarrow> filter (\<lambda>r. r_id r = i) rs = (case row_at rs i of None \<Rightarrow> [] | Some r \<Rightarrow> [r])"
proof (induction rs)
  case (Cons r rs)
  show ?case
  proof (cases "r_id r = i")
    case True
    with Cons.prems have "i \<notin> r_id ` set rs" by auto
    then have "filter (\<lambda>r. r_id r = i) rs = []" by (auto simp: filter_empty_conv)
    with True show ?thesis by simp
  next
    case False
    with Cons show ?thesis by simp
  qed
qed simp

lemma filter_by_id_and:
  assumes "distinct (map r_id rs)" "\<And>r. P r \<Longrightarrow> r_id r = i"
  shows "filter P rs = (case row_at rs i of None \<Rightarrow> [] | Some r \<Rightarrow> if P r then [r] else [])"
proof -
  have "filter P rs = filter P (filter (\<lambda>r. r_id r = i) rs)"
    using assms(2) by (auto simp: filter_filter intro: filter_cong)
  also have "\<dots> = (case row_at rs i of None \<Rightarrow> [] | Some r \<Rightarrow> if P r then [r] else [])"
    by (simp add: filter_by_id [OF assms(1)] split: option.split)
  finally show ?thesis .
qed

lemma deployments_scan:
  assumes "store_inv s" "row_at (rows s) i = Some r"
  obtains d where "scanDeployment r = Inr d" "deployments s i = Some d" "d_id d = i"
    "d_phase d = phase_of_text (r_phase r)" "d_pid d = r_pid r"
proof -
  from assms have "row_ok r" "r_id r = i" by (auto intro: store_inv_row dest: row_at_Some)
  then show ?thesis using that assms(2) by (elim scan_ok) (simp add: deployments_def)
qed

lemma deployments_None: "store_inv s \<Longrightarrow> deployments s i = None \<longleftrightarrow> row_at (rows s) i = None"
  by (cases "row_at (rows s) i") (auto elim: deployments_scan simp: deployments_def)

lemma Get_exact:
  assumes "store_inv s" "faults s = []"
  shows "Get i s = ((case deployments s i of None \<Rightarrow> Inl (Sentinel ErrNotFound) | Some d \<Rightarrow> Inr d), s)"
proof -
  have d: "distinct (map r_id (rows s))" using assms(1) by (simp add: store_inv_def)
  show ?thesis
  proof (cases "row_at (rows s) i")
    case None
    then show ?thesis
      by (simp add: Get_def sql_select_def sql_call_no_faults assms(2) filter_by_id [OF d] deployments_def)
  next
    case (Some r)
    then obtain x where "scanDeployment r = Inr x" "deployments s i = Some x"
      by (rule deployments_scan [OF assms(1)])
    with Some show ?thesis
      by (simp add: Get_def sql_select_def sql_call_no_faults assms(2) filter_by_id [OF d])
  qed
qed

lemma count_tail_exact:
  assumes "store_inv s" "faults s = []"
  shows "count_tail i f g n s =
    ((if n \<noteq> 0 then Inr () else case deployments s i of
        None \<Rightarrow> Inl (f (Sentinel ErrNotFound)) | Some d \<Rightarrow> Inl (g d)), s)"
  by (simp add: count_tail_def rows_affected_def sql_call_no_faults assms(2) Get_exact [OF assms]
      split: option.split)

text \<open>One lemma for the three guarded updates: the abstract step is \<open>spec_update\<close>.\<close>

lemma update_refines:
  assumes inv: "store_inv s" and nf: "faults s = []"
    and Pid: "\<And>r. P r \<Longrightarrow> r_id r = i" and fid: "\<And>r. r_id (f r) = r_id r"
    and fok: "\<And>r. row_ok r \<Longrightarrow> P r \<Longrightarrow> row_ok (f r)"
    and guard: "\<And>r d. scanDeployment r = Inr d \<Longrightarrow> d_id d = i \<Longrightarrow> row_ok r \<Longrightarrow> P r = guard d"
    and scan: "\<And>r d. scanDeployment r = Inr d \<Longrightarrow> P r \<Longrightarrow> scanDeployment (f r) = Inr (change d)"
    and out: "out = (case sql_update P f s of
        (Inl e, s1) \<Rightarrow> (Inl e, s1) | (Inr n, s1) \<Rightarrow> count_tail i err1 err2 n s1)"
    and err1: "errors_is ErrNotFound (err1 (Sentinel ErrNotFound))" and err2: "\<And>d. errors_is refusal (err2 d)"
  shows "reports (err_of (fst out)) (fst (spec_update i guard refusal (Some \<circ> change) (deployments s))) \<and>
    deployments (snd out) = snd (spec_update i guard refusal (Some \<circ> change) (deployments s))"
proof -
  let ?s1 = "s\<lparr>rows := update_where P f (rows s)\<rparr>"
  have dist: "distinct (map r_id (rows s))" using inv by (simp add: store_inv_def)
  have inv1: "store_inv ?s1"
    by (rule store_inv_update [OF inv _ fid fok]) simp_all
  have o: "out = count_tail i err1 err2 (length (filter P (rows s))) ?s1"
    using out nf by (simp add: sql_update_def sql_call_no_faults update_where_def)
  note o = o [unfolded count_tail_exact [OF inv1, simplified, OF nf]]
  have rows1: "row_at (rows ?s1) j = map_option (\<lambda>r. if P r then f r else r) (row_at (rows s) j)" for j
    using fid by (simp add: row_at_update)
  show ?thesis
  proof (cases "row_at (rows s) i")
    case None
    then have "filter P (rows s) = []" using filter_by_id_and [of "rows s" P i] dist Pid by simp
    moreover from this have "?s1 = s" by (simp add: update_where_none)
    moreover have "deployments s i = None" using None by (simp add: deployments_def)
    ultimately show ?thesis using o err1 by (simp add: spec_update_def)
  next
    case (Some r)
    then obtain d where d: "scanDeployment r = Inr d" "deployments s i = Some d" "d_id d = i"
      by (elim deployments_scan [OF inv])
    have "row_ok r" using Some inv by (blast intro: store_inv_row)
    then have g: "P r = guard d" using guard d by blast
    show ?thesis
    proof (cases "P r")
      case False
      with Some have "filter P (rows s) = []" using filter_by_id_and [of "rows s" P i] dist Pid by simp
      moreover from this have "?s1 = s" by (simp add: update_where_none)
      ultimately show ?thesis using o err2 d g False by (simp add: spec_update_def)
    next
      case True
      with Some have n: "length (filter P (rows s)) = 1" using filter_by_id_and [of "rows s" P i] dist Pid by simp
      have "deployments ?s1 j = ((deployments s)(i \<mapsto> change d)) j" for j
      proof (cases "j = i")
        case True
        with Some \<open>P r\<close> rows1 [of i] scan [OF d(1)] show ?thesis by (simp add: deployments_def)
      next
        case False
        then have "row_at (rows ?s1) j = row_at (rows s) j"
          using rows1 [of j] Pid by (cases "row_at (rows s) j") (auto dest: row_at_Some)
        with False show ?thesis by (simp add: deployments_def)
      qed
      then have "deployments ?s1 = (deployments s)(i \<mapsto> change d)" by (rule ext)
      then show ?thesis using o d g True n by (simp add: spec_update_def)
    qed
  qed
qed

text \<open>The three updates on a row, read as deployments.\<close>

lemma scan_transition:
  "scanDeployment r = Inr d \<Longrightarrow> known q \<Longrightarrow> scanDeployment (transition_row now q why r) =
    Inr (d\<lparr>d_phase := q, d_failure_reason := (if q = PhaseFailed \<or> q = PhaseCrashed then why else ''''),
           d_updated_at := trunc_second now\<rparr>)"
  by (auto simp: scanDeployment_def transition_row_def rfc3339_def parse_time_def split: sum.splits)

lemma scan_intent:
  "scanDeployment r = Inr d \<Longrightarrow> scanDeployment (intent_row now port cmd r) =
    Inr (d\<lparr>d_pid := 0, d_port := port, d_command := cmd, d_started_at := zero_time,
           d_start_token := '''', d_updated_at := now\<rparr>)"
  by (auto simp: scanDeployment_def intent_row_def rfc3339_nano_def parse_time_def parseOptionalTime_def
      split: sum.splits)

lemma scan_runtime:
  "scanDeployment r = Inr d \<Longrightarrow> scanDeployment (runtime_row now pid port cmd st tok r) =
    Inr (d\<lparr>d_pid := pid, d_port := port, d_command := cmd, d_started_at := st,
           d_start_token := tok, d_updated_at := now\<rparr>)"
  by (auto simp: scanDeployment_def runtime_row_def rfc3339_nano_def parse_time_def split: sum.splits)

lemma scan_create: "known (d_phase d) \<Longrightarrow> trunc_second (d_created_at d) = d_created_at d \<Longrightarrow>
    trunc_second (d_updated_at d) = d_updated_at d \<Longrightarrow> scanDeployment (row_of d) = Inr d"
  by (simp add: scanDeployment_def row_of_def rfc3339_def parse_time_def)

lemma trunc_second_idem [simp]: "trunc_second (trunc_second t) = trunc_second t"
  by (simp add: trunc_second_def second_def)

lemma scan_phase: "scanDeployment r = Inr d \<Longrightarrow> d_phase d = phase_of_text (r_phase r) \<and> d_pid d = r_pid r \<and> d_id d = r_id r"
  by (auto simp: scanDeployment_def split: sum.splits)

lemma in_phase_scan:
  "scanDeployment r = Inr d \<Longrightarrow> d_id d = i \<Longrightarrow> known p \<Longrightarrow> in_phase i p r = (d_phase d = p)"
  using scan_phase [of r d] by (auto simp: in_phase_def)

lemma in_phase_id: "in_phase i p r \<Longrightarrow> r_id r = i"
  by (simp add: in_phase_def)

definition conflict_error :: "phase \<Rightarrow> deployment \<Rightarrow> goerr" where
  "conflict_error p cur = Errorf ''%w: expected phase %s, found %s''
     [ArgW (Sentinel ErrConflict), ArgS (phase_text p), ArgS (phase_text (d_phase cur))]"

lemma conflict_error_simps [simp]: "errors_is t (conflict_error p cur) \<longleftrightarrow> t = ErrConflict"
    "exit_code (Some (conflict_error p cur)) = 4"
  by (auto simp: conflict_error_def exit_code_def)

lemma Transition_tail:
  "phase_step p q \<Longrightarrow> Transition now i p q why s =
     (case sql_update (in_phase i p) (transition_row now q why) s of
        (Inl e, s1) \<Rightarrow> (Inl e, s1) | (Inr n, s1) \<Rightarrow> count_tail i (\<lambda>e. e) (conflict_error p) n s1)"
  unfolding checkTransition_step [symmetric] Transition_def count_tail_def conflict_error_def [abs_def]
  by (simp add: Let_def in_phase_def [abs_def] transition_row_def [abs_def] split: sum.split)

lemma transition_refines:
  assumes "store_inv s" "faults s = []"
  shows "reports (op_error (OpTransition now i p q why) s) (fst (spec_op (OpTransition now i p q why) (deployments s))) \<and>
    deployments (apply_op (OpTransition now i p q why) s) = snd (spec_op (OpTransition now i p q why) (deployments s))"
proof (cases "phase_step p q")
  case True
  then have k: "known p" "known q" by (auto dest: phase_step_known)
  let ?change = "\<lambda>d. d\<lparr>d_phase := q, d_failure_reason := (if q = PhaseFailed \<or> q = PhaseCrashed then why else ''''),
                   d_updated_at := trunc_second now\<rparr>"
  note o = Transition_tail [OF True, of now i why s]
  have "reports (err_of (fst (Transition now i p q why s)))
      (fst (spec_update i (\<lambda>d. d_phase d = p) ErrConflict (Some \<circ> ?change) (deployments s))) \<and>
    deployments (snd (Transition now i p q why s)) =
      snd (spec_update i (\<lambda>d. d_phase d = p) ErrConflict (Some \<circ> ?change) (deployments s))"
    by (rule update_refines [OF assms _ _ _ _ _ o])
      (use True k in \<open>auto simp: in_phase_scan scan_transition intro: row_ok_transition dest: in_phase_id\<close>)
  with True show ?thesis by (simp add: comp_def)
next
  case False
  with Transition_illegal [OF False, of now i why s] show ?thesis by auto
qed

lemma intent_refines:
  assumes "store_inv s" "faults s = []"
  shows "reports (op_error (OpIntent now i port cmd) s) (fst (spec_op (OpIntent now i port cmd) (deployments s))) \<and>
    deployments (apply_op (OpIntent now i port cmd) s) = snd (spec_op (OpIntent now i port cmd) (deployments s))"
proof -
  let ?change = "\<lambda>d. d\<lparr>d_pid := 0, d_port := port, d_command := cmd, d_started_at := zero_time,
                  d_start_token := '''', d_updated_at := now\<rparr>"
  have o: "SetRuntimeIntent now i port cmd s =
      (case sql_update (in_phase i PhaseDownloading) (intent_row now port cmd) s of
         (Inl e, s1) \<Rightarrow> (Inl e, s1) | (Inr n, s1) \<Rightarrow> count_tail i
           (\<lambda>e. if errors_is ErrNotFound e then Sentinel ErrNotFound else e)
           (\<lambda>cur. Errorf ''%w: expected phase %s with no runtime, found phase %s pid %d''
              [ArgW (Sentinel ErrConflict), ArgS (phase_text PhaseDownloading), ArgS (phase_text (d_phase cur)),
               ArgD (d_pid cur)]) n s1)"
    unfolding SetRuntimeIntent_def expectOne_tail by (simp add: in_phase_def [abs_def] intent_row_def [abs_def])
  have "reports (err_of (fst (SetRuntimeIntent now i port cmd s)))
      (fst (spec_update i (\<lambda>d. d_phase d = PhaseDownloading) ErrConflict (Some \<circ> ?change) (deployments s))) \<and>
    deployments (snd (SetRuntimeIntent now i port cmd s)) =
      snd (spec_update i (\<lambda>d. d_phase d = PhaseDownloading) ErrConflict (Some \<circ> ?change) (deployments s))"
    by (rule update_refines [OF assms _ _ _ _ _ o])
      (auto simp: in_phase_scan scan_intent row_ok_intent dest: in_phase_id)
  then show ?thesis by (simp add: comp_def)
qed

lemma runtime_refines:
  assumes "store_inv s" "faults s = []"
  shows "reports (op_error (OpRuntime now i pid port cmd st tok) s)
      (fst (spec_op (OpRuntime now i pid port cmd st tok) (deployments s))) \<and>
    deployments (apply_op (OpRuntime now i pid port cmd st tok) s) =
      snd (spec_op (OpRuntime now i pid port cmd st tok) (deployments s))"
proof -
  let ?P = "\<lambda>r. in_phase i PhaseStarting r \<and> r_pid r = 0"
  let ?change = "\<lambda>d. d\<lparr>d_pid := pid, d_port := port, d_command := cmd, d_started_at := st,
                  d_start_token := tok, d_updated_at := now\<rparr>"
  have o: "SetRuntime now i pid port cmd st tok s =
      (case sql_update ?P (runtime_row now pid port cmd st tok) s of
         (Inl e, s1) \<Rightarrow> (Inl e, s1) | (Inr n, s1) \<Rightarrow> count_tail i
           (\<lambda>e. if errors_is ErrNotFound e then Sentinel ErrNotFound else e)
           (\<lambda>cur. Errorf ''%w: expected phase %s with no runtime, found phase %s pid %d''
              [ArgW (Sentinel ErrConflict), ArgS (phase_text PhaseStarting), ArgS (phase_text (d_phase cur)),
               ArgD (d_pid cur)]) n s1)"
    unfolding SetRuntime_def expectOne_tail by (simp add: in_phase_def [abs_def] runtime_row_def [abs_def] conj_assoc)
  have "reports (err_of (fst (SetRuntime now i pid port cmd st tok s)))
      (fst (spec_update i (\<lambda>d. d_phase d = PhaseStarting \<and> d_pid d = 0) ErrConflict (Some \<circ> ?change) (deployments s))) \<and>
    deployments (snd (SetRuntime now i pid port cmd st tok s)) =
      snd (spec_update i (\<lambda>d. d_phase d = PhaseStarting \<and> d_pid d = 0) ErrConflict (Some \<circ> ?change) (deployments s))"
    by (rule update_refines [OF assms _ _ _ _ _ o])
      (auto simp: in_phase_scan scan_runtime row_ok_runtime dest: in_phase_id scan_phase)
  then show ?thesis by (simp add: comp_def)
qed

lemma delete_refines:
  assumes inv: "store_inv s" and nf: "faults s = []"
  shows "reports (op_error (OpDelete i) s) (fst (spec_op (OpDelete i) (deployments s))) \<and>
    deployments (apply_op (OpDelete i) s) = snd (spec_op (OpDelete i) (deployments s))"
proof -
  let ?P = "in_phase i PhaseDestroyed"
  let ?s1 = "s\<lparr>rows := filter (\<lambda>r. \<not> ?P r) (rows s)\<rparr>"
  have dist: "distinct (map r_id (rows s))" using inv by (simp add: store_inv_def)
  have inv1: "store_inv ?s1" using inv same_data_refl by (rule store_inv_remove)
  have del: "sql_delete (\<lambda>r. r_id r = i \<and> r_phase r = phase_text PhaseDestroyed) s =
      (Inr (length (filter ?P (rows s))), ?s1)"
    using nf by (simp add: sql_delete_def sql_call_no_faults in_phase_def [abs_def])
  note get = Get_exact [OF inv1, simplified, OF nf]
  note out = Delete_def [of i s] del rows_affected_def sql_call_no_faults nf get Get_exact [OF inv nf]
  show ?thesis
  proof (cases "row_at (rows s) i")
    case None
    then have f: "filter ?P (rows s) = []" using filter_by_id_and [of "rows s" ?P i] dist by (simp add: in_phase_id)
    then have "?s1 = s" by (simp add: filter_empty_conv filter_id_conv)
    moreover have "deployments s i = None" using None by (simp add: deployments_def)
    ultimately show ?thesis using f by (simp add: out spec_update_def)
  next
    case (Some r)
    then obtain d where d: "scanDeployment r = Inr d" "deployments s i = Some d" "d_id d = i"
      by (elim deployments_scan [OF inv])
    show ?thesis
    proof (cases "?P r")
      case False
      with Some have f: "filter ?P (rows s) = []"
        using filter_by_id_and [of "rows s" ?P i] dist by (simp add: in_phase_id)
      then have "?s1 = s" by (simp add: filter_empty_conv filter_id_conv)
      moreover have "d_phase d \<noteq> PhaseDestroyed" using False in_phase_scan [OF d(1,3)] by simp
      ultimately show ?thesis using f d(2) by (simp add: out spec_update_def)
    next
      case True
      with Some have n: "length (filter ?P (rows s)) = 1"
        using filter_by_id_and [of "rows s" ?P i] dist by (simp add: in_phase_id)
      have "row_at (rows ?s1) j = (if j = i then None else row_at (rows s) j)" for j
        using row_at_remove [OF dist, of ?P i r j] Some True by (simp add: in_phase_id row_at_Some)
      then have "deployments ?s1 = (deployments s)(i := None)" by (simp add: deployments_def fun_eq_iff)
      moreover have "d_phase d = PhaseDestroyed" using True in_phase_scan [OF d(1,3)] by simp
      ultimately show ?thesis using n d(2) by (simp add: out spec_update_def)
    qed
  qed
qed

lemma create_refines:
  assumes inv: "store_inv s" and nf: "faults s = []"
  shows "reports (op_error (OpCreate now d) s) (fst (spec_op (OpCreate now d) (deployments s))) \<and>
    deployments (apply_op (OpCreate now d) s) = snd (spec_op (OpCreate now d) (deployments s))"
proof -
  let ?d = "d\<lparr>d_phase := PhaseRequested, d_failure_reason := '''',
              d_created_at := trunc_second now, d_updated_at := trunc_second now\<rparr>"
  have id: "r_id (row_of ?d) = d_id d" by (simp add: row_of_def)
  have uniq: "isUniqueViolation (Opaque (unique_text s))"
    using inv by (simp add: isUniqueViolation_def store_inv_def)
  show ?thesis
  proof (cases "d_id d \<in> r_id ` set (rows s)")
    case True
    then have "deployments s (d_id d) \<noteq> None"
      using deployments_None [OF inv] by (simp add: row_at_None)
    with True id uniq nf show ?thesis
      by (auto simp: Create_def sql_insert_def sql_call_no_faults)
  next
    case False
    then have none: "row_at (rows s) (d_id d) = None" by (simp add: row_at_None)
    then have m: "deployments s (d_id d) = None" by (simp add: deployments_def)
    have scan: "scanDeployment (row_of ?d) = Inr ?d" by (rule scan_create) simp_all
    have ins: "Create now d s = (Inr ?d, s\<lparr>rows := rows s @ [row_of ?d]\<rparr>)"
      using False id nf by (simp add: Create_def Let_def sql_insert_def sql_call_no_faults)
    have "deployments (s\<lparr>rows := rows s @ [row_of ?d]\<rparr>) = (deployments s)(d_id d \<mapsto> ?d)"
      using none scan id by (auto simp: fun_eq_iff deployments_def row_at_append split: option.split)
    with m show ?thesis by (simp add: ins)
  qed
qed

lemma get_refines:
  assumes "store_inv s" "faults s = []"
  shows "reports (op_error (OpGet i) s) (fst (spec_op (OpGet i) (deployments s))) \<and>
    deployments (apply_op (OpGet i) s) = snd (spec_op (OpGet i) (deployments s))"
  by (cases "deployments s i") (simp_all add: Get_exact [OF assms])

lemma scan_all_ok:
  "list_all row_ok rs \<Longrightarrow> \<exists>ds. scan_all rs = Inr ds \<and> list_all2 (\<lambda>r d. scanDeployment r = Inr d) rs ds"
proof (induction rs)
  case (Cons r rs)
  then obtain ds where "scan_all rs = Inr ds" "list_all2 (\<lambda>r d. scanDeployment r = Inr d) rs ds" by auto
  moreover from Cons.prems obtain d where "scanDeployment r = Inr d" by (auto elim: scan_ok)
  ultimately show ?case by auto
qed simp

lemma ListAll_exact:
  assumes "store_inv s" "faults s = []"
  obtains ds where "ListAll s = (Inr ds, s)"
    "list_all2 (\<lambda>r d. scanDeployment r = Inr d) (sort_key (\<lambda>r. (r_created_at r, r_id r)) (rows s)) ds"
proof -
  have "list_all row_ok (sort_key (\<lambda>r. (r_created_at r, r_id r)) (rows s))"
    using assms(1) by (simp add: store_inv_def list_all_iff)
  from scan_all_ok [OF this] that assms(2) show ?thesis
    by (auto simp: ListAll_def sql_select_def sql_call_no_faults)
qed

lemma list_refines:
  assumes "store_inv s" "faults s = []"
  shows "reports (op_error OpList s) (fst (spec_op OpList (deployments s))) \<and>
    deployments (apply_op OpList s) = snd (spec_op OpList (deployments s))"
  by (rule ListAll_exact [OF assms]) simp

lemmas op_refines = create_refines get_refines list_refines transition_refines intent_refines
  runtime_refines delete_refines

section \<open>Migrations\<close>

text \<open>The schema at version \<open>v\<close>: the first \<open>v\<close> migrations, applied in order.\<close>

fun schema :: "nat \<Rightarrow> string list" where
  "schema 0 = []"
| "schema (Suc v) = (case apply_stmt (migrations ! v) (schema v) of Inl e \<Rightarrow> schema v | Inr cs \<Rightarrow> cs)"

definition schema_ok :: "store \<Rightarrow> bool" where
  "schema_ok s = (user_version s \<le> length migrations \<and> columns s = schema (user_version s))"

lemma length_migrations [simp]: "length migrations = 5"
  by (simp add: migrations_def)

lemma migration_applies:
  assumes "i < length migrations"
  shows "apply_stmt (migrations ! i) (schema i) = Inr (schema (Suc i))"
proof -
  have "i = 0 \<or> i = 1 \<or> i = 2 \<or> i = 3 \<or> i = 4" using assms by auto
  then show ?thesis by (auto simp: migrations_def numeral_eq_Suc)
qed

lemma schema_ok_data: "same_data s t \<Longrightarrow> schema_ok t = schema_ok s"
  by (simp add: schema_ok_def same_data_def)

lemma run_migration_effect:
  assumes "schema_ok s" "user_version s < length migrations" "run_migration (user_version s) s = (res, s')"
  obtains (failed) e where "res = Inl e" "same_data s s'"
  | (applied) "res = Inr ()" "same_data (s\<lparr>columns := schema (Suc (user_version s)), user_version := Suc (user_version s)\<rparr>) s'"
proof -
  let ?v = "user_version s"
  obtain r1 s1 where 1: "sql_call (\<lambda>s. (Inr (), s)) s = (r1, s1)" by fastforce
  then have d1: "same_data s s1" by (elim sql_callE) auto
  obtain r2 s2 where 2: "sql_call (\<lambda>s. (apply_stmt (migrations ! ?v) (columns s), s)) s1 = (r2, s2)" by fastforce
  then have d2: "same_data s s2" using d1 by (elim sql_callE) (auto intro: same_data_trans)
  have r2: "r2 = Inr (schema (Suc ?v)) \<or> (\<exists>e. r2 = Inl e)"
    using 2 d1 assms(1) migration_applies [OF assms(2)]
    by (elim sql_callE) (auto simp: same_data_def schema_ok_def simp del: schema.simps)
  obtain r3 s3 where 3: "sql_call (\<lambda>s. (Inr (), s)) s2 = (r3, s3)" by fastforce
  then have d3: "same_data s s3" using d2 by (elim sql_callE) (auto intro: same_data_trans)
  obtain r4 s4 where 4: "sql_call (\<lambda>s. (Inr (), s\<lparr>columns := schema (Suc ?v), user_version := ?v + 1\<rparr>)) s3 = (r4, s4)"
    by fastforce
  then have d4: "(\<exists>e. r4 = Inl e) \<and> same_data s s4 \<or>
      r4 = Inr () \<and> same_data (s\<lparr>columns := schema (Suc ?v), user_version := Suc ?v\<rparr>) s4"
    using d3 by (elim sql_callE) (auto simp: same_data_def)
  show ?thesis
    using assms(3) 1 2 3 4 d1 d2 d3 d4 r2 failed applied
    by (auto simp: run_migration_def simp del: schema.simps split: sum.splits)
qed

lemma run_migration_no_faults:
  assumes "schema_ok s" "user_version s < length migrations" "faults s = []"
  shows "run_migration (user_version s) s =
    (Inr (), s\<lparr>columns := schema (Suc (user_version s)), user_version := Suc (user_version s)\<rparr>)"
  using assms migration_applies [OF assms(2)]
  by (simp add: run_migration_def sql_call_no_faults schema_ok_def del: schema.simps)

text \<open>The version only moves forward, the columns follow it, and the rows stay.\<close>

definition migrated :: "store \<Rightarrow> unit result \<times> store \<Rightarrow> bool" where
  "migrated s out = (schema_ok (snd out) \<and> user_version s \<le> user_version (snd out) \<and>
     rows (snd out) = rows s \<and> (fst out = Inr () \<longrightarrow> user_version (snd out) = length migrations) \<and>
     (faults s = [] \<longrightarrow> fst out = Inr ()))"

lemma migrate_from_effect:
  "schema_ok s \<Longrightarrow> user_version s = v \<Longrightarrow> migrated s (migrate_from v s)"
proof (induction v s rule: migrate_from.induct)
  case (1 v s)
  show ?case
  proof (cases "v < length migrations")
    case False
    with 1 show ?thesis
      by (subst migrate_from.simps) (simp add: migrated_def schema_ok_def)
  next
    case True
    obtain res s1 where r: "run_migration v s = (res, s1)" by fastforce
    have nf: "faults s = [] \<Longrightarrow> res = Inr () \<and> faults s1 = []"
      using run_migration_no_faults [of s] r True 1 by auto
    from 1 True r have "run_migration (user_version s) s = (res, s1)" "user_version s < length migrations" by auto
    from "1.prems"(1) this(2,1) show ?thesis
    proof (cases rule: run_migration_effect)
      case (failed e)
      then have "migrate_from v s = (Inl e, s1)" using r True by (subst migrate_from.simps) simp
      moreover have "faults s \<noteq> []" using nf failed(1) by auto
      ultimately show ?thesis
        using failed(2) "1.prems"(1) by (simp add: migrated_def same_data_def schema_ok_def)
    next
      case applied
      then have s1: "schema_ok s1" "user_version s1 = Suc v" "rows s1 = rows s"
        using 1 True by (auto simp: schema_ok_def same_data_def simp del: schema.simps)
      have "migrated s1 (migrate_from (Suc v) s1)"
        using "1.IH" [OF True] r applied(1) s1 by auto
      moreover have "migrate_from v s = migrate_from (Suc v) s1"
        using r True applied(1) by (subst migrate_from.simps) simp
      ultimately show ?thesis using s1 nf "1.prems"(2) by (auto simp: migrated_def)
    qed
  qed
qed

section \<open>Properties of the store\<close>

text \<open>A store just opened, and a deployment as the deploy command fills it in.\<close>

definition fresh_store :: store where
  "fresh_store = \<lparr>rows = [], columns = [], user_version = 0, faults = [],
     unique_text = ''UNIQUE constraint failed: deployments.id''\<rparr>"

definition sample_deployment :: deployment where
  "sample_deployment = \<lparr>d_id = ''m-1'', d_alias = ''m'', d_artifact = ''o/m'', d_artifact_revision = ''sha'',
     d_model_cache_dir = ''/d/models/hf/m-1'', d_port = 0, d_pid = 0, d_command = '''', d_started_at = zero_time,
     d_start_token = '''', d_phase = PhaseReady, d_failure_reason = '''', d_idempotency_key = ''k'',
     d_created_at = 5, d_updated_at = 7\<rparr>"

lemma fresh_store_inv [simp]: "store_inv fresh_store"
  by (simp add: store_inv_def fresh_store_def has_prefix_def)

lemma fresh_store_fields [simp]: "rows fresh_store = []" "faults fresh_store = []" "columns fresh_store = []"
    "user_version fresh_store = 0"
  by (simp_all add: fresh_store_def)

lemma Create_fresh: "d_pid d = 0 \<Longrightarrow> Create now d fresh_store =
    (Inr (d\<lparr>d_phase := PhaseRequested, d_failure_reason := '''',
       d_created_at := trunc_second now, d_updated_at := trunc_second now\<rparr>),
     fresh_store\<lparr>rows := [row_of (d\<lparr>d_phase := PhaseRequested, d_failure_reason := '''',
       d_created_at := trunc_second now, d_updated_at := trunc_second now\<rparr>)]\<rparr>)"
  by (simp add: Create_def Let_def sql_insert_def sql_call_no_faults)

lemma Transition_faults:
  "faults s = [] \<Longrightarrow> faults (snd (Transition now i p q why s)) = []"
  by (auto simp: Transition_def sql_update_def rows_affected_def Get_def sql_select_def sql_call_no_faults
      split: sum.split list.split)

lemma Transition_error_code:
  assumes "store_inv s" "faults s = []" "deployments s i \<noteq> None" "Transition now i p q why s = (Inl e, s')"
  shows "exit_code (Some e) = 4"
proof (cases "phase_step p q")
  case True
  let ?s1 = "s\<lparr>rows := update_where (in_phase i p) (transition_row now q why) (rows s)\<rparr>"
  have inv: "store_inv ?s1"
    by (rule store_inv_update [OF assms(1) same_data_refl]) (use True in \<open>auto intro: row_ok_transition\<close>)
  have "row_at (rows ?s1) i \<noteq> None"
    using assms(3) deployments_None [OF assms(1)] by (simp add: row_at_update)
  then obtain d where "deployments ?s1 i = Some d" using deployments_None [OF inv, of i] by auto
  then show ?thesis
    using assms(4) True by (auto simp: Transition_tail sql_update_def sql_call_no_faults assms(2)
        update_where_def [symmetric] count_tail_exact [OF inv, simplified, OF assms(2)] split: if_splits)
next
  case False
  then obtain e' where "checkTransition p q = Inl e'"
    by (cases "checkTransition p q") (auto simp: checkTransition_step [symmetric])
  with assms(4) checkTransition_error_code show ?thesis by (auto simp: Transition_def)
qed

text \<open>
  C24. The SQL store implements its contract: on any store the operations can produce, each operation
  reports the error the contract names (\<open>ErrDuplicate\<close>, \<open>ErrNotFound\<close>,
  \<open>ErrIllegalTransition\<close>, \<open>ErrConflict\<close>, \<open>ErrNotDestroyed\<close>) exactly when the
  contract refuses, and changes the map from ids to deployments as the contract says, all other
  fields and deployments included. The driver answers every call.
\<close>

theorem store_refines_contract:
  assumes "store_inv s" "faults s = []"
  shows "reports (op_error x s) (fst (spec_op x (deployments s))) \<and>
    deployments (apply_op x s) = snd (spec_op x (deployments s))"
  using op_refines [OF assms] by (cases x) blast+

theorem store_refines_contract_witness:
  "deployments (apply_op (OpCreate (3 * second + 1) sample_deployment) fresh_store) ''m-1'' =
     Some (sample_deployment\<lparr>d_phase := PhaseRequested, d_created_at := 3 * second, d_updated_at := 3 * second\<rparr>) \<and>
   reports (op_error (OpDelete ''m-1'') fresh_store) (Some ErrNotFound)"
  using store_refines_contract [of fresh_store "OpCreate (3 * second + 1) sample_deployment"]
    store_refines_contract [of fresh_store "OpDelete ''m-1''"]
  by (simp add: deployments_def sample_deployment_def spec_update_def trunc_second_def second_def)

text \<open>
  C25. Whatever commands run against one state database, in whatever order and whatever driver calls
  fail in between (also after the statement took effect), the table stays well formed and every
  deployment's phase only moves along the documented state machine: from no record to REQUESTED,
  along legal transitions, and back to no record only out of DESTROYED.
\<close>

theorem store_runs_follow_machine:
  assumes "store_inv s" "list_all op_ok (xs @ ys)"
  shows "store_inv (fold apply_op (xs @ ys) s) \<and>
    life_step\<^sup>*\<^sup>* (phase_at (fold apply_op xs s) i) (phase_at (fold apply_op (xs @ ys) s) i)"
  using runs.inv_run [OF assms] runs.rel_within [OF assms] by (simp add: history_def)

theorem store_runs_follow_machine_witness:
  "phase_at (fold apply_op [OpCreate 0 sample_deployment,
      OpTransition 1 ''m-1'' PhaseRequested PhaseReady '''',
      OpTransition 1 ''m-1'' PhaseRequested PhaseFailed ''no disk'']
     (fresh_store\<lparr>faults := [None, None, Some (Opaque ''disk I/O error'')]\<rparr>)) ''m-1'' = Some PhaseFailed \<and>
   life_step\<^sup>*\<^sup>* (Some PhaseRequested) (Some PhaseFailed)"
proof -
  let ?s = "fresh_store\<lparr>faults := [None, None, Some (Opaque ''disk I/O error'')]\<rparr>"
  let ?xs = "[OpCreate 0 sample_deployment]"
  let ?ys = "[OpTransition 1 ''m-1'' PhaseRequested PhaseReady '''',
      OpTransition 1 ''m-1'' PhaseRequested PhaseFailed ''no disk'']"
  have "phase_at (fold apply_op ?xs ?s) ''m-1'' = Some PhaseRequested"
    "phase_at (fold apply_op (?xs @ ?ys) ?s) ''m-1'' = Some PhaseFailed"
    by (simp_all add: fresh_store_def sample_deployment_def Create_def Transition_def checkTransition_def
        CanTransition_def sql_insert_def sql_update_def rows_affected_def sql_call_def row_of_def phase_at_def
        Let_def)
  with store_runs_follow_machine [of ?s ?xs ?ys "''m-1''"] show ?thesis
    by (simp add: sample_deployment_def store_inv_def fresh_store_def has_prefix_def)
qed

text \<open>
  C26. Ownership is written once: whatever operations run, short of deleting the record, a
  deployment keeps its alias, artifact, revision, model cache, idempotency key and creation time, and
  once a process id is recorded, the identity that later decides which process may be signalled (pid,
  port, command line, start time, start token) never changes.
\<close>

theorem ownership_written_once:
  assumes "store_inv s" "list_all (\<lambda>x. op_ok x \<and> \<not> deletes i x) xs" "row_at (rows s) i = Some r"
  shows "\<exists>r'. row_at (rows (fold apply_op xs s)) i = Some r' \<and> origin r' = origin r \<and>
    (r_pid r \<noteq> 0 \<longrightarrow> identity r' = identity r)"
  using owned_runs.rel_run [OF assms(1,2)] assms(3) by (simp add: keeps_owner_def)

theorem ownership_written_once_witness:
  "\<exists>r'. row_at (rows (fold apply_op [OpRuntime 9 ''m-1'' 5 8101 ''cmd'' 2 ''tok'', OpIntent 9 ''m-1'' 1 ''x'']
       (fresh_store\<lparr>rows := [(row_of sample_deployment)\<lparr>r_pid := 7\<rparr>]\<rparr>))) ''m-1'' = Some r' \<and> r_pid r' = 7"
proof -
  let ?r = "(row_of sample_deployment)\<lparr>r_pid := 7\<rparr>"
  have "store_inv (fresh_store\<lparr>rows := [?r]\<rparr>)"
    by (simp add: store_inv_def fresh_store_def has_prefix_def row_ok_def row_of_def sample_deployment_def
        before_launch_def)
  from ownership_written_once [OF this,
      of "''m-1''" "[OpRuntime 9 ''m-1'' 5 8101 ''cmd'' 2 ''tok'', OpIntent 9 ''m-1'' 1 ''x'']" ?r]
  show ?thesis by (auto simp: row_of_def sample_deployment_def identity_def)
qed

text \<open>
  Of two commands that read the same phase, at most one gets its transition through: once the
  first has moved the deployment on, the second is refused with a conflict (exit code 4) and changes
  nothing, whatever it wanted to do.
\<close>

theorem transition_race_exclusive:
  assumes "store_inv s" "faults s = []" "Transition now i p q why s = (Inr (), s1)"
  shows "\<exists>e s2. Transition now' i p q' why' s1 = (Inl e, s2) \<and> exit_code (Some e) = 4 \<and>
    deployments s2 = deployments s1"
proof -
  obtain res s2 where t: "Transition now' i p q' why' s1 = (res, s2)" by fastforce
  have inv: "store_inv s1" using Transition_inv [OF assms(3,1)] .
  have nf: "faults s1 = []" using Transition_faults [OF assms(2), of now i p q why] assms(3) by simp
  obtain e where e: "res = Inl e"
    using db.move_race [of s "(now, why)" i p q "()" s1 "(now', why')" q' res s2] assms t
    by (auto simp: move_phase_def)
  have "phase_at s1 i \<noteq> None"
    using db.move_ok [of s "(now, why)" i p q "()" s1] assms by (simp add: move_phase_def)
  then have there: "deployments s1 i \<noteq> None" using deployments_None [OF inv, of i] by (simp add: phase_at_def)
  have "exit_code (Some e) = 4"
    using Transition_error_code [OF inv nf there t [unfolded e]] .
  moreover have "deployments s2 = deployments s1"
    using transition_refines [OF inv nf, of now' i p q' why'] t e there
    by (auto simp: spec_update_def reports_def split: option.splits if_splits)
  ultimately show ?thesis using t e by blast
qed

theorem transition_race_exclusive_witness:
  "\<exists>e s2. Transition 9 ''m-1'' PhaseRequested PhaseFailed ''late''
      (fresh_store\<lparr>rows := [transition_row 5 PhaseValidating '''' (row_of (sample_deployment\<lparr>d_phase := PhaseRequested\<rparr>))]\<rparr>) =
      (Inl e, s2) \<and> exit_code (Some e) = 4"
proof -
  let ?r = "row_of (sample_deployment\<lparr>d_phase := PhaseRequested\<rparr>)"
  have "store_inv (fresh_store\<lparr>rows := [?r]\<rparr>)"
    by (simp add: store_inv_def fresh_store_def has_prefix_def sample_deployment_def)
  moreover have "Transition 5 ''m-1'' PhaseRequested PhaseValidating '''' (fresh_store\<lparr>rows := [?r]\<rparr>) =
      (Inr (), fresh_store\<lparr>rows := [transition_row 5 PhaseValidating '''' ?r]\<rparr>)"
    by (simp add: Transition_def checkTransition_def CanTransition_def sql_update_def rows_affected_def
        sql_call_no_faults row_of_def sample_deployment_def transition_row_def)
  ultimately show ?thesis
    using transition_race_exclusive [of "fresh_store\<lparr>rows := [?r]\<rparr>" 5 "''m-1''" PhaseRequested PhaseValidating "''''"
        _ 9 PhaseFailed "''late''"] by fastforce
qed

text \<open>
  C30. What Create stores is what Get returns: after a successful Create, under any driver answers
  before it, reading the id back gives exactly the deployment Create returned, which is the caller's
  with phase REQUESTED, no failure reason, and both times set to now, cut to the second.
\<close>

theorem create_get_roundtrip:
  assumes "Create now d s = (Inr d', s1)" "faults s1 = []"
  shows "Get (d_id d) s1 = (Inr d', s1) \<and>
    d' = d\<lparr>d_phase := PhaseRequested, d_failure_reason := '''',
           d_created_at := trunc_second now, d_updated_at := trunc_second now\<rparr>"
  using assms(1)
proof (cases rule: Create_effect)
  case created
  let ?d = "d\<lparr>d_phase := PhaseRequested, d_failure_reason := '''',
           d_created_at := trunc_second now, d_updated_at := trunc_second now\<rparr>"
  have "scanDeployment (row_of ?d) = Inr ?d" by (rule scan_create) simp_all
  moreover have "filter (\<lambda>r. r_id r = d_id d) (rows s1) = [row_of ?d]"
    using created(2,3) by (force simp: same_data_def row_of_def filter_empty_conv)
  ultimately show ?thesis
    using created(1) assms(2) by (simp add: Get_def sql_select_def sql_call_no_faults)
qed simp

theorem create_get_roundtrip_witness:
  "Get ''m-1'' (snd (Create 5 sample_deployment fresh_store)) =
     (Inr (sample_deployment\<lparr>d_phase := PhaseRequested, d_created_at := 0, d_updated_at := 0\<rparr>),
      snd (Create 5 sample_deployment fresh_store))"
  using create_get_roundtrip [OF Create_fresh [of sample_deployment 5]]
  by (simp add: sample_deployment_def Create_fresh trunc_second_def second_def)

text \<open>
  \<open>List\<close> shows every deployment once, as Get shows it, oldest first, ids breaking ties.
\<close>

theorem list_complete_sorted:
  assumes "store_inv s" "faults s = []"
  shows "\<exists>ds. ListAll s = (Inr ds, s) \<and> (\<forall>d. d \<in> set ds \<longleftrightarrow> deployments s (d_id d) = Some d) \<and>
    distinct (map d_id ds) \<and> sorted (map (\<lambda>d. (d_created_at d, d_id d)) ds)"
proof -
  let ?rs = "sort_key (\<lambda>r. (r_created_at r, r_id r)) (rows s)"
  obtain ds where l: "ListAll s = (Inr ds, s)" and ds: "list_all2 (\<lambda>r d. scanDeployment r = Inr d) ?rs ds"
    by (rule ListAll_exact [OF assms])
  have dist: "distinct (map r_id (rows s))" using assms(1) by (simp add: store_inv_def)
  have scan: "d_id d = r_id r \<and> r_created_at r = TimeText (d_created_at d)" if "scanDeployment r = Inr d" for r d
    using that by (auto simp: scanDeployment_def parse_time_def split: sum.splits stamp.splits)
  have "map d_id ds = map r_id ?rs"
    using ds scan by (induction rule: list_all2_induct) auto
  moreover have "distinct (map r_id ?rs)"
    using dist by (simp add: distinct_map)
  moreover have keys: "map (\<lambda>r. (r_created_at r, r_id r)) ?rs = map (\<lambda>d. (TimeText (d_created_at d), d_id d)) ds"
    using ds scan by (induction rule: list_all2_induct) auto
  have "sorted (map (\<lambda>d. (TimeText (d_created_at d), d_id d)) ds)"
    unfolding keys [symmetric] by (rule sorted_sort_key)
  then have "sorted (map (\<lambda>d. (d_created_at d, d_id d)) ds)"
    unfolding sorted_map by (rule sorted_wrt_mono_rel [rotated]) (auto simp: less_stamp_def)
  moreover have "d \<in> set ds \<longleftrightarrow> deployments s (d_id d) = Some d" for d
  proof
    assume "d \<in> set ds"
    then obtain r where r: "r \<in> set (rows s)" "scanDeployment r = Inr d"
      using list_all2_right [OF ds] by auto
    with scan row_at_unique [OF dist, of r] show "deployments s (d_id d) = Some d"
      by (simp add: deployments_def)
  next
    assume d: "deployments s (d_id d) = Some d"
    then obtain r where r: "row_at (rows s) (d_id d) = Some r" "scanDeployment r = Inr d"
      by (auto simp: deployments_def split: option.splits sum.splits)
    then have "r \<in> set ?rs" by (auto dest: row_at_Some)
    with r(2) show "d \<in> set ds" using list_all2_left [OF ds] by fastforce
  qed
  ultimately show ?thesis using l by auto
qed

theorem list_complete_sorted_witness:
  "\<exists>ds. ListAll (fresh_store\<lparr>rows := [row_of (sample_deployment\<lparr>d_phase := PhaseRequested\<rparr>)]\<rparr>) =
      (Inr ds, fresh_store\<lparr>rows := [row_of (sample_deployment\<lparr>d_phase := PhaseRequested\<rparr>)]\<rparr>) \<and>
     (\<exists>d. d \<in> set ds \<and> d_id d = ''m-1'')"
proof -
  let ?s = "fresh_store\<lparr>rows := [row_of (sample_deployment\<lparr>d_phase := PhaseRequested\<rparr>)]\<rparr>"
  have "store_inv ?s"
    by (simp add: store_inv_def fresh_store_def has_prefix_def sample_deployment_def)
  from list_complete_sorted [OF this] obtain ds where ds: "ListAll ?s = (Inr ds, ?s)"
    "\<And>d. d \<in> set ds \<longleftrightarrow> deployments ?s (d_id d) = Some d" by auto
  obtain d where "deployments ?s ''m-1'' = Some d" "d_id d = ''m-1''"
    by (simp add: sample_deployment_def deployments_def row_of_def scanDeployment_def
        parseOptionalTime_def formatOptionalTime_def rfc3339_def parse_time_def)
  with ds show ?thesis by metis
qed

text \<open>
  C27. Migration is resumable: on a database at any supported version, \<open>migrate\<close> keeps the rows,
  never moves the version back, and always leaves the columns of exactly the version it reports, also
  when a statement or commit fails half-way, so that a later run can finish; it succeeds only at the
  newest version, and does succeed when the driver answers. A database from a newer binary is refused
  untouched.
\<close>

theorem migrate_resumable:
  "(schema_ok s \<longrightarrow> migrated s (migrate s)) \<and>
   (user_version s > length migrations \<longrightarrow>
     (\<exists>e. fst (migrate s) = Inl e) \<and> same_data s (snd (migrate s)))"
proof -
  obtain res s1 where c: "sql_call (\<lambda>s. (Inr (user_version s), s)) s = (res, s1)" by fastforce
  then have d: "same_data s s1" by (elim sql_callE) auto
  have r: "res = Inr (user_version s) \<or> (\<exists>e. res = Inl e) \<and> faults s \<noteq> []"
    using c by (auto simp: sql_call_def split: list.splits option.splits)
  have nf: "faults s = [] \<Longrightarrow> faults s1 = []" using c by (simp add: sql_call_no_faults)
  show ?thesis
  proof (cases res)
    case (Inl e)
    with c r d show ?thesis by (auto simp: migrate_def migrated_def schema_ok_def same_data_def)
  next
    case (Inr v)
    with r have v: "v = user_version s" by simp
    have "migrated s (migrate_from v s1)" if "schema_ok s"
    proof -
      have "schema_ok s1" "user_version s1 = v" using that d v by (auto simp: schema_ok_def same_data_def)
      from migrate_from_effect [OF this] show ?thesis using d nf by (auto simp: migrated_def same_data_def)
    qed
    moreover have "\<not> v > length migrations" if "schema_ok s" using that v by (simp add: schema_ok_def)
    ultimately show ?thesis using Inr c v d by (auto simp: migrate_def)
  qed
qed

theorem migrate_resumable_witness:
  "fst (migrate fresh_store) = Inr () \<and>
   fst (migrate (fresh_store\<lparr>user_version := 6\<rparr>)) \<noteq> Inr ()"
  using migrate_resumable [of fresh_store] migrate_resumable [of "fresh_store\<lparr>user_version := 6\<rparr>"]
  by (auto simp: schema_ok_def migrated_def)

end
