(* ===== verification/Paths.thy ===== *)
theory Paths imports GoErrors "HOL-Library.Word" begin

text \<open>
  Package \<open>path/filepath\<close> on Unix, and the deployment ids and owned directories of
  internal/cli (cli.go: \<open>validateID\<close>, \<open>safeChildPath\<close>, \<open>ownedPaths\<close>,
  \<open>stateDir\<close> and the paths below it; deploy.go: \<open>deploymentID\<close>,
  \<open>randomHex\<close>). A path is its text; \<open>clean_parts\<close> is the list of its elements after
  \<open>Clean\<close>, on which the containment lemmas are stated.
\<close>

section \<open>filepath\<close>

definition sep :: char where
  "sep = CHR ''/''"

definition IsAbs :: "string \<Rightarrow> bool" where
  "IsAbs p = has_prefix p [sep]"

text \<open>One element of the path against the (reversed) elements kept so far.\<close>

definition clean_step :: "bool \<Rightarrow> string list \<Rightarrow> string \<Rightarrow> string list" where
  "clean_step rooted st c =
     (if c = [] \<or> c = ''.'' then st
      else if c = ''..''
        then (case st of
                [] \<Rightarrow> if rooted then [] else [''..'']
              | x # xs \<Rightarrow> if x = ''..'' then ''..'' # st else xs)
      else c # st)"

definition clean_parts :: "string \<Rightarrow> string list" where
  "clean_parts p = rev (foldl (clean_step (IsAbs p)) [] (split_on sep p))"

definition unclean :: "bool \<Rightarrow> string list \<Rightarrow> string" where
  "unclean rooted ps =
     (if rooted then sep # join_with [sep] ps else if ps = [] then ''.'' else join_with [sep] ps)"

definition Clean :: "string \<Rightarrow> string" where
  "Clean p = unclean (IsAbs p) (clean_parts p)"

fun Join :: "string list \<Rightarrow> string" where
  "Join [] = []"
| "Join (e # es) = (if e \<noteq> [] then Clean (join_with [sep] (e # es)) else Join es)"

text \<open>\<open>filepath.Dir\<close>.\<close>

definition path_dir :: "string \<Rightarrow> string" where
  "path_dir p = Clean (rev (dropWhile (\<lambda>c. c \<noteq> sep) (rev p)))"

definition Base :: "string \<Rightarrow> string" where
  "Base p = (if p = [] then ''.''
     else let q = trim_right (\<lambda>c. c = sep) p;
              b = rev (takeWhile (\<lambda>c. c \<noteq> sep) (rev q))
          in if b = [] then [sep] else b)"

fun strip_common :: "string list \<Rightarrow> string list \<Rightarrow> string list \<times> string list" where
  "strip_common (x # xs) (y # ys) = (if x = y then strip_common xs ys else (x # xs, y # ys))"
| "strip_common xs ys = (xs, ys)"

text \<open>\<open>Rel\<close> for two absolute paths, the only ones the code gives it.\<close>

definition Rel :: "string \<Rightarrow> string \<Rightarrow> string" where
  "Rel base targ = (case strip_common (clean_parts base) (clean_parts targ) of
     (bs, ts) \<Rightarrow> (if bs = [] \<and> ts = [] then ''.''
                 else join_with [sep] (replicate (length bs) ''..'' @ ts)))"

text \<open>The process environment the path functions read.\<close>

record environment =
  getenv :: "string \<Rightarrow> string"
  workspace_is_dir :: bool
  user_home :: "string result"
  getwd :: "string result"

definition Abs :: "environment \<Rightarrow> string \<Rightarrow> string result" where
  "Abs env p = (if IsAbs p then Inr (Clean p)
     else case getwd env of Inl e \<Rightarrow> Inl e | Inr wd \<Rightarrow> Inr (Join [wd, p]))"

section \<open>Deployment ids\<close>

definition alnum :: "char \<Rightarrow> bool" where
  "alnum c = (is_lower c \<or> is_upper c \<or> is_digit c)"

definition id_char :: "char \<Rightarrow> bool" where
  "id_char c = (alnum c \<or> c = CHR ''.'' \<or> c = CHR ''_'' \<or> c = CHR ''-'')"

text \<open>The regular expression \<open>validIDPattern\<close>: one alphanumeric byte, then at most 63 id bytes.\<close>

definition validIDPattern :: "string \<Rightarrow> bool" where
  "validIDPattern s = (case s of [] \<Rightarrow> False
     | c # cs \<Rightarrow> alnum c \<and> list_all id_char cs \<and> length cs \<le> 63)"

definition validateID :: "string \<Rightarrow> unit result" where
  "validateID i =
     (if \<not> validIDPattern i \<or> str_contains i ''..''
      then Inl (Errorf ''invalid deployment id %q'' [ArgS i]) else Inr ())"

text \<open>\<open>idSanitizer.ReplaceAllString(s, "-")\<close>: each maximal run of bytes outside the class.\<close>

definition san_char :: "char \<Rightarrow> bool" where
  "san_char c = (is_lower c \<or> is_digit c \<or> c = CHR ''.'' \<or> c = CHR ''_'' \<or> c = CHR ''-'')"

fun sanitize :: "bool \<Rightarrow> string \<Rightarrow> string" where
  "sanitize in_run [] = []"
| "sanitize in_run (c # s) =
     (if san_char c then c # sanitize False s
      else if in_run then sanitize True s
      else CHR ''-'' # sanitize True s)"

definition randomHex :: "8 word list \<Rightarrow> string" where
  "randomHex bytes = concat (map (\<lambda>b. [hex_digit (unat b div 16), hex_digit (unat b mod 16)]) bytes)"

definition deploymentID :: "8 word list \<Rightarrow> string \<Rightarrow> string" where
  "deploymentID rnd ref =
     (let (before, after, found) = cut_at sep ref;
          ref1 = (if found then after else ref);
          id0 = trim (\<lambda>c. c = CHR ''-'' \<or> c = CHR ''.'' \<or> c = CHR ''_'') (sanitize False (to_lower ref1));
          id1 = (if length id0 > 64 then take 64 id0 else id0)
      in if id1 = [] \<or> validateID id1 \<noteq> Inr () then ''deployment-'' @ randomHex rnd else id1)"

section \<open>Owned paths\<close>

definition safeChildPath :: "environment \<Rightarrow> string \<Rightarrow> string list \<Rightarrow> string result" where
  "safeChildPath env base elements =
     (case Abs env base of
        Inl e \<Rightarrow> Inl e
      | Inr baseAbs \<Rightarrow>
        (let path = Join (baseAbs # elements);
             relative = Rel baseAbs path
         in if relative = ''..'' \<or> has_prefix relative (''..'' @ [sep])
            then Inl (Errorf ''path %q escapes owned root %q'' [ArgS path, ArgS baseAbs])
            else Inr path))"

definition stateDir :: "environment \<Rightarrow> string" where
  "stateDir env =
     (if getenv env ''IOLD_STATE_DIR'' \<noteq> [] then getenv env ''IOLD_STATE_DIR''
      else if workspace_is_dir env then ''/workspace/.iold''
      else case user_home env of Inl e \<Rightarrow> ''.iold'' | Inr home \<Rightarrow> Join [home, ''.iold''])"

definition stateDBPath :: "environment \<Rightarrow> string" where
  "stateDBPath env = Join [stateDir env, ''iold.db'']"

definition operationLockPath :: "environment \<Rightarrow> string" where
  "operationLockPath env = Join [stateDir env, ''operation.lock'']"

definition modelCacheDir :: "environment \<Rightarrow> string" where
  "modelCacheDir env = (if getenv env ''IOLD_MODEL_CACHE'' \<noteq> [] then getenv env ''IOLD_MODEL_CACHE''
     else Join [stateDir env, ''models''])"

definition deploymentModelCacheDir :: "environment \<Rightarrow> string \<Rightarrow> string result" where
  "deploymentModelCacheDir env i = (case validateID i of
     Inl e \<Rightarrow> Inl e | Inr u \<Rightarrow> safeChildPath env (modelCacheDir env) [i])"

definition ownedPaths :: "environment \<Rightarrow> string \<Rightarrow> (string list) result" where
  "ownedPaths env i =
     (case validateID i of
        Inl e \<Rightarrow> Inl e
      | Inr u \<Rightarrow>
        (case safeChildPath env (stateDir env) [''logs'', i @ ''.log''] of
           Inl e \<Rightarrow> Inl e
         | Inr logFile \<Rightarrow>
           (case safeChildPath env (stateDir env) [''deployments'', i] of
              Inl e \<Rightarrow> Inl e
            | Inr deploymentDir \<Rightarrow> Inr [logFile, deploymentDir])))"

definition logPath :: "environment \<Rightarrow> string \<Rightarrow> string result" where
  "logPath env i = (case validateID i of
     Inl e \<Rightarrow> Inl e | Inr u \<Rightarrow> safeChildPath env (stateDir env) [''logs'', i @ ''.log''])"

definition endpointURL :: "environment \<Rightarrow> int \<Rightarrow> string" where
  "endpointURL env port =
     (let pod = getenv env ''RUNPOD_POD_ID''
      in if pod \<noteq> [] then ''https://'' @ pod @ ''-'' @ itoa port @ ''.proxy.runpod.net''
         else ''http://127.0.0.1:'' @ itoa port)"

section \<open>Laws of clean paths\<close>

text \<open>A proper path element: not empty, not a dot element, no separator.\<close>

definition seg :: "string \<Rightarrow> bool" where
  "seg s = (s \<noteq> [] \<and> s \<noteq> ''.'' \<and> s \<noteq> ''..'' \<and> sep \<notin> set s)"

lemma split_on_append: "split_on c (a @ c # b) = split_on c a @ split_on c b"
proof (induction a)
  case (Cons x a)
  have "split_on c a \<noteq> []" for a by (induction a) (auto split: list.split)
  with Cons show ?case by (auto split: list.split)
qed simp

lemma split_on_no_sep: "c \<notin> set a \<Longrightarrow> split_on c a = [a]"
  by (induction a) auto

lemma split_on_parts: "x \<in> set (split_on c a) \<Longrightarrow> c \<notin> set x"
proof (induction a arbitrary: x)
  case (Cons y a)
  then show ?case by (cases "split_on c a") (auto split: if_splits)
qed simp

lemma split_on_join: "ws \<noteq> [] \<Longrightarrow> list_all (\<lambda>w. c \<notin> set w) ws \<Longrightarrow> split_on c (join_with [c] ws) = ws"
proof (induction "[c]" ws rule: join_with.induct)
  case (3 x y xs)
  then show ?case using split_on_append [of c x "join_with [c] (y # xs)"] by (simp add: split_on_no_sep)
qed (simp_all add: split_on_no_sep)

lemma split_on_join_Cons:
  "es \<noteq> [] \<Longrightarrow> split_on c (join_with [c] (b # es)) = split_on c b @ split_on c (join_with [c] es)"
  by (cases es) (simp_all add: split_on_append)

lemma clean_step_seg [simp]: "seg c \<Longrightarrow> clean_step r st c = c # st"
  by (simp add: clean_step_def seg_def)

lemma clean_step_keeps: "list_all seg st \<Longrightarrow> sep \<notin> set c \<Longrightarrow> list_all seg (clean_step True st c)"
  by (auto simp: clean_step_def seg_def split: list.split)

lemma fold_clean_keeps:
  "list_all seg st \<Longrightarrow> list_all (\<lambda>c. sep \<notin> set c) cs \<Longrightarrow> list_all seg (foldl (clean_step True) st cs)"
  by (induction cs arbitrary: st) (auto intro: clean_step_keeps)

lemma fold_clean_segs: "list_all seg es \<Longrightarrow> foldl (clean_step r) st es = rev es @ st"
  by (induction es arbitrary: st) auto

lemma clean_parts_seg: "IsAbs p \<Longrightarrow> list_all seg (clean_parts p)"
  using fold_clean_keeps [of "[]" "split_on sep p"] unfolding clean_parts_def
  by (simp add: list_all_iff split_on_parts)

lemma IsAbs_Cons [simp]: "IsAbs (c # s) = (c = sep)" "\<not> IsAbs []"
  by (simp_all add: IsAbs_def has_prefix_def)

lemma IsAbs_iff: "IsAbs p = (\<exists>q. p = sep # q)"
  by (cases p) auto

lemma clean_parts_unclean:
  assumes "list_all seg ps"
  shows "clean_parts (unclean True ps) = ps"
proof (cases "ps = []")
  case True
  then show ?thesis by (simp add: clean_parts_def unclean_def clean_step_def)
next
  case False
  with assms have "split_on sep (join_with [sep] ps) = ps"
    by (auto simp: seg_def list_all_iff intro: split_on_join)
  with assms show ?thesis
    using fold_clean_segs [of ps True "[]"]
    by (simp add: clean_parts_def unclean_def) (simp add: clean_step_def)
qed

lemma Clean_abs [simp]: "IsAbs p \<Longrightarrow> IsAbs (Clean p)"
  by (simp add: Clean_def unclean_def)

lemma clean_parts_Clean [simp]: "IsAbs p \<Longrightarrow> clean_parts (Clean p) = clean_parts p"
  by (simp add: Clean_def clean_parts_unclean clean_parts_seg)

lemma Clean_idem: "IsAbs p \<Longrightarrow> Clean (Clean p) = Clean p"
  using clean_parts_Clean [of p] Clean_abs [of p] by (simp add: Clean_def)

lemma join_abs: "IsAbs b \<Longrightarrow> IsAbs (join_with [sep] (b # es))"
  by (cases es) (auto simp: IsAbs_iff)

lemma Join_abs: "IsAbs b \<Longrightarrow> Join (b # es) = Clean (join_with [sep] (b # es))"
  by auto

lemma Join_is_abs [simp]: "IsAbs b \<Longrightarrow> IsAbs (Join (b # es))"
  by (simp add: Join_abs join_abs del: Join.simps)

lemma clean_parts_Join:
  assumes "IsAbs b" "list_all seg es"
  shows "clean_parts (Join (b # es)) = clean_parts b @ es"
proof (cases "es = []")
  case True
  with assms show ?thesis by (simp add: Join_abs del: Join.simps)
next
  case False
  have "split_on sep (join_with [sep] es) = es"
    using False assms(2) by (auto simp: seg_def list_all_iff intro: split_on_join)
  then have "clean_parts (join_with [sep] (b # es)) = clean_parts b @ es"
    using False assms join_abs [OF assms(1), of es]
    by (simp add: clean_parts_def split_on_join_Cons fold_clean_segs del: join_with.simps)
  with assms show ?thesis by (simp add: Join_abs join_abs del: Join.simps join_with.simps)
qed

lemma strip_common_append: "strip_common xs (xs @ ys) = ([], ys)"
  by (induction xs) (cases ys, simp_all)

lemma Rel_child:
  assumes "IsAbs b" "list_all seg es" "es \<noteq> []"
  shows "Rel b (Join (b # es)) = join_with [sep] es"
  using assms by (simp add: Rel_def clean_parts_Join strip_common_append del: Join.simps)

lemma clean_eq: "IsAbs p \<Longrightarrow> IsAbs q \<Longrightarrow> clean_parts p = clean_parts q \<Longrightarrow> Clean p = Clean q"
  by (simp add: Clean_def)

text \<open>What the code relies on of \<open>os.Getwd\<close>: it names an absolute directory.\<close>

definition env_ok :: "environment \<Rightarrow> bool" where
  "env_ok env = (case getwd env of Inl e \<Rightarrow> True | Inr wd \<Rightarrow> IsAbs wd)"

lemma Abs_is_abs: "env_ok env \<Longrightarrow> Abs env p = Inr q \<Longrightarrow> IsAbs q"
  by (auto simp: Abs_def env_ok_def simp del: Join.simps split: if_splits sum.splits)

lemma not_dotdot: "seg e \<Longrightarrow> join_with [sep] (e # es) \<noteq> ''..'' \<and> \<not> has_prefix (join_with [sep] (e # es)) (''..'' @ [sep])"
proof -
  assume e: "seg e"
  show ?thesis
  proof (cases es)
    case Nil
    with e show ?thesis by (auto simp: seg_def has_prefix_iff prefix_def)
  next
    case (Cons f fs)
    have "e \<noteq> ''..''" "sep \<notin> set e" "e \<noteq> []" "sep \<noteq> CHR ''.''" using e by (auto simp: seg_def sep_def)
    with Cons show ?thesis
      by (auto simp: has_prefix_iff prefix_def append_eq_append_conv2 Cons_eq_append_conv append_eq_Cons_conv)
  qed
qed

lemma safeChildPath_ok:
  assumes "env_ok env" "Abs env base = Inr root" "list_all seg (e # es)"
  shows "safeChildPath env base (e # es) = Inr (Join (root # e # es))"
  using assms not_dotdot [of e es] Rel_child [OF Abs_is_abs [OF assms(1,2)] assms(3)]
  by (simp add: safeChildPath_def Let_def del: Join.simps join_with.simps)

section \<open>Ids as path elements\<close>

lemma alnum_facts [simp]: "\<not> alnum sep" "\<not> alnum CHR ''.''" "\<not> alnum CHR ''-''" "\<not> alnum CHR ''_''" "\<not> id_char sep"
  by (simp_all add: alnum_def id_char_def is_lower_def is_upper_def is_digit_def sep_def)

lemma validateID_iff: "validateID i = Inr () \<longleftrightarrow> validIDPattern i \<and> \<not> str_contains i ''..''"
  by (simp add: validateID_def)

lemma valid_id_seg:
  assumes "validateID i = Inr ()"
  shows "seg i" "seg (i @ ''.log'')"
proof -
  from assms obtain c cs where i: "i = c # cs" "alnum c" "list_all id_char cs"
    by (auto simp: validateID_iff validIDPattern_def split: list.splits)
  have "c \<noteq> CHR ''.''" "c \<noteq> sep" using i(2) by auto
  moreover have "sep \<notin> set cs" using i(3) by (auto simp: list_all_iff)
  moreover have "sep \<notin> set ''.log''" by (simp add: sep_def)
  ultimately show "seg i" "seg (i @ ''.log'')" using i(1) by (auto simp: seg_def)
qed

lemma valid_id_chars: "validateID i = Inr () \<Longrightarrow> sep \<notin> set i \<and> \<not> str_contains i ''..''"
  using valid_id_seg [of i] by (simp add: validateID_iff seg_def)

lemma seg_logs [simp]: "seg ''logs''" "seg ''deployments''"
  by (simp_all add: seg_def sep_def)

text \<open>The paths a valid id owns, under any environment where the state directory resolves.\<close>

lemma ownedPaths_ok:
  assumes "env_ok env" "Abs env (stateDir env) = Inr root" "validateID i = Inr ()"
  shows "ownedPaths env i = Inr [Join [root, ''logs'', i @ ''.log''], Join [root, ''deployments'', i]]"
    and "logPath env i = Inr (Join [root, ''logs'', i @ ''.log''])"
  using assms valid_id_seg [OF assms(3)]
  by (simp_all add: ownedPaths_def logPath_def safeChildPath_ok del: Join.simps)

lemma ownedPaths_cases:
  assumes "env_ok env" "ownedPaths env i = Inr ps"
  obtains root where "validateID i = Inr ()" "Abs env (stateDir env) = Inr root" "IsAbs root"
    "ps = [Join [root, ''logs'', i @ ''.log''], Join [root, ''deployments'', i]]"
proof -
  from assms(2) have v: "validateID i = Inr ()"
    by (auto simp: ownedPaths_def split: sum.splits)
  with assms(2) obtain root where r: "Abs env (stateDir env) = Inr root"
    by (auto simp: ownedPaths_def safeChildPath_def split: sum.splits)
  from ownedPaths_ok(1) [OF assms(1) r v] assms(2) Abs_is_abs [OF assms(1) r] v r that show ?thesis by simp
qed

lemma owned_parts:
  assumes "IsAbs root" "validateID i = Inr ()"
  shows "clean_parts (Join [root, ''logs'', i @ ''.log'']) = clean_parts root @ [''logs'', i @ ''.log'']"
    "clean_parts (Join [root, ''deployments'', i]) = clean_parts root @ [''deployments'', i]"
  using assms valid_id_seg [OF assms(2)] by (simp_all add: clean_parts_Join del: Join.simps)

lemma cache_dir_cases:
  assumes "env_ok env" "deploymentModelCacheDir env i = Inr p"
  obtains root where "validateID i = Inr ()" "Abs env (modelCacheDir env) = Inr root" "IsAbs root"
    "p = Join [root, i]" "clean_parts p = clean_parts root @ [i]"
proof -
  from assms(2) have v: "validateID i = Inr ()"
    by (auto simp: deploymentModelCacheDir_def split: sum.splits)
  with assms(2) obtain root where r: "Abs env (modelCacheDir env) = Inr root"
    by (auto simp: deploymentModelCacheDir_def safeChildPath_def split: sum.splits)
  note a = Abs_is_abs [OF assms(1) r]
  have "p = Join [root, i]"
    using assms(2) v safeChildPath_ok [OF assms(1) r, of i "[]"] valid_id_seg [OF v]
    by (simp add: deploymentModelCacheDir_def del: Join.simps)
  moreover have "clean_parts (Join [root, i]) = clean_parts root @ [i]"
    using clean_parts_Join [OF a, of "[i]"] valid_id_seg [OF v] by (simp del: Join.simps)
  ultimately show ?thesis using that v r a by blast
qed

lemma Base_parts:
  assumes "IsAbs p" "clean_parts p \<noteq> []"
  shows "Base (Clean p) = last (clean_parts p)"
proof -
  let ?ps = "clean_parts p"
  have segs: "list_all seg ?ps" by (rule clean_parts_seg [OF assms(1)])
  obtain xs x where ps: "?ps = xs @ [x]" using assms(2) by (metis rev_exhaust)
  with segs have x: "seg x" "x \<noteq> []" "sep \<notin> set x" by (simp_all add: seg_def)
  have j: "\<exists>q. join_with [sep] (xs @ [x]) = q @ x \<and> (q = [] \<or> last q = sep)"
  proof (induction xs)
    case (Cons y ys)
    then obtain q where q: "join_with [sep] (ys @ [x]) = q @ x" "q = [] \<or> last q = sep" by blast
    have "join_with [sep] ((y # ys) @ [x]) = y @ sep # join_with [sep] (ys @ [x])"
      by (cases ys) simp_all
    with q have "join_with [sep] ((y # ys) @ [x]) = (y @ sep # q) @ x" "last (y @ sep # q) = sep" by auto
    then show ?case by blast
  qed simp
  then obtain q where q: "join_with [sep] ?ps = q @ x" "q = [] \<or> last q = sep" using ps by auto
  have c: "Clean p = (sep # q) @ x" using assms(1) q by (simp add: Clean_def unclean_def)
  have lx: "hd (rev x) \<noteq> sep" using x by (metis hd_rev last_in_set)
  have "trim_right (\<lambda>c. c = sep) (Clean p) = Clean p"
  proof -
    have "dropWhile (\<lambda>c. c = sep) (rev x @ rev (sep # q)) = rev x @ rev (sep # q)"
      using lx x(2) by (cases "rev x") auto
    then show ?thesis by (simp add: trim_right_def c)
  qed
  moreover have "takeWhile (\<lambda>c. c \<noteq> sep) (rev (Clean p)) = rev x"
  proof -
    obtain r where r: "rev (sep # q) = sep # r" using q(2) by (cases "rev q") (auto simp: last_rev hd_rev)
    have "\<And>y. y \<in> set (rev x) \<Longrightarrow> y \<noteq> sep" using x by auto
    then have "takeWhile (\<lambda>c. c \<noteq> sep) (rev x @ sep # r) = rev x" by (subst takeWhile_append2) auto
    then show ?thesis using r by (simp add: c)
  qed
  ultimately show ?thesis using x(2) ps c by (simp add: Base_def Let_def)
qed

section \<open>Ids derived from a model reference\<close>

lemma san_lower: "san_char c \<Longrightarrow> lower_char c = c"
  by (auto simp: san_char_def lower_char_def is_upper_def is_lower_def is_digit_def)

lemma sanitize_id: "list_all san_char s \<Longrightarrow> sanitize b s = s"
  by (induction s arbitrary: b) auto

lemma dropWhile_hd: "xs \<noteq> [] \<Longrightarrow> \<not> P (hd xs) \<Longrightarrow> dropWhile P xs = xs"
  by (cases xs) auto

lemma trim_id: "s \<noteq> [] \<Longrightarrow> \<not> P (hd s) \<Longrightarrow> \<not> P (last s) \<Longrightarrow> trim P s = s"
  unfolding trim_def trim_left_def trim_right_def by (simp add: dropWhile_hd hd_rev)

lemma san_id_char: "san_char c \<Longrightarrow> id_char c"
  by (auto simp: san_char_def id_char_def alnum_def)

lemma of_char_char_of_small: "n < 256 \<Longrightarrow> of_char (char_of (n :: nat)) = n"
  by (simp add: take_bit_nat_eq_self)

lemma hex_digit_digit: "d < 16 \<Longrightarrow> id_char (hex_digit d) \<and> hex_digit d \<noteq> CHR ''.''"
proof -
  assume d: "d < 16"
  have "of_char (hex_digit d) = (if d < 10 then 48 + d else 87 + d)"
    using d by (auto simp: hex_digit_def intro!: of_char_char_of_small)
  moreover have "of_char CHR ''.'' = (46 :: nat)" by simp
  ultimately show ?thesis
    using d by (auto simp: id_char_def alnum_def is_digit_def is_lower_def split: if_splits)
qed

lemma randomHex_chars: "c \<in> set (randomHex bs) \<Longrightarrow> id_char c \<and> c \<noteq> CHR ''.''"
proof -
  have "unat (b :: 8 word) div 16 < 16" for b
  proof -
    have "unat b < 2 ^ LENGTH(8)" by (rule unsigned_less)
    then show ?thesis by simp
  qed
  then show "c \<in> set (randomHex bs) \<Longrightarrow> ?thesis"
    using hex_digit_digit by (auto simp: randomHex_def)
qed

lemma randomHex_length: "length (randomHex bs) = 2 * length bs"
  by (induction bs) (simp_all add: randomHex_def)

lemma no_dot_no_dots: "CHR ''.'' \<notin> set s \<Longrightarrow> \<not> str_contains s ''..''"
  by (auto simp: str_contains_iff sublist_def)

lemma random_id_valid:
  assumes "length rnd \<le> 26"
  shows "validateID (''deployment-'' @ randomHex rnd) = Inr ()"
proof -
  have "\<not> str_contains (''deployment-'' @ randomHex rnd) ''..''"
    by (rule no_dot_no_dots) (auto dest: randomHex_chars)
  moreover have "validIDPattern (''deployment-'' @ randomHex rnd)"
    using assms randomHex_chars
    by (simp add: validIDPattern_def alnum_def id_char_def is_lower_def randomHex_length list_all_iff)
      (auto simp: alnum_def id_char_def)
  ultimately show ?thesis by (simp add: validateID_iff)
qed

section \<open>Properties\<close>

text \<open>
  C33. Destroying can only name paths of its own deployment: whatever text a state record has as its
  id, either no path is produced, or the id is one path element (no separator, no double dot, at
  most 64 bytes) and the owned paths are exactly the log file and the directory of that id below the
  state directory; and the paths of two different ids never contain one another.
\<close>

theorem owned_paths_contained:
  assumes "env_ok env" "ownedPaths env i = Inr ps"
  shows "(\<exists>root. Abs env (stateDir env) = Inr root \<and> map clean_parts ps =
        [clean_parts root @ [''logs'', i @ ''.log''], clean_parts root @ [''deployments'', i]]) \<and>
    i \<noteq> [] \<and> length i \<le> 64 \<and> CHR ''/'' \<notin> set i \<and> \<not> str_contains i ''..'' \<and>
    (\<forall>j qs p q. j \<noteq> i \<and> ownedPaths env j = Inr qs \<and> p \<in> set ps \<and> q \<in> set qs \<longrightarrow>
       \<not> prefix (clean_parts p) (clean_parts q))"
proof -
  from assms obtain root where r: "validateID i = Inr ()" "Abs env (stateDir env) = Inr root" "IsAbs root"
    "ps = [Join [root, ''logs'', i @ ''.log''], Join [root, ''deployments'', i]]"
    by (rule ownedPaths_cases)
  have parts: "map clean_parts ps =
      [clean_parts root @ [''logs'', i @ ''.log''], clean_parts root @ [''deployments'', i]]"
    unfolding r(4) using owned_parts [OF r(3,1)] by (simp del: Join.simps)
  have "\<not> prefix (clean_parts p) (clean_parts q)"
    if "j \<noteq> i" "ownedPaths env j = Inr qs" "p \<in> set ps" "q \<in> set qs" for j qs p q
  proof -
    from assms(1) that(2) obtain root' where "validateID j = Inr ()" "Abs env (stateDir env) = Inr root'"
      "qs = [Join [root', ''logs'', j @ ''.log''], Join [root', ''deployments'', j]]"
      by (rule ownedPaths_cases)
    then have "map clean_parts qs =
        [clean_parts root @ [''logs'', j @ ''.log''], clean_parts root @ [''deployments'', j]]"
      using r(2,3) owned_parts [of root j] by (simp del: Join.simps)
    with parts that show ?thesis by (auto simp: map_eq_Cons_conv)
  qed
  moreover have "i \<noteq> [] \<and> length i \<le> 64"
    using r(1) by (auto simp: validateID_iff validIDPattern_def split: list.splits)
  ultimately show ?thesis
    using r(1,2) parts valid_id_chars [OF r(1)] by (simp add: sep_def) blast
qed

theorem owned_paths_contained_witness:
  "map clean_parts [''/workspace/.iold/logs/m-1.log'', ''/workspace/.iold/deployments/m-1''] =
     [[''workspace'', ''.iold'', ''logs'', ''m-1.log''], [''workspace'', ''.iold'', ''deployments'', ''m-1'']]"
proof -
  let ?env = "\<lparr>getenv = (\<lambda>x. []), workspace_is_dir = True, user_home = Inr ''/root'', getwd = Inr ''/root''\<rparr>"
  have "ownedPaths ?env ''m-1'' = Inr [''/workspace/.iold/logs/m-1.log'', ''/workspace/.iold/deployments/m-1'']"
    by code_simp
  moreover have "Abs ?env (stateDir ?env) = Inr ''/workspace/.iold''" by code_simp
  moreover have "clean_parts ''/workspace/.iold'' = [''workspace'', ''.iold'']" by code_simp
  ultimately show ?thesis
    using owned_paths_contained [of ?env "''m-1''"] by (simp add: env_ok_def sep_def)
qed

text \<open>
  Every id derived from a model reference, however hostile the reference, is a valid deployment
  id; and a reference whose name is already lower-case, well-formed and not longer than 64 bytes keeps
  its name. The random suffix has the four bytes the code draws.
\<close>

theorem deploymentID_valid:
  assumes "length rnd = 4"
  shows "validateID (deploymentID rnd ref) = Inr () \<and>
    (sep \<notin> set org \<and> list_all san_char name \<and> name \<noteq> [] \<and> alnum (hd name) \<and> alnum (last name) \<and>
       length name \<le> 64 \<and> \<not> str_contains name ''..'' \<longrightarrow> deploymentID rnd (org @ sep # name) = name)"
proof
  show "validateID (deploymentID rnd ref) = Inr ()"
    using random_id_valid [of rnd] assms by (simp add: deploymentID_def Let_def split: prod.split)
  show "sep \<notin> set org \<and> list_all san_char name \<and> name \<noteq> [] \<and> alnum (hd name) \<and> alnum (last name) \<and>
       length name \<le> 64 \<and> \<not> str_contains name ''..'' \<longrightarrow> deploymentID rnd (org @ sep # name) = name"
    (is "?ok \<longrightarrow> _")
  proof
    assume ok: ?ok
    then obtain c cs where name: "name = c # cs" by (cases name) auto
    have cut: "cut_at sep (org @ sep # name) = (org, name, True)"
      using ok by (auto simp: cut_at_def takeWhile_append dropWhile_append)
    have low: "to_lower name = name"
      using ok by (auto simp: to_lower_def list_all_iff san_lower intro: map_idI)
    have tr: "trim (\<lambda>c. c = CHR ''-'' \<or> c = CHR ''.'' \<or> c = CHR ''_'') name = name"
      using ok by (intro trim_id) auto
    have "validateID name = Inr ()"
      using ok name by (auto simp: validateID_iff validIDPattern_def list_all_iff san_id_char)
    with ok cut low tr show "deploymentID rnd (org @ sep # name) = name"
      by (simp add: deploymentID_def sanitize_id)
  qed
qed

theorem deploymentID_valid_witness:
  "validateID (deploymentID [0, 1, 0xAB, 255] ''evil/../../etc'') = Inr () \<and>
   deploymentID [0, 1, 0xAB, 255] ''evil/../..'' = ''deployment-0001abff'' \<and>
   deploymentID [0, 1, 0xAB, 255] ''Qwen/Qwen2.5-7B-Instruct'' = ''qwen2.5-7b-instruct''"
proof (intro conjI)
  show "validateID (deploymentID [0, 1, 0xAB, 255] ''evil/../../etc'') = Inr ()"
    using deploymentID_valid [of "[0, 1, 0xAB, 255]"] by simp
qed code_simp+

end
