(* ===== verification/Processes.thy ===== *)
theory Processes imports Paths begin

text \<open>
  The operating system as the supervisor sees it. Everything can change between two system calls,
  so the system is an arbitrary sequence of snapshots: \<open>view o n\<close> is what the call number
  \<open>n\<close> sees, whatever other processes did, and however the target reacted to the signals sent so
  far. A call advances \<open>tick\<close> by one and the clock by an arbitrary time; a sleep of \<open>d\<close>
  advances the clock by at least \<open>d\<close>. \<open>signals\<close> records each signal delivered.
\<close>

section \<open>64-bit integers\<close>

definition wrap64 :: "int \<Rightarrow> int" where
  "wrap64 x = (x + 2 ^ 63) mod 2 ^ 64 - 2 ^ 63"

text \<open>Go's \<open>/\<close> and \<open>%\<close>, which truncate towards zero.\<close>

definition go_quot :: "int \<Rightarrow> int \<Rightarrow> int" where
  "go_quot a b = sgn a * sgn b * (\<bar>a\<bar> div \<bar>b\<bar>)"

definition go_rem :: "int \<Rightarrow> int \<Rightarrow> int" where
  "go_rem a b = a - b * go_quot a b"

text \<open>\<open>Time.Sub\<close> saturates at the ends of the 64-bit range of a duration.\<close>

definition time_sub :: "gotime \<Rightarrow> gotime \<Rightarrow> duration" where
  "time_sub a b = (let d = a - b in
     if d > 2 ^ 63 - 1 then 2 ^ 63 - 1 else if d < - (2 ^ 63) then - (2 ^ 63) else d)"

lemma wrap64_id: "- (2 ^ 63) \<le> x \<Longrightarrow> x < 2 ^ 63 \<Longrightarrow> wrap64 x = x"
  by (simp add: wrap64_def)

lemma wrap64_mult: "wrap64 (wrap64 x * y) = wrap64 (x * y)"
proof -
  have "(wrap64 x * y + 2 ^ 63) mod 2 ^ 64 = (x * y + 2 ^ 63) mod (2 ^ 64 :: int)"
  proof -
    have "wrap64 x mod 2 ^ 64 = x mod (2 ^ 64 :: int)"
      unfolding wrap64_def by (metis add_diff_cancel_right' mod_diff_left_eq)
    then have "(wrap64 x * y) mod 2 ^ 64 = (x * y) mod (2 ^ 64 :: int)" by (metis mod_mult_left_eq)
    then show ?thesis by (metis mod_add_left_eq)
  qed
  then show ?thesis by (simp add: wrap64_def)
qed

lemma wrap64_add: "wrap64 (wrap64 x + y) = wrap64 (x + y)"
proof -
  have "wrap64 x mod 2 ^ 64 = x mod (2 ^ 64 :: int)"
    unfolding wrap64_def by (metis add_diff_cancel_right' mod_diff_left_eq)
  then have "(wrap64 x + y) mod 2 ^ 64 = (x + y) mod (2 ^ 64 :: int)" by (metis mod_add_left_eq)
  then have "(wrap64 x + y + 2 ^ 63) mod 2 ^ 64 = (x + y + 2 ^ 63) mod (2 ^ 64 :: int)" by (metis mod_add_left_eq)
  then show ?thesis by (simp add: wrap64_def)
qed

lemma go_quot_nonneg: "0 \<le> a \<Longrightarrow> 0 < b \<Longrightarrow> go_quot a b = a div b"
  by (cases "a = 0") (auto simp: go_quot_def sgn_if)

lemma go_rem_nonneg: "0 \<le> a \<Longrightarrow> 0 < b \<Longrightarrow> go_rem a b = a mod b"
  by (simp add: go_rem_def go_quot_nonneg minus_mult_div_eq_mod)

section \<open>Snapshots\<close>

record osproc =
  p_group :: int
  p_foreign :: bool
  p_stat :: "string result"
  p_cmdline :: "string result"
  p_ps :: "string result"

record osview =
  v_procs :: "(int \<times> osproc) list"
  v_boot :: "string result"
  v_listing :: "string result"
  v_clk_tck :: "string result"

datatype signal = SIGTERM | SIGKILL

datatype errno = ESRCH | EPERM

text \<open>A signal delivered: the target given to \<open>kill\<close>, the signal, the call, the time.\<close>

record sent_signal =
  s_target :: int
  s_signal :: signal
  s_tick :: nat
  s_clock :: gotime

record os =
  view :: "nat \<Rightarrow> osview"
  lag :: "nat \<Rightarrow> nat"
  tick :: nat
  clock :: gotime
  clk_once :: bool
  clk_hz :: int
  signals :: "sent_signal list"
  self_pid :: int

definition step_os :: "os \<Rightarrow> os" where
  "step_os o1 = o1\<lparr>tick := tick o1 + 1, clock := clock o1 + int (lag o1 (tick o1))\<rparr>"

definition look :: "(osview \<Rightarrow> 'a) \<Rightarrow> os \<Rightarrow> 'a \<times> os" where
  "look f o1 = (f (view o1 (tick o1)), step_os o1)"

definition sleep :: "duration \<Rightarrow> os \<Rightarrow> os" where
  "sleep d o1 = (step_os o1)\<lparr>clock := clock (step_os o1) + d\<rparr>"

text \<open>
  \<open>kill(target, sig)\<close>: one process for a positive target, the process group for a negative one,
  every process for -1. It fails with EPERM when none of the targets may be signalled. (The caller's
  own group, target 0, is never used by the code.)
\<close>

definition targets :: "osview \<Rightarrow> int \<Rightarrow> osproc list" where
  "targets v t = map snd (filter (\<lambda>(p, x). p = t \<or> t = -1 \<or> t < -1 \<and> p_group x = - t) (v_procs v))"

definition kill_result :: "int \<Rightarrow> osview \<Rightarrow> errno option" where
  "kill_result t v =
     (if targets v t = [] then Some ESRCH
      else if list_all p_foreign (targets v t) then Some EPERM else None)"

definition kill :: "int \<Rightarrow> signal \<Rightarrow> os \<Rightarrow> errno option \<times> os" where
  "kill t sig o1 =
     (let r = kill_result t (view o1 (tick o1))
      in (r, (step_os o1)\<lparr>signals := (if r = None then signals o1 @ [\<lparr>s_target = t, s_signal = sig, s_tick = tick o1, s_clock = clock o1\<rparr>] else signals o1)\<rparr>))"

definition getpgid :: "int \<Rightarrow> osview \<Rightarrow> int result" where
  "getpgid pid v = (case map_of (v_procs v) pid of
     None \<Rightarrow> Inl (Opaque ''no such process'') | Some x \<Rightarrow> Inr (p_group x))"

definition proc_file :: "(osproc \<Rightarrow> string result) \<Rightarrow> int \<Rightarrow> osview \<Rightarrow> string result" where
  "proc_file f pid v = (case map_of (v_procs v) pid of
     None \<Rightarrow> Inl (Opaque ''no such file or directory'') | Some x \<Rightarrow> f x)"

section \<open>Frame lemmas\<close>

text \<open>\<open>later o1 o2\<close>: only calls were made in between; the outside world is the same sequence.\<close>

definition later :: "os \<Rightarrow> os \<Rightarrow> bool" where
  "later o1 o2 = (view o2 = view o1 \<and> lag o2 = lag o1 \<and> self_pid o2 = self_pid o1 \<and>
     tick o1 \<le> tick o2 \<and> clock o1 \<le> clock o2)"

definition quiet :: "os \<Rightarrow> os \<Rightarrow> bool" where
  "quiet o1 o2 = (later o1 o2 \<and> signals o2 = signals o1)"

lemma quiet_refl [simp]: "quiet o1 o1"
  by (simp add: quiet_def later_def)

lemma quiet_trans [trans]: "quiet o1 o2 \<Longrightarrow> quiet o2 o3 \<Longrightarrow> quiet o1 o3"
  by (auto simp: quiet_def later_def)

lemma later_trans [trans]: "later o1 o2 \<Longrightarrow> later o2 o3 \<Longrightarrow> later o1 o3"
  by (auto simp: later_def)

lemma quiet_later: "quiet o1 o2 \<Longrightarrow> later o1 o2"
  by (simp add: quiet_def)

lemma later_refl [simp]: "later o1 o1"
  by (simp add: later_def)

lemma step_os_fields [simp]:
  "view (step_os o1) = view o1" "tick (step_os o1) = tick o1 + 1" "signals (step_os o1) = signals o1"
  "lag (step_os o1) = lag o1" "self_pid (step_os o1) = self_pid o1" "clk_once (step_os o1) = clk_once o1"
  "clk_hz (step_os o1) = clk_hz o1" "clock (step_os o1) = clock o1 + int (lag o1 (tick o1))"
  by (simp_all add: step_os_def)

lemma quiet_look [os_frames]: "quiet o1 (snd (look f o1))"
  by (simp add: look_def quiet_def later_def)

lemma fst_look [simp]: "fst (look f o1) = f (view o1 (tick o1))"
  by (simp add: look_def)

lemma quiet_sleep [os_frames]: "0 \<le> d \<Longrightarrow> quiet o1 (sleep d o1)"
  by (simp add: sleep_def quiet_def later_def)

lemma sleep_clock: "clock o1 + d \<le> clock (sleep d o1)"
  by (simp add: sleep_def)

lemma later_kill: "later o1 (snd (kill t sig o1))"
  by (simp add: kill_def later_def Let_def)

lemma look_eq: "look f o1 = (r, o2) \<Longrightarrow> r = f (view o1 (tick o1)) \<and> quiet o1 o2 \<and> tick o2 = tick o1 + 1"
  using quiet_look [of o1 f] by (auto simp: look_def)

end
