(* ===== verification/Supervisor.thy ===== *)
theory Supervisor imports Processes begin

text \<open>
  The supervisor of runtime processes (internal/supervisor: supervisor.go, identity_linux.go,
  ports.go). Every system call reads a new snapshot (\<open>Processes\<close>), so the proofs hold for
  processes that exit, appear, or are replaced by others at any moment.
\<close>

section \<open>Process identity\<close>

record process =
  pr_pid :: int
  pr_command :: string
  pr_log_path :: string
  pr_started_at :: gotime
  pr_start_token :: string

definition IsZero :: "gotime \<Rightarrow> bool" where
  "IsZero t = (t = zero_time)"

definition Alive :: "int \<Rightarrow> os \<Rightarrow> bool \<times> os" where
  "Alive pid o1 =
     (if pid \<le> 0 then (False, o1)
      else look (\<lambda>v. kill_result pid v = None \<or> kill_result pid v = Some EPERM) o1)"

definition processGroupAlive :: "int \<Rightarrow> os \<Rightarrow> bool \<times> os" where
  "processGroupAlive pgid o1 =
     (if pgid \<le> 0 then (False, o1)
      else look (\<lambda>v. kill_result (- pgid) v = None \<or> kill_result (- pgid) v = Some EPERM) o1)"

text \<open>The text after the last closing parenthesis, if there is one.\<close>

definition after_paren :: "string \<Rightarrow> string option" where
  "after_paren line = (if CHR '')'' \<in> set line
     then Some (rev (takeWhile (\<lambda>c. c \<noteq> CHR '')'') (rev line))) else None)"

fun find_btime :: "string list \<Rightarrow> int result" where
  "find_btime [] = Inl (Opaque ''btime missing from /proc/stat'')"
| "find_btime (line # rest) =
     (let fs = Fields line
      in if length fs = 2 \<and> fs ! 0 = ''btime''
         then (case parse_int64 (fs ! 1) of
                 None \<Rightarrow> Inl (Opaque ''strconv.ParseInt'') | Some v \<Rightarrow> Inr v)
         else find_btime rest)"

definition linuxBootTime :: "os \<Rightarrow> int result \<times> os" where
  "linuxBootTime o1 = (case look v_boot o1 of
     (Inl e, o2) \<Rightarrow> (Inl e, o2)
   | (Inr raw, o2) \<Rightarrow> (find_btime (split_on (CHR ''\<newline>'') raw), o2))"

text \<open>The first call asks \<open>getconf\<close>; later calls return what it left.\<close>

definition linuxClockTicks :: "os \<Rightarrow> int \<times> os" where
  "linuxClockTicks o1 =
     (if clk_once o1 then (clk_hz o1, o1)
      else case look v_clk_tck o1 of (out, o2) \<Rightarrow>
        (let hz = (case out of
                     Inl e \<Rightarrow> clk_hz o2
                   | Inr text \<Rightarrow> (case parse_int64 (trim_space text) of
                       None \<Rightarrow> clk_hz o2 | Some v \<Rightarrow> if v > 0 then v else clk_hz o2))
         in (hz, o2\<lparr>clk_once := True, clk_hz := hz\<rparr>)))"

definition start_ticks :: "int \<Rightarrow> string \<Rightarrow> (string \<times> int) result" where
  "start_ticks pid line =
     (case after_paren line of
        None \<Rightarrow> Inl (Errorf ''malformed /proc/%d/stat'' [ArgD pid])
      | Some rest \<Rightarrow>
        (let fs = Fields rest
         in if length fs \<le> 19 then Inl (Errorf ''short /proc/%d/stat'' [ArgD pid])
            else case parse_int64 (fs ! 19) of
              None \<Rightarrow> Inl (Errorf ''bad process start ticks %q'' [ArgS (fs ! 19)])
            | Some t \<Rightarrow> (if t < 0 then Inl (Errorf ''bad process start ticks %q'' [ArgS (fs ! 19)])
                        else Inr (fs ! 19, t))))"

definition start_time :: "int \<Rightarrow> int \<Rightarrow> int \<Rightarrow> gotime" where
  "start_time boot hz t =
     (let seconds = go_quot t hz;
          nanos = go_quot (wrap64 (go_rem t hz * 10 ^ 9)) hz
      in wrap64 (boot + seconds) * 10 ^ 9 + nanos)"

definition processStartInfo :: "int \<Rightarrow> os \<Rightarrow> (gotime \<times> string) result \<times> os" where
  "processStartInfo pid o1 =
     (case look (proc_file p_stat pid) o1 of
        (Inl e, o2) \<Rightarrow> (Inl e, o2)
      | (Inr line, o2) \<Rightarrow>
        (case start_ticks pid line of
           Inl e \<Rightarrow> (Inl e, o2)
         | Inr (field, t) \<Rightarrow>
           (case linuxBootTime o2 of
              (Inl e, o3) \<Rightarrow> (Inl e, o3)
            | (Inr boot, o3) \<Rightarrow>
              (case linuxClockTicks o3 of (hz, o4) \<Rightarrow>
                 (Inr (start_time boot hz t, ''linux:'' @ field), o4)))))"

definition exited :: "int \<Rightarrow> os \<Rightarrow> bool \<times> os" where
  "exited pid o1 =
     (case look (proc_file p_stat pid) o1 of
        (Inl e, o2) \<Rightarrow> (True, o2)
      | (Inr line, o2) \<Rightarrow>
        (case after_paren line of
           None \<Rightarrow> (False, o2)
         | Some rest \<Rightarrow>
           (let fs = Fields rest
            in (fs \<noteq> [] \<and> (fs ! 0 = ''Z'' \<or> fs ! 0 = ''X'' \<or> fs ! 0 = ''x''), o2))))"

definition sameStartTime :: "gotime \<Rightarrow> gotime \<Rightarrow> bool" where
  "sameStartTime a b =
     (let delta = time_sub a b;
          delta' = (if delta < 0 then wrap64 (- delta) else delta)
      in delta' \<le> 10 ^ 9)"

definition normalize :: "string \<Rightarrow> string" where
  "normalize s = join_with '' '' (Fields s)"

text \<open>\<open>/proc/pid/cmdline\<close> with its NUL bytes, or else the output of \<open>ps\<close>.\<close>

definition nul_to_space :: "string \<Rightarrow> string" where
  "nul_to_space raw = map (\<lambda>c. if c = CHR 0x00 then CHR '' '' else c) (trim_right (\<lambda>c. c = CHR 0x00) raw)"

definition cmdline :: "int \<Rightarrow> os \<Rightarrow> string result \<times> os" where
  "cmdline pid o1 =
     (case look (proc_file p_cmdline pid) o1 of
        (Inr raw, o2) \<Rightarrow> (Inr (nul_to_space raw), o2)
      | (Inl e, o2) \<Rightarrow>
        (case look (proc_file p_ps pid) o2 of
           (Inl e, o3) \<Rightarrow> (Inl (Errorf ''read command line of pid %d: %w'' [ArgD pid, ArgW e]), o3)
         | (Inr out, o3) \<Rightarrow> (Inr (trim_space out), o3)))"

definition verifyOwned :: "process \<Rightarrow> os \<Rightarrow> bool result \<times> os" where
  "verifyOwned p o1 =
     (case Alive (pr_pid p) o1 of (alive, o2) \<Rightarrow>
        if \<not> alive then (Inr False, o2)
        else if pr_start_token p = [] \<or> IsZero (pr_started_at p) \<or> pr_command p = []
          then (Inl (Opaque ''recorded process identity is incomplete''), o2)
        else
          (case processStartInfo (pr_pid p) o2 of
             (Inl e, o3) \<Rightarrow> (Inl e, o3)
           | (Inr (startedAt, token), o3) \<Rightarrow>
             (if token \<noteq> pr_start_token p \<or> \<not> sameStartTime startedAt (pr_started_at p)
              then (Inr False, o3)
              else case cmdline (pr_pid p) o3 of
                     (Inl e, o4) \<Rightarrow> (Inl e, o4)
                   | (Inr current, o4) \<Rightarrow> (Inr (normalize current = normalize (pr_command p)), o4))))"

definition Owned :: "process \<Rightarrow> os \<Rightarrow> bool \<times> os" where
  "Owned p o1 = (case verifyOwned p o1 of (r, o2) \<Rightarrow> (r = Inr True, o2))"

datatype status = StatusRunning | StatusStale | StatusReused | StatusUnknown

definition Reconcile :: "process \<Rightarrow> os \<Rightarrow> status \<times> os" where
  "Reconcile p o1 =
     (case Alive (pr_pid p) o1 of (alive, o2) \<Rightarrow>
        if \<not> alive then (StatusStale, o2)
        else (case verifyOwned p o2 of
                (Inl e, o3) \<Rightarrow> (StatusUnknown, o3)
              | (Inr owned, o3) \<Rightarrow> (if \<not> owned then StatusReused else StatusRunning, o3)))"

section \<open>Discovery\<close>

definition isPythonInterpreter :: "string \<Rightarrow> bool" where
  "isPythonInterpreter command =
     (let base = Base command
      in base = ''python'' \<or> base = ''python3'' \<or> has_prefix base ''python3.'')"

definition matchesCommandIntent :: "string \<Rightarrow> string \<Rightarrow> bool" where
  "matchesCommandIntent current intent =
     (let currentArgv = Fields current; intentArgv = Fields intent
      in if currentArgv = [] \<or> intentArgv = [] then False
         else if currentArgv = intentArgv then True
         else if Base (currentArgv ! 0) = Base (intentArgv ! 0) \<and> drop 1 currentArgv = drop 1 intentArgv
           then True
         else length currentArgv = length intentArgv + 1 \<and> isPythonInterpreter (currentArgv ! 0) \<and>
              Base (currentArgv ! 1) = Base (intentArgv ! 0) \<and> drop 2 currentArgv = drop 1 intentArgv)"

definition trim_prefix :: "string \<Rightarrow> string \<Rightarrow> string" where
  "trim_prefix s p = (if has_prefix s p then drop (length p) s else s)"

text \<open>One line of the process listing: the pid and the rest of the line, if it is well formed.\<close>

definition listing_line :: "string \<Rightarrow> (int \<times> string) option" where
  "listing_line l =
     (let line = trim_space l; fs = Fields line
      in if line = [] \<or> length fs < 2 then None
         else case parse_int64 (fs ! 0) of
                None \<Rightarrow> None
              | Some pid \<Rightarrow> Some (pid, trim_space (trim_prefix line (fs ! 0))))"

fun find_loop :: "string \<Rightarrow> gotime \<Rightarrow> string list \<Rightarrow> os \<Rightarrow> process list \<times> os" where
  "find_loop want notBefore [] o1 = ([], o1)"
| "find_loop want notBefore (l # ls) o1 =
     (case listing_line l of
        None \<Rightarrow> find_loop want notBefore ls o1
      | Some (pid, current) \<Rightarrow>
        (if pid = self_pid o1 \<or> \<not> matchesCommandIntent (normalize current) want
         then find_loop want notBefore ls o1
         else case processStartInfo pid o1 of
                (Inl e, o2) \<Rightarrow> find_loop want notBefore ls o2
              | (Inr (startedAt, token), o2) \<Rightarrow>
                (if startedAt < notBefore - 2 * 10 ^ 9 then find_loop want notBefore ls o2
                 else case find_loop want notBefore ls o2 of (ms, o3) \<Rightarrow>
                   (\<lparr>pr_pid = pid, pr_command = normalize current, pr_log_path = [],
                     pr_started_at = startedAt, pr_start_token = token\<rparr> # ms, o3))))"

definition FindByCommand :: "string \<Rightarrow> gotime \<Rightarrow> os \<Rightarrow> (process list) result \<times> os" where
  "FindByCommand command notBefore o1 =
     (case look v_listing o1 of
        (Inl e, o2) \<Rightarrow> (Inl (Errorf ''list processes: %w'' [ArgW e]), o2)
      | (Inr out, o2) \<Rightarrow>
        (case find_loop (normalize command) notBefore (split_on (CHR ''\<newline>'') out) o2 of
           (ms, o3) \<Rightarrow> (Inr ms, o3)))"

section \<open>Stopping a process\<close>

definition signal_name :: "signal \<Rightarrow> string" where
  "signal_name s = (case s of SIGTERM \<Rightarrow> ''terminated'' | SIGKILL \<Rightarrow> ''killed'')"

definition signalGroup :: "int \<Rightarrow> signal \<Rightarrow> os \<Rightarrow> unit result \<times> os" where
  "signalGroup pgid sig o1 =
     (case kill (- pgid) sig o1 of
        (None, o2) \<Rightarrow> (Inr (), o2)
      | (Some ESRCH, o2) \<Rightarrow> (Inr (), o2)
      | (Some EPERM, o2) \<Rightarrow> (Inl (Errorf ''signal process group %d with %s: %w''
            [ArgD pgid, ArgS (signal_name sig), ArgW (Opaque ''operation not permitted'')]), o2))"

definition ownedDetail :: "int \<Rightarrow> os \<Rightarrow> string \<times> os" where
  "ownedDetail pid o1 = (case cmdline pid o1 of
     (Inl e, o2) \<Rightarrow> (''unreadable'', o2) | (Inr current, o2) \<Rightarrow> (current, o2))"

lemma quiet_groupAlive [os_frames]: "quiet o1 (snd (processGroupAlive g o1))"
  by (simp add: processGroupAlive_def quiet_look)

text \<open>The polling loop under the grace period; \<open>True\<close> when the group is found empty.\<close>

function wait_grace :: "int \<Rightarrow> gotime \<Rightarrow> os \<Rightarrow> bool \<times> os" where
  "wait_grace pgid deadline o1 =
     (if clock o1 < deadline
      then case processGroupAlive pgid o1 of
             (False, o2) \<Rightarrow> (True, o2)
           | (True, o2) \<Rightarrow> wait_grace pgid deadline (sleep (50 * 10 ^ 6) o2)
      else (False, o1))"
  by pat_completeness auto
termination
proof (relation "measure (\<lambda>(g, d, o1). nat (d - clock o1))", goal_cases)
  case (2 g d o1 x o2)
  then have "o2 = snd (processGroupAlive g o1)" by (metis snd_conv)
  then have "clock o1 \<le> clock o2"
    using quiet_groupAlive [of o1 g] by (simp add: quiet_def later_def)
  then show ?case using 2 sleep_clock [of o2 "50 * 10 ^ 6"] by simp
qed simp

declare wait_grace.simps [simp del]

fun wait_tries :: "nat \<Rightarrow> int \<Rightarrow> os \<Rightarrow> bool \<times> os" where
  "wait_tries 0 pgid o1 = (False, o1)"
| "wait_tries (Suc n) pgid o1 =
     (case processGroupAlive pgid o1 of
        (False, o2) \<Rightarrow> (True, o2)
      | (True, o2) \<Rightarrow> wait_tries n pgid (sleep (50 * 10 ^ 6) o2))"

definition stop_group :: "process \<Rightarrow> duration \<Rightarrow> os \<Rightarrow> unit result \<times> os" where
  "stop_group p grace o1 =
     (case signalGroup (pr_pid p) SIGTERM o1 of
        (Inl e, o2) \<Rightarrow> (Inl e, o2)
      | (Inr u, o2) \<Rightarrow>
        (case wait_grace (pr_pid p) (clock o2 + grace) o2 of
           (True, o3) \<Rightarrow> (Inr (), o3)
         | (False, o3) \<Rightarrow>
           (case signalGroup (pr_pid p) SIGKILL o3 of
              (Inl e, o4) \<Rightarrow> (Inl e, o4)
            | (Inr u, o4) \<Rightarrow>
              (case wait_tries 100 (pr_pid p) o4 of
                 (True, o5) \<Rightarrow> (Inr (), o5)
               | (False, o5) \<Rightarrow>
                 (Inl (Errorf ''process group %d did not empty after SIGKILL'' [ArgD (pr_pid p)]), o5)))))"

definition Stop :: "process \<Rightarrow> duration \<Rightarrow> os \<Rightarrow> unit result \<times> os" where
  "Stop p grace o1 =
     (case Alive (pr_pid p) o1 of
        (False, o2) \<Rightarrow>
          (case processGroupAlive (pr_pid p) o2 of
             (True, o3) \<Rightarrow>
               (Inl (Errorf ''%w: process-group %d remains but its verified leader is gone''
                  [ArgW (Sentinel ErrNotOwned), ArgD (pr_pid p)]), o3)
           | (False, o3) \<Rightarrow> (Inr (), o3))
      | (True, o2) \<Rightarrow>
          (case verifyOwned p o2 of
             (Inl e, o3) \<Rightarrow> (Inl (Errorf ''%w: cannot verify pid %d: %v''
                 [ArgW (Sentinel ErrNotOwned), ArgD (pr_pid p), ArgV e]), o3)
           | (Inr False, o3) \<Rightarrow>
               (case ownedDetail (pr_pid p) o3 of (detail, o4) \<Rightarrow>
                  (Inl (Errorf ''%w: pid %d is now %q''
                     [ArgW (Sentinel ErrNotOwned), ArgD (pr_pid p), ArgS detail]), o4))
           | (Inr True, o3) \<Rightarrow>
               (case look (getpgid (pr_pid p)) o3 of
                  (Inl e, o4) \<Rightarrow> (Inl (Errorf ''%w: pid %d has process group %d''
                     [ArgW (Sentinel ErrNotOwned), ArgD (pr_pid p), ArgD (- 1)]), o4)
                | (Inr pgid, o4) \<Rightarrow>
                  (if pgid \<noteq> pr_pid p
                   then (Inl (Errorf ''%w: pid %d has process group %d''
                      [ArgW (Sentinel ErrNotOwned), ArgD (pr_pid p), ArgD pgid]), o4)
                   else stop_group p grace o4))))"

section \<open>Starting a process\<close>

record spec =
  sp_command :: string
  sp_args :: "string list"
  sp_env :: "string list"
  sp_log_path :: string

text \<open>What the calls that create the log directory, the log proxy and the process answer.\<close>

record launch =
  l_mkdir :: "goerr option"
  l_chmod :: "goerr option"
  l_pipe :: "goerr option"
  l_executable :: "goerr option"
  l_helper :: "goerr option"
  l_start :: "int result"

definition startLogProxy :: "launch \<Rightarrow> unit result" where
  "startLogProxy l =
     (case l_pipe l of Some e \<Rightarrow> Inl (wrapf ''create log pipe: %w'' e)
      | None \<Rightarrow> (case l_executable l of Some e \<Rightarrow> Inl (wrapf ''resolve log proxy executable: %w'' e)
      | None \<Rightarrow> (case l_helper l of Some e \<Rightarrow> Inl (wrapf ''start log proxy: %w'' e)
      | None \<Rightarrow> Inr ())))"

definition commandString :: "string \<Rightarrow> string list \<Rightarrow> string" where
  "commandString command args = join_with '' '' (command # args)"

definition join_errs :: "goerr option list \<Rightarrow> goerr option" where
  "join_errs es = (let xs = concat (map (\<lambda>e. case e of None \<Rightarrow> [] | Some x \<Rightarrow> [x]) es)
     in if xs = [] then None else Some (Joined xs))"

definition err_part :: "'a result \<Rightarrow> goerr option" where
  "err_part r = (case r of Inl e \<Rightarrow> Some e | Inr x \<Rightarrow> None)"

text \<open>The loop that records the identity: at most the given number of tries.\<close>

fun capture :: "nat \<Rightarrow> process \<Rightarrow> goerr option \<Rightarrow> os \<Rightarrow> process \<times> goerr option \<times> os" where
  "capture 0 p err o1 = (p, err, o1)"
| "capture (Suc n) p err o1 =
     (case cmdline (pr_pid p) o1 of (current, o2) \<Rightarrow>
      case processStartInfo (pr_pid p) o2 of (start, o3) \<Rightarrow>
      let normalized = normalize (case current of Inl e \<Rightarrow> [] | Inr c \<Rightarrow> c);
          errs = join_errs [err_part current, err_part start]
      in case start of
           Inl e \<Rightarrow> capture n p errs (sleep (5 * 10 ^ 6) o3)
         | Inr (startedAt, token) \<Rightarrow>
           (if err_part current = None \<and> normalized \<noteq> []
            then (p\<lparr>pr_command := normalized, pr_started_at := startedAt, pr_start_token := token\<rparr>, None, o3)
            else case exited (pr_pid p) o3 of
                   (True, o4) \<Rightarrow> (p\<lparr>pr_started_at := startedAt, pr_start_token := token\<rparr>, None, o4)
                 | (False, o4) \<Rightarrow> capture n p errs (sleep (5 * 10 ^ 6) o4)))"

definition Start :: "launch \<Rightarrow> spec \<Rightarrow> os \<Rightarrow> process result \<times> os" where
  "Start l sp o1 =
     (case l_mkdir l of Some e \<Rightarrow> (Inl (wrapf ''create log dir: %w'' e), o1)
      | None \<Rightarrow> (case l_chmod l of Some e \<Rightarrow> (Inl (wrapf ''secure log dir: %w'' e), o1)
      | None \<Rightarrow> (case startLogProxy l of Inl e \<Rightarrow> (Inl e, o1)
      | Inr u \<Rightarrow> (case l_start l of
          Inl e \<Rightarrow> (Inl (Errorf ''%w: %v'' [ArgW (Sentinel ErrStartFail), ArgV e]), o1)
      | Inr pid \<Rightarrow>
        (case capture 20 \<lparr>pr_pid = pid, pr_command = commandString (sp_command sp) (sp_args sp),
                pr_log_path = sp_log_path sp, pr_started_at = zero_time, pr_start_token = []\<rparr> None o1 of
           (p, err, o2) \<Rightarrow>
             (if pr_start_token p = [] \<or> IsZero (pr_started_at p)
              then (let (r1, o3) = kill (- pid) SIGKILL o2; (r2, o4) = kill pid SIGKILL o3
                    in (Inl (Errorf ''%w: capture process identity: %v''
                          [ArgW (Sentinel ErrStartFail),
                           (case err of None \<Rightarrow> ArgS ''<nil>'' | Some e \<Rightarrow> ArgV e)]), o4))
              else (Inr p, o2)))))))"

section \<open>Ports\<close>

definition portScanWindow :: int where
  "portScanWindow = 100"

text \<open>The ports that can be bound when the scan looks, as a function of the port.\<close>

function scan_ports :: "(int \<Rightarrow> bool) \<Rightarrow> int list \<Rightarrow> int \<Rightarrow> int \<Rightarrow> int option" where
  "scan_ports free reserved port stop =
     (if port < stop
      then if port \<in> set reserved then scan_ports free reserved (port + 1) stop
           else if free port then Some port
           else scan_ports free reserved (port + 1) stop
      else None)"
  by pat_completeness auto
termination by (relation "measure (\<lambda>(f, r, p, s). nat (s - p))") auto

declare scan_ports.simps [simp del]

definition AllocatePort :: "(int \<Rightarrow> bool) \<Rightarrow> int \<Rightarrow> int list \<Rightarrow> int result" where
  "AllocatePort free preferred reserved =
     (case scan_ports free reserved preferred (preferred + portScanWindow) of
        Some port \<Rightarrow> Inr port
      | None \<Rightarrow> Inl (Errorf ''%w: %d-%d''
          [ArgW (Sentinel ErrNoFreePort), ArgD preferred, ArgD (preferred + portScanWindow - 1)]))"

section \<open>What the calls leave unchanged\<close>

lemma quiet_Alive [os_frames]: "quiet o1 (snd (Alive pid o1))"
  by (simp add: Alive_def quiet_look)

lemma quiet_boot [os_frames]: "quiet o1 (snd (linuxBootTime o1))"
  using quiet_look [of o1 v_boot] by (auto simp: linuxBootTime_def split: prod.split sum.split)

lemma quiet_ticks [os_frames]: "quiet o1 (snd (linuxClockTicks o1))"
  using quiet_look [of o1 v_clk_tck]
  by (auto simp: linuxClockTicks_def Let_def quiet_def later_def split: prod.split)

lemma quiet_info [os_frames]: "quiet o1 (snd (processStartInfo pid o1))"
proof -
  obtain r o2 where 1: "look (proc_file p_stat pid) o1 = (r, o2)" by fastforce
  obtain b o3 where 2: "linuxBootTime o2 = (b, o3)" by fastforce
  obtain h o4 where 3: "linuxClockTicks o3 = (h, o4)" by fastforce
  have "quiet o1 o2" "quiet o2 o3" "quiet o3 o4"
    using quiet_look [of o1 "proc_file p_stat pid"] quiet_boot [of o2] quiet_ticks [of o3] 1 2 3 by simp_all
  then show ?thesis
    by (auto simp: processStartInfo_def 1 2 3 split: sum.split intro: quiet_trans)
qed

lemma quiet_exited [os_frames]: "quiet o1 (snd (exited pid o1))"
  using quiet_look [of o1 "proc_file p_stat pid"]
  by (auto simp: exited_def Let_def split: prod.split sum.split option.split)

lemma quiet_cmdline [os_frames]: "quiet o1 (snd (cmdline pid o1))"
proof -
  obtain r o2 where 1: "look (proc_file p_cmdline pid) o1 = (r, o2)" by fastforce
  obtain q o3 where 2: "look (proc_file p_ps pid) o2 = (q, o3)" by fastforce
  have "quiet o1 o2" "quiet o2 o3"
    using quiet_look [of o1 "proc_file p_cmdline pid"] quiet_look [of o2 "proc_file p_ps pid"] 1 2 by simp_all
  then show ?thesis
    by (auto simp: cmdline_def 1 2 split: sum.split intro: quiet_trans)
qed

lemma quiet_detail [os_frames]: "quiet o1 (snd (ownedDetail pid o1))"
  using quiet_cmdline [of o1 pid] by (auto simp: ownedDetail_def split: prod.split sum.split)

lemma quiet_ext: "quiet o1 (snd x) \<Longrightarrow> x = (r, o2) \<Longrightarrow> quiet o1 o2"
  by simp

lemmas quietD = quiet_ext [OF quiet_Alive] quiet_ext [OF quiet_groupAlive] quiet_ext [OF quiet_info]
  quiet_ext [OF quiet_cmdline] quiet_ext [OF quiet_look] quiet_ext [OF quiet_detail] quiet_ext [OF quiet_exited]

section \<open>What was observed\<close>

text \<open>
  What a snapshot shows of a process: its start token, as the code reads it from the stat file, and
  its command line up to white space, from either source.
\<close>

definition shows_token :: "osview \<Rightarrow> int \<Rightarrow> string \<Rightarrow> bool" where
  "shows_token v pid token = (case proc_file p_stat pid v of Inl e \<Rightarrow> False
     | Inr line \<Rightarrow> (case start_ticks pid line of Inl e \<Rightarrow> False | Inr (f, t) \<Rightarrow> token = ''linux:'' @ f))"

definition shows_command :: "osview \<Rightarrow> int \<Rightarrow> string \<Rightarrow> bool" where
  "shows_command v pid c =
     ((case proc_file p_cmdline pid v of Inl e \<Rightarrow> False | Inr raw \<Rightarrow> normalize (nul_to_space raw) = normalize c) \<or>
      (case proc_file p_ps pid v of Inl e \<Rightarrow> False | Inr out \<Rightarrow> normalize (trim_space out) = normalize c))"

text \<open>Within the calls of a window, the identity of \<open>p\<close> was seen: first its token, then its command.\<close>

definition identity_seen :: "process \<Rightarrow> os \<Rightarrow> nat \<Rightarrow> bool" where
  "identity_seen p o1 n = (\<exists>t1 t2. tick o1 \<le> t1 \<and> t1 < t2 \<and> t2 < n \<and>
     shows_token (view o1 t1) (pr_pid p) (pr_start_token p) \<and>
     shows_command (view o1 t2) (pr_pid p) (pr_command p))"

lemma info_token:
  assumes "processStartInfo pid o1 = (Inr (st, token), o2)"
  shows "shows_token (view o1 (tick o1)) pid token \<and> tick o1 < tick o2"
proof -
  obtain r o3 where 1: "look (proc_file p_stat pid) o1 = (r, o3)" by fastforce
  from look_eq [OF this] have r: "r = proc_file p_stat pid (view o1 (tick o1))" "tick o3 = tick o1 + 1" by auto
  obtain b o4 where 2: "linuxBootTime o3 = (b, o4)" by fastforce
  obtain h o5 where 3: "linuxClockTicks o4 = (h, o5)" by fastforce
  have "quiet o3 o4" "quiet o4 o5" using quiet_boot [of o3] quiet_ticks [of o4] 2 3 by simp_all
  then have "tick o1 < tick o5" "tick o1 < tick o4" using r by (auto simp: quiet_def later_def)
  with assms 1 2 3 r show ?thesis
    by (auto simp: processStartInfo_def shows_token_def split: sum.splits)
qed

lemma normalize_idem [simp]: "normalize (normalize s) = normalize s"
  by (simp add: normalize_def fields_join_fields)

lemma cmdline_command:
  assumes "cmdline pid o1 = (Inr c, o2)"
  shows "\<exists>t. tick o1 \<le> t \<and> t < tick o2 \<and> shows_command (view o1 t) pid c"
proof -
  obtain r o3 where 1: "look (proc_file p_cmdline pid) o1 = (r, o3)" by fastforce
  note l1 = look_eq [OF 1]
  obtain q o4 where 2: "look (proc_file p_ps pid) o3 = (q, o4)" by fastforce
  note l2 = look_eq [OF 2]
  show ?thesis
  proof (cases r)
    case (Inr raw)
    then have "o2 = o3" "c = nul_to_space raw" using assms 1 by (simp_all add: cmdline_def)
    moreover have "proc_file p_cmdline pid (view o1 (tick o1)) = Inr raw" using l1 Inr by simp
    ultimately show ?thesis
      using l1 by (intro exI [of _ "tick o1"]) (simp add: shows_command_def)
  next
    case (Inl e)
    with assms 1 2 obtain out where out: "q = Inr out" "o2 = o4" "c = trim_space out"
      by (auto simp: cmdline_def split: sum.splits)
    then have "proc_file p_ps pid (view o3 (tick o3)) = Inr out" "view o3 = view o1" "tick o3 = tick o1 + 1"
      using l1 l2 by (simp_all add: quiet_def later_def)
    then show ?thesis
      using l2 out by (intro exI [of _ "tick o3"]) (simp add: shows_command_def)
  qed
qed

lemma shows_command_norm: "normalize c = normalize d \<Longrightarrow> shows_command v pid c = shows_command v pid d"
  by (auto simp: shows_command_def split: sum.split)

lemma verifyOwned_quiet: "verifyOwned p o1 = (r, o2) \<Longrightarrow> quiet o1 o2"
  unfolding verifyOwned_def
  by (auto split: prod.splits sum.splits if_splits dest!: quietD intro: quiet_trans)

lemma identity_seen_later:
  assumes "later o1 o2" "identity_seen p o2 n"
  shows "identity_seen p o1 n"
proof -
  have "view o2 = view o1" "tick o1 \<le> tick o2" using assms(1) by (simp_all add: later_def)
  with assms(2) show ?thesis unfolding identity_seen_def by (metis le_trans)
qed

lemma verifyOwned_true:
  assumes "verifyOwned p o1 = (Inr True, o2)"
  shows "identity_seen p o1 (tick o2) \<and> pr_start_token p \<noteq> [] \<and> pr_command p \<noteq> []"
proof -
  obtain a oa where A: "Alive (pr_pid p) o1 = (a, oa)" by fastforce
  with assms have a: "a" "pr_start_token p \<noteq> []" "pr_command p \<noteq> []"
    by (auto simp: verifyOwned_def split: if_splits)
  obtain i ob where I: "processStartInfo (pr_pid p) oa = (i, ob)" by fastforce
  obtain c oc where C: "cmdline (pr_pid p) ob = (c, oc)" by fastforce
  from assms A I C a obtain st cur where r: "i = Inr (st, pr_start_token p)" "c = Inr cur" "oc = o2"
      "normalize cur = normalize (pr_command p)"
    by (auto simp: verifyOwned_def split: sum.splits if_splits)
  have q: "quiet o1 oa" "quiet oa ob" using A I by (auto dest: quietD)
  from info_token [OF I [unfolded r]] have t1: "shows_token (view oa (tick oa)) (pr_pid p) (pr_start_token p)"
    "tick oa < tick ob" by auto
  from cmdline_command [OF C [unfolded r(2)]] obtain t2 where t2: "tick ob \<le> t2" "t2 < tick oc"
    "shows_command (view ob t2) (pr_pid p) cur" by blast
  have "view oa = view o1" "view ob = view o1" "tick o1 \<le> tick oa" using q by (auto simp: quiet_def later_def)
  then have "tick o1 \<le> tick oa \<and> tick oa < t2 \<and> t2 < tick o2 \<and>
      shows_token (view o1 (tick oa)) (pr_pid p) (pr_start_token p) \<and>
      shows_command (view o1 t2) (pr_pid p) (pr_command p)"
    using t1 t2 r shows_command_norm [OF r(4)] by simp
  with a show ?thesis unfolding identity_seen_def by blast
qed

section \<open>Signals sent by Stop\<close>

text \<open>The last call of a window saw the process group empty.\<close>

definition seen_empty :: "os \<Rightarrow> os \<Rightarrow> int \<Rightarrow> bool" where
  "seen_empty o1 o2 g = (tick o1 < tick o2 \<and> targets (view o1 (tick o2 - 1)) (- g) = [])"

text \<open>
  The signals of one Stop: to the group only, at most one SIGTERM and after it at most one SIGKILL, the
  latter not before the grace period is over.
\<close>

definition orderly :: "int \<Rightarrow> duration \<Rightarrow> os \<Rightarrow> sent_signal list \<Rightarrow> bool" where
  "orderly g grace o1 new =
     (map s_signal new \<in> {[], [SIGTERM], [SIGKILL], [SIGTERM, SIGKILL]} \<and>
      (\<forall>s\<in>set new. s_target s = - g \<and> tick o1 \<le> s_tick s) \<and>
      (\<forall>k\<in>set new. s_signal k = SIGKILL \<longrightarrow> clock o1 + grace \<le> s_clock k \<and>
         (\<forall>t\<in>set new. s_signal t = SIGTERM \<longrightarrow> s_clock t + grace \<le> s_clock k)))"

lemma seen_empty_later: "later o1 o2 \<Longrightarrow> seen_empty o2 o3 g \<Longrightarrow> seen_empty o1 o3 g"
  by (auto simp: seen_empty_def later_def)

lemma group_empty:
  assumes "processGroupAlive g o1 = (False, o2)" "0 < g"
  shows "seen_empty o1 o2 g"
proof -
  from assms have l: "look (\<lambda>v. kill_result (- g) v = None \<or> kill_result (- g) v = Some EPERM) o1 = (False, o2)"
    by (simp add: processGroupAlive_def)
  from look_eq [OF this] have "\<not> (kill_result (- g) (view o1 (tick o1)) = None \<or>
      kill_result (- g) (view o1 (tick o1)) = Some EPERM)" "tick o2 = tick o1 + 1" by auto
  then show ?thesis by (auto simp: seen_empty_def kill_result_def split: if_splits)
qed

lemma wait_grace_result:
  "wait_grace g d o1 = (b, o2) \<Longrightarrow> quiet o1 o2 \<and> (b \<longrightarrow> 0 < g \<longrightarrow> seen_empty o1 o2 g) \<and> (\<not> b \<longrightarrow> d \<le> clock o2)"
proof (induction g d o1 rule: wait_grace.induct)
  case (1 g d o1)
  show ?case
  proof (cases "clock o1 < d")
    case False
    with 1 show ?thesis by (subst (asm) wait_grace.simps) simp
  next
    case True
    obtain a o3 where a: "processGroupAlive g o1 = (a, o3)" by fastforce
    then have q: "quiet o1 o3" by (rule quietD)
    show ?thesis
    proof (cases a)
      case False
      then have "b = True" "o2 = o3" using 1 True a by (subst (asm) wait_grace.simps, simp)+
      then show ?thesis using q a False by (auto intro: group_empty)
    next
      case alive: True
      have "wait_grace g d (sleep (50 * 10 ^ 6) o3) = (b, o2)"
        using "1.prems" True a alive by (subst (asm) wait_grace.simps) simp
      have "a = True" using alive by simp
      from "1.IH" [OF True a [symmetric] this \<open>wait_grace g d (sleep (50 * 10 ^ 6) o3) = (b, o2)\<close>] have ih:
        "quiet (sleep (50 * 10 ^ 6) o3) o2" "b \<longrightarrow> 0 < g \<longrightarrow> seen_empty (sleep (50 * 10 ^ 6) o3) o2 g"
        "\<not> b \<longrightarrow> d \<le> clock o2" by auto
      have s: "quiet o1 (sleep (50 * 10 ^ 6) o3)" using q quiet_sleep [of "50 * 10 ^ 6" o3] by (auto intro: quiet_trans)
      with ih show ?thesis by (auto intro: quiet_trans seen_empty_later quiet_later)
    qed
  qed
qed

lemma wait_tries_result:
  "wait_tries n g o1 = (b, o2) \<Longrightarrow> quiet o1 o2 \<and> (b \<longrightarrow> 0 < g \<longrightarrow> seen_empty o1 o2 g)"
proof (induction n arbitrary: o1)
  case (Suc n)
  obtain a o3 where a: "processGroupAlive g o1 = (a, o3)" by fastforce
  then have q: "quiet o1 o3" by (rule quietD)
  show ?case
  proof (cases a)
    case False
    with Suc.prems a q show ?thesis by (auto intro: group_empty)
  next
    case True
    with Suc.prems a have "wait_tries n g (sleep (50 * 10 ^ 6) o3) = (b, o2)" by simp
    from Suc.IH [OF this] q quiet_sleep [of "50 * 10 ^ 6" o3] show ?thesis
      by (auto intro: quiet_trans seen_empty_later quiet_later)
  qed
qed simp

lemma signalGroup_effect:
  assumes "signalGroup g sig o1 = (r, o2)"
  shows "later o1 o2 \<and> (\<exists>new. signals o2 = signals o1 @ new \<and>
    (new = [] \<or> new = [\<lparr>s_target = - g, s_signal = sig, s_tick = tick o1, s_clock = clock o1\<rparr>]))"
  using assms later_kill [of o1 "- g" sig]
  by (auto simp: signalGroup_def kill_def Let_def split: prod.splits option.splits errno.splits if_splits)

lemma signalGroup_error: "signalGroup g sig o1 = (Inl e, o2) \<Longrightarrow> \<not> errors_is ErrNotOwned e"
  by (auto simp: signalGroup_def split: prod.splits option.splits errno.splits)

lemma stop_group_effect:
  assumes "stop_group p grace o1 = (r, o2)" "0 < pr_pid p"
  shows "later o1 o2 \<and> (\<exists>new. signals o2 = signals o1 @ new \<and> orderly (pr_pid p) grace o1 new) \<and>
    (r = Inr () \<longrightarrow> seen_empty o1 o2 (pr_pid p)) \<and> (\<forall>e. r = Inl e \<longrightarrow> \<not> errors_is ErrNotOwned e)"
proof -
  let ?g = "pr_pid p"
  let ?first = "\<lparr>s_target = - ?g, s_signal = SIGTERM, s_tick = tick o1, s_clock = clock o1\<rparr>"
  obtain t oa where T: "signalGroup ?g SIGTERM o1 = (t, oa)" by fastforce
  from signalGroup_effect [OF T] obtain n1 where n1: "later o1 oa" "signals oa = signals o1 @ n1"
    "n1 = [] \<or> n1 = [?first]" by blast
  have o1: "orderly ?g grace o1 n1" using n1(3) by (auto simp: orderly_def)
  show ?thesis
  proof (cases t)
    case (Inl e)
    with T assms n1 o1 signalGroup_error [OF T [unfolded Inl]] show ?thesis by (auto simp: stop_group_def)
  next
    case ok: (Inr u)
    obtain w ob where W: "wait_grace ?g (clock oa + grace) oa = (w, ob)" by fastforce
    from wait_grace_result [OF W] assms(2) have w: "quiet oa ob" "w \<longrightarrow> seen_empty oa ob ?g"
      "\<not> w \<longrightarrow> clock oa + grace \<le> clock ob" by auto
    have lb: "later o1 ob" using n1(1) w(1) by (auto intro: later_trans quiet_later)
    have sb: "signals ob = signals o1 @ n1" using w(1) n1(2) by (simp add: quiet_def)
    show ?thesis
    proof (cases w)
      case True
      with T ok W assms have "r = Inr ()" "o2 = ob" by (auto simp: stop_group_def)
      with lb sb o1 w True seen_empty_later [OF n1(1)] show ?thesis by auto
    next
      case False
      let ?kill = "\<lparr>s_target = - ?g, s_signal = SIGKILL, s_tick = tick ob, s_clock = clock ob\<rparr>"
      obtain k oc where K: "signalGroup ?g SIGKILL ob = (k, oc)" by fastforce
      from signalGroup_effect [OF K] obtain n2 where n2: "later ob oc" "signals oc = signals ob @ n2"
        "n2 = [] \<or> n2 = [?kill]" by blast
      have c: "clock o1 + grace \<le> clock ob" "tick o1 \<le> tick ob"
        using False w n1(1) lb by (auto simp: later_def)
      have o2': "orderly ?g grace o1 (n1 @ n2)" using n1(3) n2(3) c by (auto simp: orderly_def)
      have lc: "later o1 oc" using lb n2(1) by (rule later_trans)
      show ?thesis
      proof (cases k)
        case (Inl e)
        then have "r = Inl e" "o2 = oc" using T ok W False K assms(1) by (simp_all add: stop_group_def)
        with lc n2 sb o2' signalGroup_error [OF K [unfolded Inl]] show ?thesis by auto
      next
        case (Inr v)
        obtain x od where X: "wait_tries 100 ?g oc = (x, od)" by fastforce
        from wait_tries_result [OF X] assms(2) have x: "quiet oc od" "x \<longrightarrow> seen_empty oc od ?g" by auto
        have "o2 = od" "r = (if x then Inr () else Inl (Errorf ''process group %d did not empty after SIGKILL'' [ArgD ?g]))"
          using T ok W False K Inr X assms(1) by (cases x; simp add: stop_group_def)+
        with lc x n2 sb o2' show ?thesis
          by (auto simp: quiet_def intro: later_trans seen_empty_later quiet_later)
      qed
    qed
  qed
qed

lemma orderly_later: "later o1 o2 \<Longrightarrow> orderly g grace o2 new \<Longrightarrow> orderly g grace o1 new"
  unfolding orderly_def later_def by (meson add_mono le_trans order_refl order_trans)

lemma Stop_effect:
  assumes "Stop p grace o1 = (r, o2)" "0 < pr_pid p"
  obtains (kept) "quiet o1 o2" "r = Inr () \<Longrightarrow> seen_empty o1 o2 (pr_pid p)"
      "\<And>e. r = Inl e \<Longrightarrow> errors_is ErrNotOwned e"
  | (signalled) new oa where "later o1 o2" "signals o2 = signals o1 @ new" "orderly (pr_pid p) grace o1 new"
      "quiet o1 oa" "identity_seen p o1 (tick oa)" "getpgid (pr_pid p) (view o1 (tick oa)) = Inr (pr_pid p)"
      "\<forall>s\<in>set new. tick oa < s_tick s" "r = Inr () \<Longrightarrow> seen_empty o1 o2 (pr_pid p)"
      "\<And>e. r = Inl e \<Longrightarrow> \<not> errors_is ErrNotOwned e"
proof -
  let ?g = "pr_pid p"
  obtain a oa where A: "Alive ?g o1 = (a, oa)" by fastforce
  then have qa: "quiet o1 oa" by (rule quietD)
  show thesis
  proof (cases a)
    case False
    obtain ga ob where G: "processGroupAlive ?g oa = (ga, ob)" by fastforce
    then have "quiet oa ob" by (rule quietD)
    then have q: "quiet o1 ob" using qa by (rule quiet_trans [rotated])
    show thesis
    proof (cases ga)
      case True
      then have "o2 = ob" "errors_is ErrNotOwned e" if "r = Inl e" for e
        using assms(1) A False G that by (auto simp: Stop_def)
      moreover have "o2 = ob" "r \<noteq> Inr ()" using assms(1) A False G True by (auto simp: Stop_def)
      ultimately show thesis using q kept by auto
    next
      case empty: False
      then have "o2 = ob" "r = Inr ()" using assms(1) A False G by (auto simp: Stop_def)
      moreover have "processGroupAlive ?g oa = (False, ob)" using G empty by simp
      then have "seen_empty o1 ob ?g"
        using group_empty assms(2) qa by (blast intro: seen_empty_later quiet_later)
      ultimately show thesis using q kept by auto
    qed
  next
    case alive: True
    obtain v ob where V: "verifyOwned p oa = (v, ob)" by fastforce
    then have qb: "quiet o1 ob" using qa verifyOwned_quiet by (blast intro: quiet_trans)
    obtain d od where D: "ownedDetail ?g ob = (d, od)" by fastforce
    then have qd: "quiet o1 od" using qb by (blast intro: quiet_trans quietD)
    show thesis
    proof (cases "v = Inr True")
      case False
      then have "quiet o1 o2 \<and> (\<exists>e. r = Inl e \<and> errors_is ErrNotOwned e)"
        using assms(1) A alive V D qb qd by (auto simp: Stop_def split: sum.splits bool.splits)
      then show thesis using kept by auto
    next
      case True
      obtain x oc where P: "look (getpgid ?g) ob = (x, oc)" by fastforce
      note lp = look_eq [OF P]
      then have qc: "quiet o1 oc" using qb by (blast intro: quiet_trans)
      show thesis
      proof (cases "x = Inr ?g")
        case False
        then have "quiet o1 o2 \<and> (\<exists>e. r = Inl e \<and> errors_is ErrNotOwned e)"
          using assms(1) A alive V True P qc by (auto simp: Stop_def split: sum.splits if_splits)
        then show thesis using kept by auto
      next
        case own: True
        have S: "stop_group p grace oc = (r, o2)"
          using assms(1) A alive V True P own by (simp add: Stop_def)
        from stop_group_effect [OF this assms(2)] obtain new where new: "later oc o2"
          "signals o2 = signals oc @ new" "orderly ?g grace oc new" "r = Inr () \<Longrightarrow> seen_empty oc o2 ?g"
          "\<And>e. r = Inl e \<Longrightarrow> \<not> errors_is ErrNotOwned e" by auto
        have vw: "view ob = view o1" "view oc = view o1" "tick o1 \<le> tick oa" "tick o1 \<le> tick oc" "clock o1 \<le> clock oc"
          "signals oc = signals o1" "view oa = view o1"
          using qa qb qc by (auto simp: quiet_def later_def)
        have "identity_seen p oa (tick ob)" using verifyOwned_true V True by blast
        then have "identity_seen p o1 (tick ob)" using qa by (auto intro: identity_seen_later quiet_later)
        moreover have "getpgid ?g (view o1 (tick ob)) = Inr ?g" using lp own vw by simp
        moreover have "orderly ?g grace o1 new" using new(3) qc by (auto intro: orderly_later quiet_later)
        moreover have "\<forall>s\<in>set new. tick ob < s_tick s" using new(3) lp by (fastforce simp: orderly_def)
        moreover have "later o1 o2" using qc new(1) by (blast intro: later_trans quiet_later)
        moreover have "r = Inr () \<Longrightarrow> seen_empty o1 o2 ?g" using new(4) qc by (blast intro: seen_empty_later quiet_later)
        ultimately show thesis using signalled [of new ob] new(2,5) vw qb by simp
      qed
    qed
  qed
qed

section \<open>A steady system\<close>

text \<open>While the snapshot does not change, verification is a function of it.\<close>

definition steady :: "osview \<Rightarrow> os \<Rightarrow> bool" where
  "steady v o1 = (\<forall>t \<ge> tick o1. view o1 t = v)"

lemma steady_quiet: "steady v o1 \<Longrightarrow> quiet o1 o2 \<Longrightarrow> steady v o2"
  by (auto simp: steady_def quiet_def later_def)

lemma steady_look: "steady v o1 \<Longrightarrow> fst (look f o1) = f v"
  by (simp add: steady_def)

definition exists_in :: "osview \<Rightarrow> int \<Rightarrow> bool" where
  "exists_in v pid = (0 < pid \<and> pid \<in> fst ` set (v_procs v))"

lemma targets_pid: "0 < pid \<Longrightarrow> targets v pid \<noteq> [] \<longleftrightarrow> pid \<in> fst ` set (v_procs v)"
  by (force simp: targets_def filter_empty_conv)

lemma Alive_steady: "steady v o1 \<Longrightarrow> fst (Alive pid o1) = exists_in v pid"
  using targets_pid [of pid v] unfolding Alive_def exists_in_def kill_result_def steady_def
  by (cases "0 < pid") (auto simp del: image_iff)

definition tick_rate :: "osview \<Rightarrow> bool \<Rightarrow> int \<Rightarrow> int" where
  "tick_rate v once hz = (if once then hz else case v_clk_tck v of Inl e \<Rightarrow> hz
     | Inr text \<Rightarrow> (case parse_int64 (trim_space text) of None \<Rightarrow> hz | Some n \<Rightarrow> if n > 0 then n else hz))"

definition clock_ticks :: "osview \<Rightarrow> os \<Rightarrow> int" where
  "clock_ticks v o1 = tick_rate v (clk_once o1) (clk_hz o1)"

lemma tick_rate_once [simp]: "tick_rate v True hz = hz"
  by (simp add: tick_rate_def)

text \<open>What a steady snapshot says of a process start: time and token, or an error.\<close>

definition start_info :: "osview \<Rightarrow> int \<Rightarrow> int \<Rightarrow> (gotime \<times> string) result" where
  "start_info v hz pid = (case proc_file p_stat pid v of Inl e \<Rightarrow> Inl e
     | Inr line \<Rightarrow> (case start_ticks pid line of Inl e \<Rightarrow> Inl e
       | Inr (f, t) \<Rightarrow> (case v_boot v of Inl e \<Rightarrow> Inl e
         | Inr raw \<Rightarrow> (case find_btime (split_on (CHR ''\<newline>'') raw) of Inl e \<Rightarrow> Inl e
           | Inr boot \<Rightarrow> Inr (start_time boot hz t, ''linux:'' @ f)))))"

definition command_of :: "osview \<Rightarrow> int \<Rightarrow> string result" where
  "command_of v pid = (case proc_file p_cmdline pid v of Inr raw \<Rightarrow> Inr (nul_to_space raw)
     | Inl e \<Rightarrow> (case proc_file p_ps pid v of
         Inl e \<Rightarrow> Inl (Errorf ''read command line of pid %d: %w'' [ArgD pid, ArgW e])
       | Inr out \<Rightarrow> Inr (trim_space out)))"

lemma look_steady: "steady v o1 \<Longrightarrow> look f o1 = (f v, step_os o1) \<and> steady v (step_os o1)"
  by (simp add: look_def steady_def)

lemma cmdline_steady: "steady v o1 \<Longrightarrow> fst (cmdline pid o1) = command_of v pid"
  using look_steady [of v o1 "proc_file p_cmdline pid"] look_steady [of v "step_os o1" "proc_file p_ps pid"]
  by (auto simp: cmdline_def command_of_def split: sum.split)

lemma ticks_steady:
  assumes "steady v o1" "linuxClockTicks o1 = (hz, o2)"
  shows "hz = clock_ticks v o1 \<and> clk_once o2 \<and> clk_hz o2 = clock_ticks v o1"
  using assms look_steady [OF assms(1), of v_clk_tck]
  by (auto simp: linuxClockTicks_def clock_ticks_def tick_rate_def Let_def split: if_splits sum.split option.split)

lemma quiet_step: "quiet o1 (step_os o1)"
  by (simp add: quiet_def later_def)

lemma ticks_step [simp]: "clock_ticks v (step_os o1) = clock_ticks v o1"
  by (simp add: clock_ticks_def)

lemma info_steady:
  assumes "steady v o1" "processStartInfo pid o1 = (i, o2)"
  shows "i = start_info v (clock_ticks v o1) pid" "clock_ticks v o2 = clock_ticks v o1"
proof -
  have s: "look (proc_file p_stat pid) o1 = (proc_file p_stat pid v, step_os o1)" "steady v (step_os o1)"
    using look_steady [OF assms(1)] by auto
  have b: "linuxBootTime (step_os o1) = (case v_boot v of Inl e \<Rightarrow> Inl e
      | Inr raw \<Rightarrow> find_btime (split_on (CHR ''\<newline>'') raw), step_os (step_os o1))"
    using look_steady [OF s(2), of v_boot] by (simp add: linuxBootTime_def split: sum.split)
  have s2: "steady v (step_os (step_os o1))" using look_steady [OF s(2)] by auto
  obtain hz o5 where t: "linuxClockTicks (step_os (step_os o1)) = (hz, o5)" by fastforce
  from ticks_steady [OF s2 t] have hz: "hz = clock_ticks v o1" "clock_ticks v o5 = clock_ticks v o1"
    by (auto simp: clock_ticks_def)
  show "i = start_info v (clock_ticks v o1) pid" "clock_ticks v o2 = clock_ticks v o1"
    using assms(2) s(1) b t hz
    by (auto simp: processStartInfo_def start_info_def split: sum.splits)
qed

definition classify :: "osview \<Rightarrow> int \<Rightarrow> process \<Rightarrow> status" where
  "classify v hz p =
     (if \<not> exists_in v (pr_pid p) then StatusStale
      else if pr_start_token p = [] \<or> IsZero (pr_started_at p) \<or> pr_command p = [] then StatusUnknown
      else case start_info v hz (pr_pid p) of
             Inl e \<Rightarrow> StatusUnknown
           | Inr (startedAt, token) \<Rightarrow>
             (if token \<noteq> pr_start_token p \<or> \<not> sameStartTime startedAt (pr_started_at p) then StatusReused
              else case command_of v (pr_pid p) of
                     Inl e \<Rightarrow> StatusUnknown
                   | Inr c \<Rightarrow> (if normalize c = normalize (pr_command p) then StatusRunning else StatusReused)))"

lemma Alive_state: "Alive pid o1 = (b, o2) \<Longrightarrow> o2 = o1 \<or> o2 = step_os o1"
  by (auto simp: Alive_def look_def split: if_splits)

lemma Reconcile_steady:
  assumes "steady v o1"
  shows "fst (Reconcile p o1) = classify v (clock_ticks v o1) p"
proof -
  let ?pid = "pr_pid p"
  obtain a oa where A: "Alive ?pid o1 = (a, oa)" by fastforce
  have a: "a = exists_in v ?pid" "steady v oa" "clock_ticks v oa = clock_ticks v o1"
    using Alive_steady [OF assms, of ?pid] Alive_state [OF A] look_steady [OF assms] assms A by auto
  obtain b ob where B: "Alive ?pid oa = (b, ob)" by fastforce
  have b: "b = a" "steady v ob" "clock_ticks v ob = clock_ticks v o1"
    using Alive_steady [OF a(2), of ?pid] Alive_state [OF B] look_steady [OF a(2)] a B by auto
  obtain i oc where I: "processStartInfo ?pid ob = (i, oc)" by fastforce
  have i: "i = start_info v (clock_ticks v o1) ?pid" "steady v oc"
    using info_steady [OF b(2) I] b steady_quiet [OF b(2)] quietD(3) [OF I] by auto
  obtain c od where C: "cmdline ?pid oc = (c, od)" by fastforce
  have c: "c = command_of v ?pid" using cmdline_steady [OF i(2), of ?pid] C by simp
  show ?thesis
    using A B I C a(1) b(1) i(1) c
    by (auto simp: Reconcile_def verifyOwned_def classify_def split: sum.split)
qed

lemma Reconcile_cases:
  assumes "Reconcile p o1 = (st, o2)"
  shows "quiet o1 o2" "st = StatusRunning \<Longrightarrow> identity_seen p o1 (tick o2)"
    "st = StatusStale \<Longrightarrow> 0 < pr_pid p \<Longrightarrow> pr_pid p \<notin> fst ` set (v_procs (view o1 (tick o1)))"
proof -
  let ?pid = "pr_pid p"
  obtain a oa where A: "Alive ?pid o1 = (a, oa)" by fastforce
  then have qa: "quiet o1 oa" by (rule quietD)
  obtain v ob where V: "verifyOwned p oa = (v, ob)" by fastforce
  then have qb: "quiet oa ob" by (rule verifyOwned_quiet)
  show "quiet o1 o2"
    using assms A V qa quiet_trans [OF qa qb] by (auto simp: Reconcile_def split: sum.splits if_splits)
  show "identity_seen p o1 (tick o2)" if "st = StatusRunning"
  proof -
    have "v = Inr True" "o2 = ob"
      using assms A V that by (auto simp: Reconcile_def split: sum.splits if_splits)
    then show ?thesis using verifyOwned_true V qa by (blast intro: identity_seen_later quiet_later)
  qed
  show "?pid \<notin> fst ` set (v_procs (view o1 (tick o1)))" if "st = StatusStale" "0 < ?pid"
  proof -
    have "\<not> a" using assms A V that by (auto simp: Reconcile_def split: sum.splits if_splits)
    then have "kill_result ?pid (view o1 (tick o1)) \<noteq> None \<and> kill_result ?pid (view o1 (tick o1)) \<noteq> Some EPERM"
      using A that(2) by (auto simp: Alive_def look_def)
    then have "targets (view o1 (tick o1)) ?pid = []" by (auto simp: kill_result_def split: if_splits)
    then show ?thesis using targets_pid [OF that(2)] by blast
  qed
qed

lemma capture_result:
  "capture n p err o1 = (q, e, o2) \<Longrightarrow> quiet o1 o2 \<and> pr_pid q = pr_pid p \<and>
    (q = p \<or>
     (\<exists>t. tick o1 \<le> t \<and> t < tick o2 \<and> shows_token (view o1 t) (pr_pid p) (pr_start_token q)))"
proof (induction n arbitrary: err o1)
  case (Suc n)
  let ?pid = "pr_pid p"
  obtain c oa where C: "cmdline ?pid o1 = (c, oa)" by fastforce
  then have qa: "quiet o1 oa" by (rule quietD)
  obtain i ob where I: "processStartInfo ?pid oa = (i, ob)" by fastforce
  then have qb: "quiet oa ob" by (rule quietD)
  obtain x oc where X: "exited ?pid ob = (x, oc)" by fastforce
  then have qc: "quiet ob oc" by (rule quietD)
  have q1b: "quiet o1 ob" using qa qb by (rule quiet_trans)
  have q1c: "quiet o1 oc" using q1b qc by (rule quiet_trans)
  have tok: "tick o1 \<le> tick oa \<and> tick oa < tick ob \<and> shows_token (view o1 (tick oa)) ?pid token"
    if "i = Inr (st, token)" for st token
    using info_token [OF I [unfolded that]] qa by (auto simp: quiet_def later_def)
  have retry: ?case if "capture n p errs (sleep (5 * 10 ^ 6) od) = (q, e, o2)" "quiet o1 od" for errs od
  proof -
    have s: "quiet o1 (sleep (5 * 10 ^ 6) od)"
      using that(2) quiet_sleep [of "5 * 10 ^ 6" od] by (auto intro: quiet_trans)
    from Suc.IH [OF that(1)] s show ?thesis
      by (auto simp: quiet_def later_def intro: le_trans)
  qed
  show ?case
  proof (cases i)
    case (Inl er)
    with Suc.prems C I show ?thesis by (intro retry [OF _ q1b]) (simp add: Let_def)
  next
    case (Inr r)
    then obtain st token where i: "i = Inr (st, token)" by (cases r) auto
    show ?thesis
    proof (cases "err_part c = None \<and> normalize (case c of Inl e \<Rightarrow> [] | Inr c \<Rightarrow> c) \<noteq> []")
      case True
      with Suc.prems C I i have "q = p\<lparr>pr_command := normalize (case c of Inl e \<Rightarrow> [] | Inr c \<Rightarrow> c),
          pr_started_at := st, pr_start_token := token\<rparr>" "o2 = ob" by (simp_all add: Let_def)
      with tok [OF i] q1b show ?thesis by auto
    next
      case no: False
      show ?thesis
      proof (cases x)
        case True
        with Suc.prems C I i X no have "q = p\<lparr>pr_started_at := st, pr_start_token := token\<rparr>" "o2 = oc"
          by (auto simp: Let_def)
        moreover have "tick ob \<le> tick oc" using qc by (simp add: quiet_def later_def)
        ultimately show ?thesis using tok [OF i] q1c by (auto intro: less_le_trans)
      next
        case False
        with Suc.prems C I i X no have "capture n p (join_errs [err_part c, err_part i]) (sleep (5 * 10 ^ 6) oc) = (q, e, o2)"
          by (auto simp: Let_def)
        then show ?thesis using q1c by (rule retry)
      qed
    qed
  qed
qed simp

end
