(* ===== verification/FileSystem.thy ===== *)
theory FileSystem imports Paths "HOL-Library.AList" begin

text \<open>
  The file system the lifecycle commands own parts of: a map from absolute locations (lists of
  elements) to nodes, with symbolic links, which system calls follow element by element, and the calls
  of package \<open>os\<close> the code makes. Every call may fail; a failing \<open>RemoveAll\<close> may have
  removed part of the tree. A path is resolved from its text, so \<open>..\<close> after a link is the
  parent of the link's target, as in the kernel and unlike \<open>filepath.Clean\<close>.
\<close>

section \<open>Nodes and resolution\<close>

datatype node = Dir nat | File string nat | Link "string list"

type_synonym location = "string list"

text \<open>The two permission modes the code uses, octal 0700 and 0600.\<close>

definition perm_0700 :: nat where
  "perm_0700 = 7 * 64"

definition perm_0600 :: nat where
  "perm_0600 = 6 * 64"

record filesys =
  entries :: "(location \<times> node) list"
  fs_faults :: "(goerr \<times> (location \<Rightarrow> bool)) option list"

definition nodes :: "filesys \<Rightarrow> location \<Rightarrow> node option" where
  "nodes s = map_of (entries s)"

definition put :: "location \<Rightarrow> node \<Rightarrow> filesys \<Rightarrow> filesys" where
  "put l x s = s\<lparr>entries := AList.update l x (entries s)\<rparr>"

definition prune :: "(location \<Rightarrow> bool) \<Rightarrow> filesys \<Rightarrow> filesys" where
  "prune P s = s\<lparr>entries := filter (\<lambda>(l, x). \<not> P l) (entries s)\<rparr>"

lemma nodes_put [simp]: "nodes (put l x s) = (nodes s)(l \<mapsto> x)"
  by (simp add: nodes_def put_def update_conv')

lemma nodes_prune [simp]: "nodes (prune P s) l = (if P l then None else nodes s l)"
proof -
  have "map_of (filter (\<lambda>(l, x). \<not> P l) es) l = (if P l then None else map_of es l)" for es :: "(location \<times> node) list"
    by (induction es) auto
  then show ?thesis by (simp add: nodes_def prune_def)
qed

lemma nodes_faults [simp]: "nodes (s\<lparr>fs_faults := fs\<rparr>) = nodes s"
  by (simp add: nodes_def)

lemma put_faults [simp]: "fs_faults (put l x s) = fs_faults s" "fs_faults (prune P s) = fs_faults s"
  by (simp_all add: put_def prune_def)

text \<open>
  Following links with at most \<open>n\<close> of them (the kernel allows 40): \<open>None\<close> stands for
  ELOOP. The target of a link is an absolute location.
\<close>

function resolve :: "nat \<Rightarrow> (location \<Rightarrow> node option) \<Rightarrow> location \<Rightarrow> string list \<Rightarrow> location option" where
  "resolve n nd at [] = Some at"
| "resolve n nd at (c # cs) =
     (if c = [] \<or> c = ''.'' then resolve n nd at cs
      else if c = ''..'' then resolve n nd (butlast at) cs
      else case nd (at @ [c]) of
             Some (Link t) \<Rightarrow> (case n of 0 \<Rightarrow> None | Suc m \<Rightarrow> resolve m nd [] (t @ cs))
           | Some (Dir m) \<Rightarrow> resolve n nd (at @ [c]) cs
           | Some (File x m) \<Rightarrow> resolve n nd (at @ [c]) cs
           | None \<Rightarrow> resolve n nd (at @ [c]) cs)"
  by pat_completeness auto
termination by (relation "measures [\<lambda>(n, nd, a, cs). n, \<lambda>(n, nd, a, cs). length cs]") auto

definition elements :: "string \<Rightarrow> string list" where
  "elements p = filter (\<lambda>c. c \<noteq> [] \<and> c \<noteq> ''.'') (split_on sep p)"

definition loc :: "filesys \<Rightarrow> string \<Rightarrow> location option" where
  "loc s p = resolve 40 (nodes s) [] (elements p)"

text \<open>The location of the directory entry itself: the last element is not followed.\<close>

definition entry_loc :: "filesys \<Rightarrow> string \<Rightarrow> location option" where
  "entry_loc s p =
     (let es = elements p
      in if es = [] \<or> last es = ''..'' then loc s p
         else map_option (\<lambda>d. d @ [last es]) (resolve 40 (nodes s) [] (butlast es)))"

definition node_at :: "filesys \<Rightarrow> string \<Rightarrow> node option" where
  "node_at s p = (case loc s p of None \<Rightarrow> None | Some l \<Rightarrow> nodes s l)"

section \<open>Calls\<close>

definition ENOENT :: goerr where
  "ENOENT = Opaque ''no such file or directory''"

definition EEXIST :: goerr where
  "EEXIST = Opaque ''file exists''"

definition ENOTDIR :: goerr where
  "ENOTDIR = Opaque ''not a directory''"

definition IsNotExist :: "goerr \<Rightarrow> bool" where
  "IsNotExist e = (e = ENOENT)"

definition fs_call ::
  "((location \<Rightarrow> bool) \<Rightarrow> filesys \<Rightarrow> filesys) \<Rightarrow> (filesys \<Rightarrow> 'a result \<times> filesys) \<Rightarrow> filesys \<Rightarrow> 'a result \<times> filesys" where
  "fs_call partial f s = (case fs_faults s of
     [] \<Rightarrow> f s
   | None # fs \<Rightarrow> f (s\<lparr>fs_faults := fs\<rparr>)
   | Some (e, P) # fs \<Rightarrow> (Inl e, partial P (s\<lparr>fs_faults := fs\<rparr>)))"

definition nothing :: "(location \<Rightarrow> bool) \<Rightarrow> filesys \<Rightarrow> filesys" where
  "nothing P s = s"

text \<open>The nodes a removal takes away: the entry and everything below it.\<close>

definition remove_below :: "location \<Rightarrow> (location \<Rightarrow> bool) \<Rightarrow> filesys \<Rightarrow> filesys" where
  "remove_below l P = prune (\<lambda>x. prefix l x \<and> P x)"

text \<open>The error for a location that holds nothing: ENOTDIR below a file, else ENOENT.\<close>

definition absent :: "filesys \<Rightarrow> location \<Rightarrow> goerr" where
  "absent s l = (if list_ex (\<lambda>k. case nodes s (take k l) of Some (File x m) \<Rightarrow> True | _ \<Rightarrow> False) [0..<length l]
     then ENOTDIR else ENOENT)"

definition get :: "filesys \<Rightarrow> location option \<Rightarrow> node result" where
  "get s at = (case at of None \<Rightarrow> Inl (Opaque ''too many levels of symbolic links'')
     | Some l \<Rightarrow> (case nodes s l of None \<Rightarrow> Inl (absent s l) | Some x \<Rightarrow> Inr x))"

definition Stat :: "string \<Rightarrow> filesys \<Rightarrow> node result \<times> filesys" where
  "Stat p = fs_call nothing (\<lambda>s. (get s (loc s p), s))"

definition Lstat :: "string \<Rightarrow> filesys \<Rightarrow> node result \<times> filesys" where
  "Lstat p = fs_call nothing (\<lambda>s. (get s (entry_loc s p), s))"

definition ReadFile :: "string \<Rightarrow> filesys \<Rightarrow> string result \<times> filesys" where
  "ReadFile p = fs_call nothing (\<lambda>s. (case get s (loc s p) of
     Inl e \<Rightarrow> Inl e
   | Inr (File x m) \<Rightarrow> Inr x
   | Inr (Dir m) \<Rightarrow> Inl (Opaque ''is a directory'')
   | Inr (Link t) \<Rightarrow> Inl ENOENT, s))"

definition children :: "filesys \<Rightarrow> location \<Rightarrow> string list" where
  "children s l = map (last \<circ> fst) (filter (\<lambda>(x, n). x \<noteq> [] \<and> butlast x = l) (entries s))"

definition ReadDir :: "string \<Rightarrow> filesys \<Rightarrow> string list result \<times> filesys" where
  "ReadDir p = fs_call nothing (\<lambda>s. (case loc s p of None \<Rightarrow> Inl ENOENT
     | Some l \<Rightarrow> (case nodes s l of
         Some (Dir m) \<Rightarrow> Inr (children s l) | None \<Rightarrow> Inl (absent s l) | _ \<Rightarrow> Inl ENOTDIR), s))"

definition Chmod :: "string \<Rightarrow> nat \<Rightarrow> filesys \<Rightarrow> unit result \<times> filesys" where
  "Chmod p mode = fs_call nothing (\<lambda>s. case loc s p of None \<Rightarrow> (Inl ENOENT, s)
     | Some l \<Rightarrow> (case nodes s l of
         None \<Rightarrow> (Inl ENOENT, s)
       | Some (Dir m) \<Rightarrow> (Inr (), put l (Dir mode) s)
       | Some (File x m) \<Rightarrow> (Inr (), put l (File x mode) s)
       | Some (Link t) \<Rightarrow> (Inl ENOENT, s)))"

text \<open>Creating the missing directories of a location, from the root down.\<close>

fun make_dirs :: "nat \<Rightarrow> location \<Rightarrow> string list \<Rightarrow> filesys \<Rightarrow> unit result \<times> filesys" where
  "make_dirs mode at [] s = (Inr (), s)"
| "make_dirs mode at (c # cs) s =
     (case nodes s (at @ [c]) of
        None \<Rightarrow> make_dirs mode (at @ [c]) cs (put (at @ [c]) (Dir mode) s)
      | Some (Dir m) \<Rightarrow> make_dirs mode (at @ [c]) cs s
      | Some (File x m) \<Rightarrow> (Inl ENOTDIR, s)
      | Some (Link t) \<Rightarrow> (Inl EEXIST, s))"

text \<open>Some element of the path is a link to nothing: no directory can be made there.\<close>

definition dangling :: "filesys \<Rightarrow> string \<Rightarrow> bool" where
  "dangling s p = list_ex (\<lambda>k. let es = take k (elements p) in
     case resolve 40 (nodes s) [] (butlast es) of
       None \<Rightarrow> True
     | Some d \<Rightarrow> (case nodes s (d @ [last es]) of
         Some (Link t) \<Rightarrow> (case resolve 40 (nodes s) [] es of None \<Rightarrow> True | Some l \<Rightarrow> nodes s l = None)
       | _ \<Rightarrow> False)) [1..<Suc (length (elements p))]"

definition MkdirAll :: "string \<Rightarrow> nat \<Rightarrow> filesys \<Rightarrow> unit result \<times> filesys" where
  "MkdirAll p mode = fs_call nothing (\<lambda>s. if dangling s p then (Inl EEXIST, s) else case loc s p of
     None \<Rightarrow> (Inl ENOENT, s) | Some l \<Rightarrow> make_dirs mode [] l s)"

definition has_parent :: "filesys \<Rightarrow> location \<Rightarrow> bool" where
  "has_parent s l = (butlast l = [] \<or> (case nodes s (butlast l) of Some (Dir m) \<Rightarrow> True | _ \<Rightarrow> False))"

text \<open>\<open>O_CREATE|O_EXCL\<close>: fails when the entry exists, links included.\<close>

definition CreateExcl :: "string \<Rightarrow> nat \<Rightarrow> filesys \<Rightarrow> location result \<times> filesys" where
  "CreateExcl p mode = fs_call nothing (\<lambda>s. case entry_loc s p of None \<Rightarrow> (Inl ENOENT, s)
     | Some l \<Rightarrow> (if nodes s l \<noteq> None then (Inl EEXIST, s)
         else if \<not> has_parent s l then (Inl (absent s l), s)
         else (Inr l, put l (File [] mode) s)))"

text \<open>Operations on an open file, known by its location.\<close>

definition WriteOpen :: "location \<Rightarrow> string \<Rightarrow> filesys \<Rightarrow> unit result \<times> filesys" where
  "WriteOpen l text = fs_call nothing (\<lambda>s. (Inr (), case nodes s l of
     Some (File x m) \<Rightarrow> put l (File (x @ text) m) s | other \<Rightarrow> s))"

definition ChmodOpen :: "location \<Rightarrow> nat \<Rightarrow> filesys \<Rightarrow> unit result \<times> filesys" where
  "ChmodOpen l mode = fs_call nothing (\<lambda>s. (Inr (), case nodes s l of
     Some (File x m) \<Rightarrow> put l (File x mode) s | other \<Rightarrow> s))"

definition CloseFile :: "filesys \<Rightarrow> unit result \<times> filesys" where
  "CloseFile = fs_call nothing (\<lambda>s. (Inr (), s))"

definition WriteFile :: "string \<Rightarrow> string \<Rightarrow> nat \<Rightarrow> filesys \<Rightarrow> unit result \<times> filesys" where
  "WriteFile p text mode = fs_call nothing (\<lambda>s. case loc s p of None \<Rightarrow> (Inl ENOENT, s)
     | Some l \<Rightarrow> (case nodes s l of
         None \<Rightarrow> (if has_parent s l then (Inr (), put l (File text mode) s) else (Inl (absent s l), s))
       | Some (File x m) \<Rightarrow> (Inr (), put l (File text m) s)
       | Some (Dir m) \<Rightarrow> (Inl (Opaque ''is a directory''), s)
       | Some (Link t) \<Rightarrow> (Inl ENOENT, s)))"

definition RemoveAll :: "string \<Rightarrow> filesys \<Rightarrow> unit result \<times> filesys" where
  "RemoveAll p s = (case entry_loc s p of
     None \<Rightarrow> (Inr (), s)
   | Some l \<Rightarrow> fs_call (remove_below l) (\<lambda>s. (Inr (), remove_below l (\<lambda>x. True) s)) s)"

section \<open>Laws\<close>

text \<open>No link at any element of a path: every location below is what the path's text says.\<close>

definition no_links :: "filesys \<Rightarrow> location \<Rightarrow> bool" where
  "no_links s l = (\<forall>p t. prefix p l \<longrightarrow> nodes s p \<noteq> Some (Link t))"

lemma resolve_plain:
  assumes "list_all seg cs" "\<And>p t. prefix p (at @ cs) \<Longrightarrow> nd p \<noteq> Some (Link t)"
  shows "resolve n nd at cs = Some (at @ cs)"
  using assms
proof (induction cs arbitrary: at)
  case (Cons c cs)
  have c: "c \<noteq> []" "c \<noteq> ''.''" "c \<noteq> ''..''" using Cons.prems(1) by (auto simp: seg_def)
  have "prefix (at @ [c]) (at @ c # cs)" by simp
  then have "nd (at @ [c]) \<noteq> Some (Link t)" for t using Cons.prems(2) by blast
  moreover have "resolve n nd (at @ [c]) cs = Some ((at @ [c]) @ cs)"
    by (rule Cons.IH) (use Cons.prems in auto)
  ultimately show ?case using c by (auto split: option.split node.split)
qed simp

lemma elements_clean:
  assumes "IsAbs p"
  shows "elements (Clean p) = clean_parts p"
proof (cases "clean_parts p = []")
  case True
  with assms show ?thesis by (simp add: elements_def Clean_def unclean_def)
next
  case False
  have segs: "list_all seg (clean_parts p)" by (rule clean_parts_seg [OF assms])
  then have "split_on sep (join_with [sep] (clean_parts p)) = clean_parts p"
    using False by (auto simp: seg_def list_all_iff intro: split_on_join)
  then have "split_on sep (Clean p) = [] # clean_parts p"
    using assms by (simp add: Clean_def unclean_def)
  moreover have "filter (\<lambda>c. c \<noteq> [] \<and> c \<noteq> ''.'') (clean_parts p) = clean_parts p"
    using segs by (auto simp: filter_id_conv list_all_iff seg_def)
  ultimately show ?thesis by (simp add: elements_def)
qed

text \<open>A path whose text is already clean and absolute.\<close>

definition clean_abs :: "string \<Rightarrow> bool" where
  "clean_abs p = (IsAbs p \<and> Clean p = p)"

lemma clean_abs_Clean [simp]: "IsAbs p \<Longrightarrow> clean_abs (Clean p)"
  by (simp add: clean_abs_def Clean_idem)

lemma clean_abs_Join [simp]: "IsAbs b \<Longrightarrow> clean_abs (Join (b # es))"
  by (simp add: Join_abs join_abs del: Join.simps join_with.simps)

lemma elements_clean_abs: "clean_abs p \<Longrightarrow> elements p = clean_parts p"
  using elements_clean [of p] by (simp add: clean_abs_def)

lemma loc_plain:
  assumes "clean_abs p" "no_links s (clean_parts p)"
  shows "loc s p = Some (clean_parts p)"
  unfolding loc_def elements_clean_abs [OF assms(1)]
  using resolve_plain [of "clean_parts p" "[]" "nodes s" 40] assms clean_parts_seg [of p]
  by (simp add: no_links_def clean_abs_def)

lemma entry_plain:
  assumes "clean_abs p" "clean_parts p \<noteq> []" "no_links s (butlast (clean_parts p))"
  shows "entry_loc s p = Some (clean_parts p)"
proof -
  have segs: "list_all seg (clean_parts p)" using assms(1) clean_parts_seg by (simp add: clean_abs_def)
  then have "last (clean_parts p) \<noteq> ''..''"
    using assms(2) by (metis last_in_set list_all_iff seg_def)
  moreover have "resolve 40 (nodes s) [] (butlast (clean_parts p)) = Some (butlast (clean_parts p))"
    using resolve_plain [of "butlast (clean_parts p)" "[]" "nodes s" 40] assms segs
    by (auto simp: no_links_def list_all_iff dest: in_set_butlastD)
  ultimately show ?thesis
    using assms by (simp add: entry_loc_def elements_clean_abs Let_def)
qed

lemma fs_callE:
  assumes "fs_call g f s = (res, s')"
  obtains (fault) e P fs where "res = Inl e" "s' = g P (s\<lparr>fs_faults := fs\<rparr>)"
  | (run) fs where "f (s\<lparr>fs_faults := fs\<rparr>) = (res, s')"
proof (cases "fs_faults s")
  case Nil
  then have "s\<lparr>fs_faults := []\<rparr> = s" by simp
  with Nil assms run [of "[]"] show ?thesis by (simp add: fs_call_def)
next
  case (Cons x fs)
  with assms run [of fs] fault show ?thesis
    by (cases x) (auto simp: fs_call_def)
qed

lemma fs_call_ok: "fs_faults s = [] \<Longrightarrow> fs_call g f s = f s"
  by (simp add: fs_call_def)

lemma faults_only [simp]: "loc (s\<lparr>fs_faults := fs\<rparr>) p = loc s p" "entry_loc (s\<lparr>fs_faults := fs\<rparr>) p = entry_loc s p"
    "node_at (s\<lparr>fs_faults := fs\<rparr>) p = node_at s p" "no_links (s\<lparr>fs_faults := fs\<rparr>) l = no_links s l"
  by (simp_all add: loc_def entry_loc_def node_at_def no_links_def Let_def split: option.split)

text \<open>A removal takes nodes away below the entry and touches nothing else.\<close>

lemma RemoveAll_effect:
  assumes "RemoveAll p s = (res, s')" "entry_loc s p = Some l"
  shows "(\<forall>x. nodes s' x = nodes s x \<or> prefix l x \<and> nodes s' x = None) \<and>
    (res = Inr () \<longrightarrow> (\<forall>x. nodes s' x = (if prefix l x then None else nodes s x)))"
proof -
  from assms have "fs_call (remove_below l) (\<lambda>s. (Inr (), remove_below l (\<lambda>x. True) s)) s = (res, s')"
    by (simp add: RemoveAll_def)
  then show ?thesis by (cases rule: fs_callE) (auto simp: remove_below_def split: if_splits)
qed

lemma reads_keep:
  "Stat p s = (a, s') \<Longrightarrow> nodes s' = nodes s" "Lstat p s = (a, s') \<Longrightarrow> nodes s' = nodes s"
  "ReadFile p s = (b, s') \<Longrightarrow> nodes s' = nodes s" "ReadDir p s = (c, s') \<Longrightarrow> nodes s' = nodes s"
  "CloseFile s = (d, s') \<Longrightarrow> nodes s' = nodes s"
  unfolding Stat_def Lstat_def ReadFile_def ReadDir_def CloseFile_def
  by (auto elim!: fs_callE simp: nothing_def)

end
