(* ===== verification/Ownership.thy ===== *)
theory Ownership imports FileSystem StateStore begin

text \<open>
  The files a deployment owns (internal/cli: cli.go \<open>modelCacheOwnedBy\<close>,
  \<open>removeOwnedData\<close>; deploy.go \<open>writeAPIKey\<close>, \<open>prepareModelCache\<close>). A
  model cache is claimed by a marker file that holds the deployment's idempotency key, and only a cache
  with the right marker is ever removed.
\<close>

definition modelCacheOwnerFile :: string where
  "modelCacheOwnerFile = ''.iold-owner''"

definition modelCacheOwnedBy :: "string \<Rightarrow> deployment \<Rightarrow> filesys \<Rightarrow> bool result \<times> filesys" where
  "modelCacheOwnedBy path d s =
     (let clean = Clean path
      in if \<not> IsAbs clean \<or> Base clean \<noteq> d_id d \<or> d_idempotency_key d = []
         then (Inl (Errorf ''unsafe model cache path %q for deployment %s'' [ArgS path, ArgS (d_id d)]), s)
         else case Stat clean s of
           (Inl e, s1) \<Rightarrow> (if IsNotExist e then (Inr False, s1) else (Inl e, s1))
         | (Inr x, s1) \<Rightarrow>
           (case ReadFile (Join [clean, modelCacheOwnerFile]) s1 of
              (Inl e, s2) \<Rightarrow>
                (Inl (Errorf ''refusing to remove unowned model cache %s: %w'' [ArgS clean, ArgW e]), s2)
            | (Inr marker, s2) \<Rightarrow>
              (if trim_space marker \<noteq> d_idempotency_key d
               then (Inl (Errorf ''refusing to remove model cache %s with mismatched ownership marker''
                       [ArgS clean]), s2)
               else (Inr True, s2))))"

fun remove_paths :: "string list \<Rightarrow> filesys \<Rightarrow> unit result \<times> filesys" where
  "remove_paths [] s = (Inr (), s)"
| "remove_paths (p # ps) s =
     (case RemoveAll p s of
        (Inl e, s1) \<Rightarrow> (Inl (Errorf ''remove %s: %w'' [ArgS p, ArgW e]), s1)
      | (Inr u, s1) \<Rightarrow> remove_paths ps s1)"

definition removeOwnedData :: "environment \<Rightarrow> deployment \<Rightarrow> filesys \<Rightarrow> unit result \<times> filesys" where
  "removeOwnedData env d s =
     (case ownedPaths env (d_id d) of
        Inl e \<Rightarrow> (Inl e, s)
      | Inr paths \<Rightarrow>
        (case (if d_model_cache_dir d = [] then deploymentModelCacheDir env (d_id d) else Inr (d_model_cache_dir d)) of
           Inl e \<Rightarrow> (Inl e, s)
         | Inr cachePath \<Rightarrow>
           (case modelCacheOwnedBy cachePath d s of
              (Inl e, s1) \<Rightarrow> (Inl e, s1)
            | (Inr owned, s1) \<Rightarrow> remove_paths (if owned then paths @ [cachePath] else paths) s1)))"

definition writeAPIKey :: "environment \<Rightarrow> string \<Rightarrow> string \<Rightarrow> filesys \<Rightarrow> unit result \<times> filesys" where
  "writeAPIKey env i key s =
     (case ownedPaths env i of
        Inl e \<Rightarrow> (Inl e, s)
      | Inr paths \<Rightarrow>
        (let dir = paths ! 1 in
         case MkdirAll dir perm_0700 s of
           (Inl e, s1) \<Rightarrow> (Inl e, s1)
         | (Inr u, s1) \<Rightarrow>
           (case Chmod dir perm_0700 s1 of
              (Inl e, s2) \<Rightarrow> (Inl e, s2)
            | (Inr u, s2) \<Rightarrow>
              (let path = Join [dir, ''api-key''] in
               case WriteFile path (key @ [CHR 0x0A]) perm_0600 s2 of
                 (Inl e, s3) \<Rightarrow> (Inl e, s3)
               | (Inr u, s3) \<Rightarrow> Chmod path perm_0600 s3))))"

definition write_marker :: "string \<Rightarrow> string \<Rightarrow> filesys \<Rightarrow> unit result \<times> filesys" where
  "write_marker marker key s =
     (case CreateExcl marker perm_0600 s of
        (Inl e, s1) \<Rightarrow> (Inl e, s1)
      | (Inr l, s1) \<Rightarrow>
        (case WriteOpen l (key @ [CHR 0x0A]) s1 of
           (Inl e, s2) \<Rightarrow> (Inl e, snd (CloseFile s2))
         | (Inr u, s2) \<Rightarrow>
           (case ChmodOpen l perm_0600 s2 of
              (Inl e, s3) \<Rightarrow> (Inl e, snd (CloseFile s3))
            | (Inr u, s3) \<Rightarrow> CloseFile s3)))"

definition prepareModelCache :: "string \<Rightarrow> string \<Rightarrow> string \<Rightarrow> filesys \<Rightarrow> unit result \<times> filesys" where
  "prepareModelCache path i key s =
     (let clean = Clean path
      in if \<not> IsAbs clean \<or> Base clean \<noteq> i \<or> key = []
         then (Inl (Errorf ''unsafe model cache path %q for deployment %s'' [ArgS path, ArgS i]), s)
         else case MkdirAll clean perm_0700 s of
           (Inl e, s1) \<Rightarrow> (Inl e, s1)
         | (Inr u, s1) \<Rightarrow>
           (case Lstat clean s1 of
              (Inl e, s2) \<Rightarrow> (Inl e, s2)
            | (Inr info, s2) \<Rightarrow>
              (if (case info of Dir m \<Rightarrow> False | _ \<Rightarrow> True)
               then (Inl (Errorf ''model cache %s is not an owned directory'' [ArgS clean]), s2)
               else case Chmod clean perm_0700 s2 of
                 (Inl e, s3) \<Rightarrow> (Inl e, s3)
               | (Inr u, s3) \<Rightarrow>
                 (let marker = Join [clean, modelCacheOwnerFile] in
                  case ReadFile marker s3 of
                    (Inr existing, s4) \<Rightarrow>
                      (if trim_space existing \<noteq> key
                       then (Inl (Errorf ''model cache %s belongs to another deployment'' [ArgS clean]), s4)
                       else Chmod marker perm_0600 s4)
                  | (Inl e, s4) \<Rightarrow>
                      (if \<not> IsNotExist e then (Inl e, s4)
                       else case ReadDir clean s4 of
                         (Inl e, s5) \<Rightarrow> (Inl e, s5)
                       | (Inr names, s5) \<Rightarrow>
                         (if names \<noteq> []
                          then (Inl (Errorf ''refusing to claim non-empty unowned model cache %s'' [ArgS clean]), s5)
                          else write_marker marker key s5))))))"

section \<open>What the calls do to existing files\<close>

text \<open>Every node is kept, up to its mode, content included, and no new link appears.\<close>

fun kind :: "node \<Rightarrow> node" where
  "kind (Dir m) = Dir 0"
| "kind (File c m) = File c 0"
| "kind (Link t) = Link t"

definition keeps_files :: "filesys \<Rightarrow> filesys \<Rightarrow> bool" where
  "keeps_files s s' = ((\<forall>x n. nodes s x = Some n \<longrightarrow> (\<exists>n'. nodes s' x = Some n' \<and> kind n' = kind n)) \<and>
     (\<forall>x t. nodes s' x = Some (Link t) \<longrightarrow> nodes s x = Some (Link t)))"

lemma kind_eq [simp]: "kind n = Dir 0 \<longleftrightarrow> (\<exists>m. n = Dir m)" "kind n = File c 0 \<longleftrightarrow> (\<exists>m. n = File c m)"
    "kind n = Link t \<longleftrightarrow> n = Link t"
  by (cases n; simp)+

lemma keeps_refl [simp]: "keeps_files s s"
  by (simp add: keeps_files_def)

lemma keeps_trans [trans]: "keeps_files s t \<Longrightarrow> keeps_files t u \<Longrightarrow> keeps_files s u"
  unfolding keeps_files_def by metis

lemma keeps_file: "keeps_files s s' \<Longrightarrow> nodes s x = Some (File c m) \<Longrightarrow> \<exists>m'. nodes s' x = Some (File c m')"
  by (fastforce simp: keeps_files_def)

lemma keeps_dir: "keeps_files s s' \<Longrightarrow> nodes s x = Some (Dir m) \<Longrightarrow> \<exists>m'. nodes s' x = Some (Dir m')"
  by (fastforce simp: keeps_files_def)

lemma keeps_nodes: "nodes s' = nodes s \<Longrightarrow> keeps_files s s'"
  by (simp add: keeps_files_def)

lemma keeps_faults [simp]: "keeps_files (s\<lparr>fs_faults := fs\<rparr>) t = keeps_files s t" "keeps_files t (s\<lparr>fs_faults := fs\<rparr>) = keeps_files t s"
  by (simp_all add: keeps_files_def)

lemma make_dirs_keeps:
  "make_dirs mode at cs s = (r, s') \<Longrightarrow> nodes s x \<noteq> None \<Longrightarrow> nodes s' x = nodes s x"
  by (induction mode at cs s rule: make_dirs.induct) (auto split: option.splits node.splits if_splits)

lemma make_dirs_new:
  "make_dirs mode at cs s = (r, s') \<Longrightarrow> nodes s x = None \<Longrightarrow>
    nodes s' x = None \<or> nodes s' x = Some (Dir mode) \<and> prefix x (at @ cs)"
proof (induction mode at cs s rule: make_dirs.induct)
  case (2 mode at c cs s)
  show ?case
  proof (cases "nodes s (at @ [c])")
    case None
    with 2 have md: "make_dirs mode (at @ [c]) cs (put (at @ [c]) (Dir mode) s) = (r, s')" by simp
    show ?thesis
    proof (cases "x = at @ [c]")
      case True
      with make_dirs_keeps [OF md, of x] show ?thesis by simp
    next
      case False
      with "2.IH"(1) [OF None md] 2(4) show ?thesis by simp
    qed
  next
    case (Some n)
    with 2 show ?thesis by (cases n) auto
  qed
qed simp

lemma make_dirs_ok:
  "make_dirs mode at cs s = (Inr u, s') \<Longrightarrow> strict_prefix at x \<Longrightarrow> prefix x (at @ cs) \<Longrightarrow>
    \<exists>m. nodes s' x = Some (Dir m)"
proof (induction mode at cs s rule: make_dirs.induct)
  case (2 mode at c cs s)
  from "2.prems"(2) obtain y ys where y: "x = at @ y # ys" by (elim strict_prefixE')
  with "2.prems"(3) have x: "y = c" "prefix x ((at @ [c]) @ cs)" by simp_all
  show ?case
  proof (cases "nodes s (at @ [c])")
    case None
    with 2 have md: "make_dirs mode (at @ [c]) cs (put (at @ [c]) (Dir mode) s) = (Inr u, s')" by simp
    show ?thesis
    proof (cases "ys = []")
      case True
      with make_dirs_keeps [OF md, of x] x y show ?thesis by simp
    next
      case False
      with "2.IH"(1) [OF None md _ x(2)] x y show ?thesis by (auto simp: strict_prefix_def)
    qed
  next
    case (Some n)
    with 2 obtain m where n: "n = Dir m" by (cases n) auto
    with 2 Some have md: "make_dirs mode (at @ [c]) cs s = (Inr u, s')" by simp
    show ?thesis
    proof (cases "ys = []")
      case True
      with make_dirs_keeps [OF md, of x] x y Some n show ?thesis by simp
    next
      case False
      with "2.IH"(2) [OF Some n md _ x(2)] x y show ?thesis by (auto simp: strict_prefix_def)
    qed
  qed
qed simp

lemma make_dirs_faults [simp]: "fs_faults (snd (make_dirs mode at cs s)) = fs_faults s"
  by (induction mode at cs s rule: make_dirs.induct) (auto split: option.split node.split)

lemma MkdirAll_keeps:
  assumes "MkdirAll p mode s = (r, s')"
  shows "keeps_files s s'"
  using assms unfolding MkdirAll_def
proof (cases rule: fs_callE)
  case (run fs)
  have "keeps_files t s'" if m: "make_dirs mode [] l t = (r, s')" for l t
    using make_dirs_keeps [OF m] make_dirs_new [OF m] unfolding keeps_files_def
    by (metis node.distinct(3) option.distinct(1) option.inject)
  then have "keeps_files (s\<lparr>fs_faults := fs\<rparr>) s'" using run by (fastforce split: if_splits option.splits)
  then show ?thesis by simp
qed (auto simp: nothing_def)

lemma Chmod_keeps:
  assumes "Chmod p mode s = (r, s')"
  shows "keeps_files s s'"
  using assms unfolding Chmod_def
proof (cases rule: fs_callE)
  case (run fs)
  then show ?thesis by (auto simp: keeps_files_def split: option.splits node.splits if_splits)
qed (auto simp: nothing_def)

text \<open>A marker is only ever written to a new file.\<close>

lemma write_marker_keeps: "write_marker p key s = (r, s') \<Longrightarrow> keeps_files s s'"
proof -
  assume w: "write_marker p key s = (r, s')"
  obtain a s1 where 1: "CreateExcl p perm_0600 s = (a, s1)" by fastforce
  have c: "nodes s1 = nodes s \<or> (\<exists>l. a = Inr l \<and> nodes s l = None \<and> nodes s1 = (nodes s)(l \<mapsto> File [] perm_0600))"
    and ok: "a = Inr l \<Longrightarrow> nodes s l = None \<and> nodes s1 = (nodes s)(l \<mapsto> File [] perm_0600)" for l
    using 1 unfolding CreateExcl_def
    by (auto elim!: fs_callE simp: nothing_def split: option.splits if_splits)
  show ?thesis
  proof (cases a)
    case (Inl e)
    with c 1 w show ?thesis by (auto simp: write_marker_def intro: keeps_nodes)
  next
    case (Inr l)
    obtain b s2 where 2: "WriteOpen l (key @ [CHR 0x0A]) s1 = (b, s2)" by fastforce
    obtain d s3 where 3: "ChmodOpen l perm_0600 s2 = (d, s3)" by fastforce
    have n2: "x \<noteq> l \<longrightarrow> nodes s2 x = nodes s1 x" for x
      using 2 unfolding WriteOpen_def
      by (auto elim!: fs_callE simp: nothing_def split: option.splits node.splits)
    have n3: "x \<noteq> l \<longrightarrow> nodes s3 x = nodes s2 x" for x
      using 3 unfolding ChmodOpen_def
      by (auto elim!: fs_callE simp: nothing_def split: option.splits node.splits)
    have close: "nodes (snd (CloseFile t)) = nodes t" for t
      using reads_keep(5) [of t "fst (CloseFile t)" "snd (CloseFile t)"] by simp
    have not_link: "nodes s2 l \<noteq> Some (Link t) \<and> nodes s3 l \<noteq> Some (Link t)" for t
      using ok [OF Inr] 2 3 unfolding WriteOpen_def ChmodOpen_def
      by (auto elim!: fs_callE simp: nothing_def split: option.splits node.splits)
    have "(x \<noteq> l \<longrightarrow> nodes s' x = nodes s x) \<and> nodes s' l \<noteq> Some (Link t)" for x t
      using w 1 2 3 Inr n2 n3 close [of s2] close [of s3] ok [OF Inr] reads_keep(5) [of s3] not_link
      by (auto simp: write_marker_def split: sum.splits)
    moreover have "nodes s l = None" using ok [OF Inr] by simp
    ultimately show ?thesis unfolding keeps_files_def by (metis option.distinct(1))
  qed
qed

lemma linkless_keeps:
  "(\<forall>l t. nodes s l \<noteq> Some (Link t)) \<Longrightarrow> keeps_files s s' \<Longrightarrow> (\<forall>l t. nodes s' l \<noteq> Some (Link t))"
  by (auto simp: keeps_files_def)

lemma prepareModelCache_keeps: "prepareModelCache p i key s = (r, s') \<Longrightarrow> keeps_files s s'"
  unfolding prepareModelCache_def Let_def
  by (auto split: if_splits sum.splits prod.splits
      dest!: MkdirAll_keeps Chmod_keeps write_marker_keeps keeps_nodes [OF reads_keep(2)]
        keeps_nodes [OF reads_keep(3)] keeps_nodes [OF reads_keep(4)])
    (meson keeps_trans)+

section \<open>Removal\<close>

definition linkless :: "filesys \<Rightarrow> bool" where
  "linkless s = (\<forall>l t. nodes s l \<noteq> Some (Link t))"

lemma linkless_no_links [simp]: "linkless s \<Longrightarrow> no_links s l"
  by (simp add: linkless_def no_links_def)

text \<open>The marker of a cache directory, as the kernel finds it, holds a key.\<close>

definition marker_held :: "filesys \<Rightarrow> string \<Rightarrow> string \<Rightarrow> bool" where
  "marker_held s clean key = (case node_at s (Join [clean, modelCacheOwnerFile]) of
     Some (File c m) \<Rightarrow> trim_space c = key | _ \<Rightarrow> False)"

lemma modelCacheOwnedBy_keeps: "modelCacheOwnedBy p d s = (r, s') \<Longrightarrow> nodes s' = nodes s"
  unfolding modelCacheOwnedBy_def Let_def
  by (auto split: if_splits sum.splits prod.splits dest!: reads_keep)

lemma ReadFile_ok:
  assumes "ReadFile p s = (Inr x, s')"
  shows "\<exists>m. node_at s p = Some (File x m)"
  using assms unfolding ReadFile_def
  by (elim fs_callE) (auto simp: get_def node_at_def nothing_def split: option.splits node.splits sum.splits)

lemma node_at_same: "nodes s' = nodes s \<Longrightarrow> node_at s' p = node_at s p"
  by (simp add: node_at_def loc_def split: option.split)

lemma modelCacheOwnedBy_true:
  assumes "modelCacheOwnedBy p d s = (Inr True, s')"
  shows "marker_held s (Clean p) (d_idempotency_key d)"
proof -
  obtain a s1 where 1: "Stat (Clean p) s = (a, s1)" by fastforce
  obtain b s2 where 2: "ReadFile (Join [Clean p, modelCacheOwnerFile]) s1 = (b, s2)" by fastforce
  from assms 1 2 obtain marker where m: "b = Inr marker" "trim_space marker = d_idempotency_key d"
    by (auto simp: modelCacheOwnedBy_def Let_def simp del: Join.simps split: if_splits sum.splits)
  from ReadFile_ok [OF 2 [unfolded m(1)]] node_at_same [OF reads_keep(1) [OF 1]] m(2)
  show ?thesis by (auto simp: marker_held_def simp del: Join.simps)
qed

lemma RemoveAll_linkless:
  assumes "linkless s" "clean_abs p" "clean_parts p \<noteq> []" "RemoveAll p s = (r, s')"
  shows "\<forall>x. nodes s' x = nodes s x \<or> prefix (clean_parts p) x \<and> nodes s' x = None"
    "r = Inr () \<Longrightarrow> prefix (clean_parts p) x \<Longrightarrow> nodes s' x = None" "linkless s'"
proof -
  have "entry_loc s p = Some (clean_parts p)" using assms by (intro entry_plain) simp_all
  from RemoveAll_effect [OF assms(4) this]
  show 1: "\<forall>x. nodes s' x = nodes s x \<or> prefix (clean_parts p) x \<and> nodes s' x = None"
    and "r = Inr () \<Longrightarrow> prefix (clean_parts p) x \<Longrightarrow> nodes s' x = None" by auto
  show "linkless s'" using 1 assms(1) unfolding linkless_def by (metis option.distinct(1))
qed

lemma remove_paths_effect:
  "linkless s \<Longrightarrow> list_all (\<lambda>p. clean_abs p \<and> clean_parts p \<noteq> []) ps \<Longrightarrow> remove_paths ps s = (r, s') \<Longrightarrow>
    (\<forall>x. nodes s' x = nodes s x \<or> nodes s' x = None \<and> (\<exists>p\<in>set ps. prefix (clean_parts p) x)) \<and>
    (r = Inr () \<longrightarrow> (\<forall>p\<in>set ps. \<forall>x. prefix (clean_parts p) x \<longrightarrow> nodes s' x = None))"
proof (induction ps arbitrary: s)
  case (Cons p ps)
  obtain a s1 where R: "RemoveAll p s = (a, s1)" by fastforce
  from Cons.prems have p: "clean_abs p" "clean_parts p \<noteq> []" by simp_all
  note e = RemoveAll_linkless [OF Cons.prems(1) p R]
  show ?case
  proof (cases a)
    case (Inl er)
    with R Cons.prems have "s' = s1" "r \<noteq> Inr ()" by auto
    with e(1) show ?thesis by (metis list.set_intros(1))
  next
    case (Inr u)
    with R Cons.prems have "remove_paths ps s1 = (r, s')" by simp
    with Cons.IH [OF e(3)] Cons.prems have ih:
      "\<forall>x. nodes s' x = nodes s1 x \<or> nodes s' x = None \<and> (\<exists>p\<in>set ps. prefix (clean_parts p) x)"
      "r = Inr () \<longrightarrow> (\<forall>p\<in>set ps. \<forall>x. prefix (clean_parts p) x \<longrightarrow> nodes s' x = None)" by auto
    have "nodes s' x = None" if "prefix (clean_parts p) x" for x
      using ih(1) e(2) [of x] Inr that by (metis (full_types) old.unit.exhaust)
    with ih e(1) show ?thesis by (metis list.set_intros set_ConsD)
  qed
qed simp

text \<open>The paths a removal is about: log file, deployment directory, model cache.\<close>

definition cache_path :: "environment \<Rightarrow> deployment \<Rightarrow> string result" where
  "cache_path env d = (if d_model_cache_dir d = [] then deploymentModelCacheDir env (d_id d) else Inr (d_model_cache_dir d))"

lemma clean_abs_fix: "clean_abs p \<Longrightarrow> Clean p = p \<and> IsAbs p"
  by (simp add: clean_abs_def)

lemma Base_root [simp]: "Base [sep] = [sep]"
  by (simp add: Base_def Let_def trim_right_def)

lemma cache_path_ok:
  assumes "env_ok env" "cache_path env d = Inr p" "d_model_cache_dir d = [] \<or> clean_abs (d_model_cache_dir d)"
    "validateID (d_id d) = Inr ()" "modelCacheOwnedBy p d s = (Inr True, s')"
  shows "clean_abs p" "clean_parts p \<noteq> []"
proof -
  show c: "clean_abs p"
  proof (cases "d_model_cache_dir d = []")
    case True
    with assms(2) have "deploymentModelCacheDir env (d_id d) = Inr p" by (simp add: cache_path_def)
    with assms(1) obtain root where "IsAbs root" "p = Join [root, d_id d]" by (rule cache_dir_cases)
    then show ?thesis by (simp del: Join.simps)
  next
    case False
    with assms(2,3) show ?thesis by (simp add: cache_path_def)
  qed
  have "Base p = d_id d"
    using assms(5) clean_abs_fix [OF c] by (auto simp: modelCacheOwnedBy_def Let_def split: if_splits)
  moreover have "sep \<notin> set (d_id d)" using valid_id_chars [OF assms(4)] by simp
  ultimately have "p \<noteq> [sep]" by (metis Base_root list.set_intros(1))
  moreover have "p = sep # join_with [sep] (clean_parts p)"
    using clean_abs_fix [OF c] by (metis Clean_def unclean_def)
  ultimately show "clean_parts p \<noteq> []" by auto
qed


definition demo_env :: environment where
  "demo_env = \<lparr>getenv = (\<lambda>x. []), workspace_is_dir = False, user_home = Inr ''/h'', getwd = Inr ''/h''\<rparr>"

definition demo_owner :: deployment where
  "demo_owner = \<lparr>d_id = ''m-1'', d_alias = ''m'', d_artifact = ''o/m'', d_artifact_revision = ''sha'',
     d_model_cache_dir = ''/h/.iold/models/m-1'', d_port = 0, d_pid = 0, d_command = '''', d_started_at = zero_time,
     d_start_token = '''', d_phase = PhaseReady, d_failure_reason = '''', d_idempotency_key = ''k1'',
     d_created_at = 5, d_updated_at = 7\<rparr>"

definition demo_fs :: filesys where
  "demo_fs = \<lparr>entries =
     [([''h''], Dir perm_0700), ([''h'', ''.iold''], Dir perm_0700), ([''h'', ''.iold'', ''models''], Dir perm_0700),
      ([''h'', ''.iold'', ''models'', ''m-1''], Dir perm_0700),
      ([''h'', ''.iold'', ''models'', ''m-1'', ''.iold-owner''], File (''k1'' @ [CHR 0x0A]) perm_0600),
      ([''h'', ''.iold'', ''models'', ''m-1'', ''w''], File ''weights'' perm_0600),
      ([''h'', ''.iold'', ''models'', ''m-2''], Dir perm_0700)], fs_faults = []\<rparr>"

lemma demo_fs_linkless: "linkless demo_fs"
proof -
  have "(l, Link t) \<notin> set (entries demo_fs)" for l t by (simp add: demo_fs_def)
  then show ?thesis by (auto simp: linkless_def nodes_def dest: map_of_SomeD)
qed


section \<open>Claiming a model cache\<close>

lemma linkless_keeps': "linkless s \<Longrightarrow> keeps_files s s' \<Longrightarrow> linkless s'"
  unfolding linkless_def by (rule linkless_keeps)

lemma seg_owner [simp]: "seg modelCacheOwnerFile"
  by (simp add: seg_def modelCacheOwnerFile_def sep_def)

lemma marker_parts: "clean_abs p \<Longrightarrow> clean_parts (Join [p, modelCacheOwnerFile]) = clean_parts p @ [modelCacheOwnerFile]"
  using clean_parts_Join [of p "[modelCacheOwnerFile]"] by (simp add: clean_abs_def del: Join.simps)

lemma marker_abs: "clean_abs p \<Longrightarrow> clean_abs (Join [p, modelCacheOwnerFile])"
  by (simp add: clean_abs_def del: Join.simps)
    (metis Clean_idem Join_abs clean_abs_def clean_abs_fix join_abs)

lemma marker_loc: "linkless s \<Longrightarrow> clean_abs p \<Longrightarrow>
    loc s (Join [p, modelCacheOwnerFile]) = Some (clean_parts p @ [modelCacheOwnerFile]) \<and>
    entry_loc s (Join [p, modelCacheOwnerFile]) = Some (clean_parts p @ [modelCacheOwnerFile])"
  using loc_plain [OF marker_abs, of p s] entry_plain [OF marker_abs, of p s] marker_parts [of p]
  by (simp del: Join.simps)

lemma dir_loc: "linkless s \<Longrightarrow> clean_abs p \<Longrightarrow> loc s p = Some (clean_parts p)"
  by (rule loc_plain) simp_all

lemma trim_space_newline:
  assumes "trim_space key = key" "key \<noteq> []"
  shows "trim_space (key @ [CHR 0x0A]) = key"
proof -
  have nl: "is_space CHR 0x0A" by (simp add: is_space_def)
  have "\<not> is_space (hd key)"
  proof
    assume h: "is_space (hd key)"
    have "length (trim_space key) \<le> length (dropWhile is_space key)"
      using length_dropWhile_le [of is_space "rev (dropWhile is_space key)"]
      by (simp add: trim_space_def trim_def trim_left_def trim_right_def)
    also have "\<dots> < length key" using h assms(2) by (cases key) (simp_all add: less_Suc_eq_le length_dropWhile_le)
    finally show False using assms(1) by simp
  qed
  then have l: "dropWhile is_space (key @ [CHR 0x0A]) = key @ [CHR 0x0A]" "dropWhile is_space key = key"
    using assms(2) by (cases key; simp)+
  then have "trim_right is_space (key @ [CHR 0x0A]) = trim_right is_space key"
    using nl by (simp add: trim_right_def)
  moreover have "trim_right is_space key = key"
    using assms(1) l by (simp add: trim_space_def trim_def trim_left_def)
  ultimately show ?thesis using l by (simp add: trim_space_def trim_def trim_left_def)
qed

lemma write_marker_ok:
  assumes "write_marker p key s = (Inr u, s')" "linkless s" "clean_abs q" "p = Join [q, modelCacheOwnerFile]"
  shows "nodes s (clean_parts q @ [modelCacheOwnerFile]) = None \<and>
    (\<exists>m. nodes s' (clean_parts q @ [modelCacheOwnerFile]) = Some (File (key @ [CHR 0x0A]) m))"
proof -
  let ?l = "clean_parts q @ [modelCacheOwnerFile]"
  obtain a s1 where 1: "CreateExcl p perm_0600 s = (a, s1)" by fastforce
  with assms(1) obtain l where l: "a = Inr l" by (auto simp: write_marker_def split: sum.splits)
  have c: "l = ?l" "nodes s ?l = None" "nodes s1 = (nodes s)(?l \<mapsto> File [] perm_0600)"
    using 1 l marker_loc [OF assms(2,3)] assms(4) unfolding CreateExcl_def
    by (auto elim!: fs_callE simp: nothing_def simp del: Join.simps split: option.splits if_splits)
  obtain b s2 where 2: "WriteOpen l (key @ [CHR 0x0A]) s1 = (b, s2)" by fastforce
  with assms(1) 1 l obtain w where b: "b = Inr w" by (auto simp: write_marker_def split: sum.splits)
  have n2: "nodes s2 ?l = Some (File (key @ [CHR 0x0A]) perm_0600)"
    using 2 b c unfolding WriteOpen_def by (auto elim!: fs_callE simp: nothing_def)
  obtain d s3 where 3: "ChmodOpen l perm_0600 s2 = (d, s3)" by fastforce
  have n3: "\<exists>m. nodes s3 ?l = Some (File (key @ [CHR 0x0A]) m)"
    using 3 c n2 unfolding ChmodOpen_def by (auto elim!: fs_callE simp: nothing_def)
  have "nodes s' = nodes s3"
    using assms(1) 1 2 3 l b reads_keep(5) [of s3] by (auto simp: write_marker_def split: sum.splits)
  with c n3 show ?thesis by simp
qed

lemma ReadDir_names:
  assumes "ReadDir p s = (Inr names, s')" "linkless s" "clean_abs p" "names = []"
  shows "nodes s (clean_parts p @ [c]) = None"
proof -
  have "children s (clean_parts p) = []"
    using assms dir_loc [OF assms(2,3)] unfolding ReadDir_def children_def
    by (auto elim!: fs_callE simp: nothing_def split: option.splits node.splits)
  then have "(clean_parts p @ [c], n) \<notin> set (entries s)" for n
    by (force simp: children_def filter_empty_conv)
  then show ?thesis by (auto simp: nodes_def map_of_eq_None_iff)
qed

text \<open>What a successful claim leaves: a directory with the deployment's marker.\<close>

lemma prepareModelCache_ok:
  assumes "prepareModelCache path i key s = (Inr u, s')" "linkless s" "clean_abs path" "trim_space key = key"
  shows "keeps_files s s' \<and> (\<exists>m. nodes s' (clean_parts path) = Some (Dir m)) \<and>
    (\<exists>c m. nodes s' (clean_parts path @ [modelCacheOwnerFile]) = Some (File c m) \<and> trim_space c = key) \<and>
    (\<forall>c m. nodes s (clean_parts path @ [modelCacheOwnerFile]) = Some (File c m) \<longrightarrow> trim_space c = key) \<and>
    key \<noteq> [] \<and> Base path = i"
proof -
  let ?cl = "clean_parts path" and ?ml = "clean_parts path @ [modelCacheOwnerFile]"
  let ?m = "Join [path, modelCacheOwnerFile]"
  have cl: "Clean path = path" "IsAbs path" using clean_abs_fix [OF assms(3)] by auto
  obtain a s1 where 1: "MkdirAll path perm_0700 s = (a, s1)" by fastforce
  obtain b s2 where 2: "Lstat path s1 = (b, s2)" by fastforce
  obtain c s3 where 3: "Chmod path perm_0700 s2 = (c, s3)" by fastforce
  obtain d s4 where 4: "ReadFile ?m s3 = (d, s4)" by fastforce
  obtain e s5 where 5: "ReadDir path s4 = (e, s5)" by fastforce
  note pre = prepareModelCache_def [of path i key s] cl 1 2 3 4 5
  have g: "key \<noteq> []" "Base path = i"
    using assms(1) by (rule_tac ccontr, simp add: pre del: Join.simps)+
  have A: "a = Inr ()" using assms(1) g by (cases a) (simp_all add: pre del: Join.simps)
  have B: "\<exists>m. b = Inr (Dir m)"
  proof (cases b)
    case (Inl er)
    with assms(1) g A show ?thesis by (simp add: pre del: Join.simps)
  next
    case (Inr n)
    with assms(1) g A show ?thesis by (cases n) (simp_all add: pre del: Join.simps)
  qed
  then obtain mb where B': "b = Inr (Dir mb)" by blast
  have C: "c = Inr ()" using assms(1) g A B' by (cases c) (simp_all add: pre del: Join.simps)
  have k1: "keeps_files s s1" "keeps_files s1 s2" "keeps_files s2 s3" "keeps_files s3 s4" "keeps_files s4 s5"
    using MkdirAll_keeps [OF 1] Chmod_keeps [OF 3] keeps_nodes [OF reads_keep(2) [OF 2]]
      keeps_nodes [OF reads_keep(3) [OF 4]] keeps_nodes [OF reads_keep(4) [OF 5]] by auto
  have l1: "linkless s1" using assms(2) k1(1) by (rule linkless_keeps')
  have l2: "linkless s2" using l1 k1(2) by (rule linkless_keeps')
  have l3: "linkless s3" using l2 k1(3) by (rule linkless_keeps')
  have l4: "linkless s4" using l3 k1(4) by (rule linkless_keeps')
  have "linkless s5" using l4 k1(5) by (rule linkless_keeps')
  note l = l1 l2 l3 l4 this
  have k2: "keeps_files s2 s4" using k1(3,4) by (rule keeps_trans)
  have "keeps_files s s2" using k1(1,2) by (rule keeps_trans)
  then have k4: "keeps_files s s4" "keeps_files s2 s4" using k2 by (auto intro: keeps_trans)
  have n4: "nodes s4 = nodes s3" using reads_keep(3) [OF 4] .
  have dir2: "\<exists>m. nodes s2 ?cl = Some (Dir m)"
  proof -
    obtain m where "b = Inr (Dir m)" using B by blast
    then have "Lstat path s1 = (Inr (Dir m), s2)" using 2 by simp
    moreover have "entry_loc s1 path = Some ?cl"
    proof (cases "?cl = []")
      case True
      then show ?thesis using elements_clean_abs [OF assms(3)]
        by (simp add: entry_loc_def loc_def)
    next
      case False
      then show ?thesis using l(1) assms(3) by (intro entry_plain) simp_all
    qed
    ultimately have "nodes s1 ?cl = Some (Dir m)" unfolding Lstat_def
      by (auto elim!: fs_callE simp: nothing_def get_def split: option.splits)
    then show ?thesis using reads_keep(2) [OF 2] by simp
  qed
  have old: "\<exists>m. nodes s3 ?ml = Some (File x m)" if "nodes s ?ml = Some (File x n)" for x n
    using keeps_file [OF k4(1) that] n4 by simp
  show ?thesis
  proof (cases d)
    case (Inr x)
    then have ch: "trim_space x = key" "Chmod ?m perm_0600 s4 = (Inr u, s')"
      using assms(1) g A B' C by (simp_all add: pre del: Join.simps split: if_splits)
    from ReadFile_ok [OF 4 [unfolded Inr]] marker_loc [OF l(3) assms(3)] obtain m where
      m: "nodes s3 ?ml = Some (File x m)" by (auto simp: node_at_def simp del: Join.simps)
    have k: "keeps_files s4 s'" using Chmod_keeps [OF ch(2)] .
    have "keeps_files s s'" "keeps_files s2 s'" using k4 k keeps_trans by metis+
    moreover have "\<exists>m. nodes s' ?ml = Some (File x m)" using keeps_file [OF k, of ?ml x m] m n4 by simp
    moreover have "\<exists>m. nodes s' ?cl = Some (Dir m)" using keeps_dir [OF \<open>keeps_files s2 s'\<close>] dir2 by blast
    moreover have "trim_space y = key" if "nodes s ?ml = Some (File y n)" for y n
      using old [OF that] m ch(1) by auto
    ultimately show ?thesis using ch(1) g by blast
  next
    case (Inl er)
    then have wm: "e = Inr []" "write_marker ?m key s5 = (Inr u, s')"
      using assms(1) g A B' C by (auto simp: pre simp del: Join.simps split: if_splits sum.splits)
    have n5: "nodes s5 = nodes s4" using reads_keep(4) [OF 5] .
    from write_marker_ok [OF wm(2) l(5) assms(3) refl] obtain m where
      w: "nodes s5 ?ml = None" "nodes s' ?ml = Some (File (key @ [CHR 0x0A]) m)" by blast
    have k: "keeps_files s5 s'" using write_marker_keeps [OF wm(2)] .
    have k5: "keeps_files s4 s'" using k1(5) k by (rule keeps_trans)
    have "keeps_files s s'" "keeps_files s2 s'" using k4 k5 keeps_trans by metis+
    moreover have "\<exists>m. nodes s' ?cl = Some (Dir m)" using keeps_dir [OF \<open>keeps_files s2 s'\<close>] dir2 by blast
    moreover have "nodes s ?ml \<noteq> Some (File y n)" for y n using old [of y n] w(1) n4 n5 by auto
    ultimately show ?thesis using g w(2) trim_space_newline [OF assms(4) g(1)] by blast
  qed
qed





section \<open>The API key file\<close>

fun set_mode :: "nat \<Rightarrow> node \<Rightarrow> node" where
  "set_mode m (Dir x) = Dir m"
| "set_mode m (File c x) = File c m"
| "set_mode m (Link t) = Link t"

lemma Chmod_ok:
  assumes "Chmod p mode s = (Inr u, s')" "loc s p = Some l"
  shows "\<exists>n. nodes s l = Some n \<and> nodes s' = (nodes s)(l \<mapsto> set_mode mode n)"
  using assms unfolding Chmod_def
  by (elim fs_callE) (auto simp: nothing_def split: option.splits node.splits)

lemma WriteFile_ok:
  assumes "WriteFile p text mode s = (Inr u, s')" "loc s p = Some l"
  shows "\<exists>m. nodes s' = (nodes s)(l \<mapsto> File text m)"
  using assms unfolding WriteFile_def
  by (elim fs_callE) (auto simp: nothing_def split: option.splits node.splits if_splits)

lemma api_key_seg [simp]: "seg ''api-key''"
  by (simp add: seg_def sep_def)

text \<open>
  The API key is private to the user: when \<open>writeAPIKey\<close> succeeds, on a file system without
  links, the key file below the deployment's own directory holds the key and a newline with mode 0600
  and the directory has mode 0700, whatever was there before.
\<close>

theorem api_key_private:
  assumes "writeAPIKey env i key s = (Inr u, s')" "env_ok env" "linkless s"
  shows "\<exists>root. Abs env (stateDir env) = Inr root \<and>
    nodes s' (clean_parts root @ [''deployments'', i, ''api-key'']) = Some (File (key @ [CHR 0x0A]) perm_0600) \<and>
    nodes s' (clean_parts root @ [''deployments'', i]) = Some (Dir perm_0700)"
proof -
  obtain ps where ps: "ownedPaths env i = Inr ps" using assms(1) by (auto simp: writeAPIKey_def split: sum.splits)
  from assms(2) this obtain root where root: "validateID i = Inr ()" "Abs env (stateDir env) = Inr root" "IsAbs root"
    "ps = [Join [root, ''logs'', i @ ''.log''], Join [root, ''deployments'', i]]" by (rule ownedPaths_cases)
  let ?d = "Join [root, ''deployments'', i]"
  let ?f = "Join [?d, ''api-key'']"
  have cd: "clean_abs ?d" "IsAbs ?d" using root(3) by (simp_all del: Join.simps)
  have pd: "clean_parts ?d = clean_parts root @ [''deployments'', i]" using owned_parts(2) [OF root(3,1)] .
  have cf: "clean_abs ?f" using cd(2) by (simp only: clean_abs_Join)
  have pf: "clean_parts ?f = clean_parts root @ [''deployments'', i, ''api-key'']"
    using clean_parts_Join [OF cd(2), of "[''api-key'']"] pd by (simp del: Join.simps)
  have dir: "ps ! Suc 0 = ?d" using root(4) by (simp del: Join.simps)
  obtain a s1 where 1: "MkdirAll ?d perm_0700 s = (a, s1)" by fastforce
  obtain b s2 where 2: "Chmod ?d perm_0700 s1 = (b, s2)" by fastforce
  obtain c s3 where 3: "WriteFile ?f (key @ [CHR 0x0A]) perm_0600 s2 = (c, s3)" by fastforce
  note pre = writeAPIKey_def [of env i key s] ps dir 1 2 3
  have A: "a = Inr ()" using assms(1) by (cases a) (simp_all add: pre Let_def del: Join.simps)
  have B: "b = Inr ()" using assms(1) A by (cases b) (simp_all add: pre Let_def del: Join.simps)
  have C: "c = Inr ()" "Chmod ?f perm_0600 s3 = (Inr u, s')"
    using assms(1) A B by (cases c; simp add: pre Let_def del: Join.simps)+
  have l1: "linkless s1" using assms(3) MkdirAll_keeps [OF 1] by (rule linkless_keeps')
  have l2: "linkless s2" using l1 Chmod_keeps [OF 2] by (rule linkless_keeps')
  from Chmod_ok [OF 2 [unfolded B] dir_loc [OF l1 cd(1)]] obtain n where
    n: "nodes s1 (clean_parts ?d) = Some n" "nodes s2 = (nodes s1)(clean_parts ?d \<mapsto> set_mode perm_0700 n)" by blast
  have is_dir: "\<exists>m. n = Dir m"
  proof -
    obtain fs where "make_dirs perm_0700 [] (clean_parts ?d) (s\<lparr>fs_faults := fs\<rparr>) = (Inr (), s1)"
      using 1 A dir_loc [OF assms(3) cd(1)] unfolding MkdirAll_def
      by (auto elim!: fs_callE simp: nothing_def simp del: Join.simps split: if_splits)
    from make_dirs_ok [OF this, of "clean_parts ?d"] n(1) show ?thesis unfolding pd by (auto simp: strict_prefix_def)
  qed
  from WriteFile_ok [OF 3 [unfolded C(1)] dir_loc [OF l2 cf]] obtain m where
    w: "nodes s3 = (nodes s2)(clean_parts ?f \<mapsto> File (key @ [CHR 0x0A]) m)" by blast
  have "\<forall>l t. nodes s3 l \<noteq> Some (Link t)" using l2 w by (auto simp: linkless_def)
  then have l3: "linkless s3" by (simp add: linkless_def)
  from Chmod_ok [OF C(2) dir_loc [OF l3 cf]] w have
    "nodes s' = (nodes s2)(clean_parts ?f \<mapsto> File (key @ [CHR 0x0A]) perm_0600)" by auto
  moreover have "clean_parts ?f \<noteq> clean_parts ?d" unfolding pf pd by simp
  ultimately show ?thesis using n is_dir root(2) pd pf by auto
qed

theorem api_key_private_witness:
  "nodes (snd (writeAPIKey demo_env ''m-1'' ''iold-00'' demo_fs)) [''h'', ''.iold'', ''deployments'', ''m-1'', ''api-key''] =
     Some (File (''iold-00'' @ [CHR 0x0A]) perm_0600)"
proof -
  let ?r = "writeAPIKey demo_env ''m-1'' ''iold-00'' demo_fs"
  have "fst ?r = Inr ()" "env_ok demo_env" by code_simp+
  then have r: "?r = (Inr (), snd ?r)" by (simp add: prod_eq_iff)
  have "Abs demo_env (stateDir demo_env) = Inr ''/h/.iold''" by code_simp
  moreover have "clean_parts ''/h/.iold'' = [''h'', ''.iold'']" by code_simp
  ultimately show ?thesis
    using api_key_private [OF r \<open>env_ok demo_env\<close> demo_fs_linkless] by auto
qed

text \<open>
  The ownership check looks at the cleaned path, the removal at the recorded text: for a record whose
  cache path is not clean and passes a link, they are different directories, and the one removed has no
  marker. (The deploy command only records clean paths.)
\<close>

definition crossed_fs :: filesys where
  "crossed_fs = \<lparr>entries =
     [([''a''], Dir perm_0700), ([''b''], Dir perm_0700), ([''b'', ''x''], Dir perm_0700), ([''a'', ''link''], Link [''b'', ''x'']),
      ([''a'', ''m-1''], Dir perm_0700), ([''a'', ''m-1'', ''.iold-owner''], File (''k1'' @ [CHR 0x0A]) perm_0600),
      ([''b'', ''m-1''], Dir perm_0700), ([''b'', ''m-1'', ''data''], File ''mine'' perm_0600)], fs_faults = []\<rparr>"

lemma unclean_cache_dir_misdirects:
  "fst (removeOwnedData demo_env (demo_owner\<lparr>d_model_cache_dir := ''/a/link/../m-1''\<rparr>) crossed_fs) = Inr () \<and>
   nodes (snd (removeOwnedData demo_env (demo_owner\<lparr>d_model_cache_dir := ''/a/link/../m-1''\<rparr>) crossed_fs))
     [''b'', ''m-1'', ''data''] = None \<and>
   nodes (snd (removeOwnedData demo_env (demo_owner\<lparr>d_model_cache_dir := ''/a/link/../m-1''\<rparr>) crossed_fs))
     [''a'', ''m-1'', ''.iold-owner''] \<noteq> None"
  by code_simp

end
