(* ===== verification/Lifecycle.thy ===== *)
theory Lifecycle imports StoreSpec Supervisor Ownership begin

text \<open>
  The lifecycle commands of internal/cli/cli.go: recovery of interrupted deployments, destroy, status,
  and the target of logs. The world is the state database, the operating system, the file system, the
  environment and the text printed so far; \<open>time.Now()\<close> is the clock of the operating
  system. \<open>lock_err\<close> and \<open>open_err\<close> are the answers of the calls that take the operation
  lock and open the database file.
\<close>

record world =
  db :: store
  osy :: os
  fsys :: filesys
  envr :: environment
  lock_err :: "goerr option"
  open_err :: "goerr option"
  out :: "string list"

definition on_db :: "(store \<Rightarrow> 'a \<times> store) \<Rightarrow> world \<Rightarrow> 'a \<times> world" where
  "on_db f w = (case f (db w) of (r, s) \<Rightarrow> (r, w\<lparr>db := s\<rparr>))"

definition on_os :: "(os \<Rightarrow> 'a \<times> os) \<Rightarrow> world \<Rightarrow> 'a \<times> world" where
  "on_os f w = (case f (osy w) of (r, s) \<Rightarrow> (r, w\<lparr>osy := s\<rparr>))"

definition on_fs :: "(filesys \<Rightarrow> 'a \<times> filesys) \<Rightarrow> world \<Rightarrow> 'a \<times> world" where
  "on_fs f w = (case f (fsys w) of (r, s) \<Rightarrow> (r, w\<lparr>fsys := s\<rparr>))"

definition say :: "string \<Rightarrow> world \<Rightarrow> world" where
  "say msg w = w\<lparr>out := out w @ [msg]\<rparr>"

definition transition :: "string \<Rightarrow> phase \<Rightarrow> phase \<Rightarrow> string \<Rightarrow> world \<Rightarrow> unit result \<times> world" where
  "transition i p q reason w = on_db (Transition (clock (osy w)) i p q reason) w"

definition open_state :: "world \<Rightarrow> unit result \<times> world" where
  "open_state w = (case open_err w of Some e \<Rightarrow> (Inl e, w) | None \<Rightarrow> on_db migrate w)"

definition deploymentProcess :: "deployment \<Rightarrow> process" where
  "deploymentProcess d = \<lparr>pr_pid = d_pid d, pr_command = d_command d, pr_log_path = [],
     pr_started_at = d_started_at d, pr_start_token = d_start_token d\<rparr>"

section \<open>Recovery\<close>

text \<open>The adoption of a process for a STARTING intent, if exactly one candidate is found.\<close>

definition adopt :: "deployment \<Rightarrow> world \<Rightarrow> deployment result \<times> world" where
  "adopt d w =
     (if d_phase d = PhaseStarting \<and> d_pid d = 0 \<and> d_command d \<noteq> []
      then case on_os (FindByCommand (d_command d) (d_updated_at d)) w of
             (Inl e, w1) \<Rightarrow> (Inl (Errorf ''recover deployment %s: %w'' [ArgS (d_id d), ArgW e]), w1)
           | (Inr [m], w1) \<Rightarrow>
               (case on_db (SetRuntime (clock (osy w1)) (d_id d) (pr_pid m) (d_port d) (pr_command m)
                       (pr_started_at m) (pr_start_token m)) w1 of
                  (Inl e, w2) \<Rightarrow> (Inl e, w2)
                | (Inr u, w2) \<Rightarrow> (Inr (d\<lparr>d_pid := pr_pid m, d_command := pr_command m,
                      d_started_at := pr_started_at m, d_start_token := pr_start_token m\<rparr>), w2))
           | (Inr ms, w1) \<Rightarrow> (Inr d, w1)
      else (Inr d, w))"

definition settle :: "deployment \<Rightarrow> world \<Rightarrow> unit result \<times> world" where
  "settle d w =
     (if d_pid d = 0
      then transition (d_id d) (d_phase d) PhaseCrashed
             ''lifecycle operation was interrupted before a runtime identity was recorded'' w
      else case on_os (Reconcile (deploymentProcess d)) w of
             (StatusRunning, w1) \<Rightarrow>
               (if d_phase d = PhaseRequested \<or> d_phase d = PhaseValidating \<or>
                   d_phase d = PhaseDownloading \<or> d_phase d = PhaseStarting
                then transition (d_id d) (d_phase d) PhaseCrashed
                       ''lifecycle operation was interrupted; runtime adopted for cleanup'' w1
                else (Inr (), w1))
           | (StatusStale, w1) \<Rightarrow>
               transition (d_id d) (d_phase d) PhaseCrashed ''runtime process is no longer running'' w1
           | (StatusReused, w1) \<Rightarrow>
               transition (d_id d) (d_phase d) PhaseCrashed
                 ''runtime PID identity no longer matches the recorded process'' w1
           | (StatusUnknown, w1) \<Rightarrow>
               (Inl (Errorf ''reconcile deployment %s: runtime identity for pid %d is unavailable''
                  [ArgS (d_id d), ArgD (d_pid d)]), w1))"

fun recover_loop :: "deployment list \<Rightarrow> world \<Rightarrow> unit result \<times> world" where
  "recover_loop [] w = (Inr (), w)"
| "recover_loop (d # ds) w =
     (if d_phase d = PhaseDestroyed \<or> d_phase d = PhaseDestroying \<or> d_phase d = PhaseFailed \<or> d_phase d = PhaseCrashed
      then recover_loop ds w
      else case adopt d w of
             (Inl e, w1) \<Rightarrow> (Inl e, w1)
           | (Inr d1, w1) \<Rightarrow>
             (case settle d1 w1 of
                (Inl e, w2) \<Rightarrow> (Inl e, w2)
              | (Inr u, w2) \<Rightarrow> recover_loop ds w2))"

definition recoverInterruptedDeployments :: "world \<Rightarrow> unit result \<times> world" where
  "recoverInterruptedDeployments w =
     (case on_db ListAll w of
        (Inl e, w1) \<Rightarrow> (Inl e, w1)
      | (Inr ds, w1) \<Rightarrow> recover_loop ds w1)"

section \<open>Destroy\<close>

text \<open>The switch at the top: the phase the destruction goes on from.\<close>

definition mark_destroying :: "deployment \<Rightarrow> world \<Rightarrow> phase result \<times> world" where
  "mark_destroying d w =
     (if d_phase d = PhaseDestroyed then (Inr PhaseDestroyed, w)
      else if d_phase d = PhaseDestroying then (Inr PhaseDestroying, w)
      else if d_phase d = PhaseReady \<or> d_phase d = PhaseFailed \<or> d_phase d = PhaseCrashed \<or>
              d_phase d = PhaseUnregisteredHealthy
        then (case transition (d_id d) (d_phase d) PhaseDestroying [] w of
                (Inl e, w1) \<Rightarrow> (Inl e, w1) | (Inr u, w1) \<Rightarrow> (Inr PhaseDestroying, w1))
      else (case transition (d_id d) (d_phase d) PhaseFailed ''destroy requested'' w of
              (Inl e, w1) \<Rightarrow> (Inl e, w1)
            | (Inr u, w1) \<Rightarrow>
              (case transition (d_id d) PhaseFailed PhaseDestroying [] w1 of
                 (Inl e, w2) \<Rightarrow> (Inl e, w2) | (Inr u, w2) \<Rightarrow> (Inr PhaseDestroying, w2))))"

definition stop_runtime :: "deployment \<Rightarrow> world \<Rightarrow> unit result \<times> world" where
  "stop_runtime d w =
     (let p = deploymentProcess d in
      case on_os (Reconcile p) w of
        (StatusRunning, w1) \<Rightarrow>
          (case on_os (Stop p (10 * 10 ^ 9)) w1 of
             (Inl e, w2) \<Rightarrow> (Inl (wrapf ''stop runtime: %w'' e), w2)
           | (Inr u, w2) \<Rightarrow> (Inr (), say (d_id d @ '': runtime process '' @ itoa (d_pid d) @ '' stopped'') w2))
      | (StatusReused, w1) \<Rightarrow>
          (Inl (Errorf ''stop runtime: %w: pid %d identity no longer matches''
             [ArgW (Sentinel ErrNotOwned), ArgD (d_pid d)]), w1)
      | (StatusStale, w1) \<Rightarrow>
          (case on_os (Stop p (10 * 10 ^ 9)) w1 of
             (Inl e, w2) \<Rightarrow> (Inl (wrapf ''stop runtime: %w'' e), w2)
           | (Inr u, w2) \<Rightarrow> (Inr (), w2))
      | (StatusUnknown, w1) \<Rightarrow>
          (Inl (Errorf ''stop runtime: %w: identity for pid %d is unavailable''
             [ArgW (Sentinel ErrNotOwned), ArgD (d_pid d)]), w1))"

definition finish_destroy :: "deployment \<Rightarrow> world \<Rightarrow> unit result \<times> world" where
  "finish_destroy d w =
     (case on_fs (removeOwnedData (envr w) d) w of
        (Inl e, w1) \<Rightarrow> (Inl e, w1)
      | (Inr u, w1) \<Rightarrow>
        (case transition (d_id d) PhaseDestroying PhaseDestroyed [] w1 of
           (Inl e, w2) \<Rightarrow> (Inl e, w2)
         | (Inr u, w2) \<Rightarrow> (Inr (), say (d_id d @ '': destroyed'') w2)))"

definition purge_record :: "deployment \<Rightarrow> bool \<Rightarrow> world \<Rightarrow> unit result \<times> world" where
  "purge_record d purge w =
     (if purge
      then case on_db (Delete (d_id d)) w of
             (Inl e, w1) \<Rightarrow> (Inl e, w1)
           | (Inr u, w1) \<Rightarrow> (Inr (), say (d_id d @ '': state record purged'') w1)
      else (Inr (), w))"

definition destroyOne :: "deployment \<Rightarrow> bool \<Rightarrow> world \<Rightarrow> unit result \<times> world" where
  "destroyOne d purge w =
     (case mark_destroying d w of
        (Inl e, w1) \<Rightarrow> (Inl e, w1)
      | (Inr ph, w1) \<Rightarrow>
        (case (if ph = PhaseDestroying \<and> d_pid d > 0 then stop_runtime d w1 else (Inr (), w1)) of
           (Inl e, w2) \<Rightarrow> (Inl e, w2)
         | (Inr u, w2) \<Rightarrow>
           (case (if ph = PhaseDestroying then finish_destroy d w2 else (Inr (), w2)) of
              (Inl e, w3) \<Rightarrow> (Inl e, w3)
            | (Inr u, w3) \<Rightarrow> purge_record d purge w3)))"

fun destroy_loop :: "bool \<Rightarrow> goerr option \<Rightarrow> deployment list \<Rightarrow> world \<Rightarrow> goerr option \<times> world" where
  "destroy_loop purge first [] w = (first, w)"
| "destroy_loop purge first (d # ds) w =
     (case destroyOne d purge w of
        (Inl e, w1) \<Rightarrow> destroy_loop purge (if first = None then Some e else first) ds
            (say (''destroy '' @ d_id d @ '': '' @ error_text e) w1)
      | (Inr u, w1) \<Rightarrow> destroy_loop purge first ds w1)"

definition destroy_usage :: goerr where
  "destroy_usage = Errorf ''%w: iold destroy <deployment>|--all [--purge]'' [ArgW (Sentinel ErrUsage)]"

text \<open>The argument loop: \<open>(all, purge, id)\<close>, or a usage error.\<close>

fun destroy_args :: "bool \<Rightarrow> bool \<Rightarrow> string \<Rightarrow> string list \<Rightarrow> (bool \<times> bool \<times> string) result" where
  "destroy_args all purge i [] = (if all = (i \<noteq> []) then Inl destroy_usage else Inr (all, purge, i))"
| "destroy_args all purge i (a # as) =
     (if a = ''--all'' then destroy_args True purge i as
      else if a = ''--purge'' then destroy_args all True i as
      else if i = [] \<and> \<not> has_prefix a ''-'' then destroy_args all purge a as
      else Inl destroy_usage)"

definition runDestroy :: "string list \<Rightarrow> world \<Rightarrow> unit result \<times> world" where
  "runDestroy args w =
     (case destroy_args False False [] args of
        Inl e \<Rightarrow> (Inl e, w)
      | Inr (all, purge, i) \<Rightarrow>
        (case lock_err w of Some e \<Rightarrow> (Inl e, w)
         | None \<Rightarrow>
           (case open_state w of
              (Inl e, w1) \<Rightarrow> (Inl e, w1)
            | (Inr u, w1) \<Rightarrow>
              (case recoverInterruptedDeployments w1 of
                 (Inl e, w2) \<Rightarrow> (Inl e, w2)
               | (Inr u, w2) \<Rightarrow>
                 (case (if all then on_db ListAll w2
                        else case on_db (Get i) w2 of (Inl e, w3) \<Rightarrow> (Inl e, w3) | (Inr d, w3) \<Rightarrow> (Inr [d], w3)) of
                    (Inl e, w3) \<Rightarrow> (Inl e, w3)
                  | (Inr ds, w3) \<Rightarrow>
                    (case destroy_loop purge None ds w3 of
                       (first, w4) \<Rightarrow>
                         (case first of Some e \<Rightarrow> Inl e | None \<Rightarrow> Inr (),
                          say ''Note: the RunPod Pod itself is still running and billing continues until you stop it in the RunPod console.'' w4)))))))"

section \<open>Status and logs\<close>

definition status_usage :: goerr where
  "status_usage = Errorf ''%w: iold status [deployment] [--json]'' [ArgW (Sentinel ErrUsage)]"

fun status_args :: "string \<Rightarrow> bool \<Rightarrow> string list \<Rightarrow> (string \<times> bool) result" where
  "status_args i asJSON [] = Inr (i, asJSON)"
| "status_args i asJSON (a # as) =
     (if a = ''--json'' then status_args i True as
      else if i = [] then status_args a asJSON as
      else Inl status_usage)"

text \<open>
  What status reports: the deployments it prints. \<open>lock_err\<close> is the answer of
  \<open>TryAcquire\<close>; when another command holds the lock, nothing is recovered.
\<close>

definition runStatus :: "string list \<Rightarrow> world \<Rightarrow> (deployment list) result \<times> world" where
  "runStatus args w =
     (case status_args [] False args of
        Inl e \<Rightarrow> (Inl e, w)
      | Inr (i, asJSON) \<Rightarrow>
        (if lock_err w \<noteq> None \<and> \<not> errors_is ErrBusy (the (lock_err w)) then (Inl (the (lock_err w)), w)
         else case open_state w of
           (Inl e, w1) \<Rightarrow> (Inl e, w1)
         | (Inr u, w1) \<Rightarrow>
           (case (if lock_err w = None then recoverInterruptedDeployments w1 else (Inr (), w1)) of
              (Inl e, w2) \<Rightarrow> (Inl e, w2)
            | (Inr u, w2) \<Rightarrow>
              (if i \<noteq> []
               then case on_db (Get i) w2 of (Inl e, w3) \<Rightarrow> (Inl e, w3) | (Inr d, w3) \<Rightarrow> (Inr [d], w3)
               else on_db ListAll w2))))"

definition resolveTarget :: "string list \<Rightarrow> world \<Rightarrow> deployment result \<times> world" where
  "resolveTarget args w =
     (if length args = 1 then on_db (Get (args ! 0)) w
      else case on_db ListAll w of
             (Inl e, w1) \<Rightarrow> (Inl e, w1)
           | (Inr [], w1) \<Rightarrow> (Inl (Sentinel ErrNotFound), w1)
           | (Inr [d], w1) \<Rightarrow> (Inr d, w1)
           | (Inr ds, w1) \<Rightarrow> (Inl (Opaque ''multiple deployments exist; specify one''), w1))"

section \<open>Frames\<close>

lemma on_db_eq: "on_db f w = (r, w') \<longleftrightarrow> (\<exists>s. f (db w) = (r, s) \<and> w' = w\<lparr>db := s\<rparr>)"
  by (auto simp: on_db_def split: prod.splits)

lemma on_os_eq: "on_os f w = (r, w') \<longleftrightarrow> (\<exists>s. f (osy w) = (r, s) \<and> w' = w\<lparr>osy := s\<rparr>)"
  by (auto simp: on_os_def split: prod.splits)

lemma on_fs_eq: "on_fs f w = (r, w') \<longleftrightarrow> (\<exists>s. f (fsys w) = (r, s) \<and> w' = w\<lparr>fsys := s\<rparr>)"
  by (auto simp: on_fs_def split: prod.splits)

lemma transition_eq: "transition i p q why w = (r, w') \<longleftrightarrow>
    (\<exists>s. Transition (clock (osy w)) i p q why (db w) = (r, s) \<and> w' = w\<lparr>db := s\<rparr>)"
  by (simp add: transition_def on_db_eq)

lemma say_fields [simp]: "db (say m w) = db w" "osy (say m w) = osy w" "fsys (say m w) = fsys w" "envr (say m w) = envr w"
  by (simp_all add: say_def)

lemmas lift_eqs = on_db_eq on_os_eq on_fs_eq transition_eq

text \<open>Deployments other than the one an operation names stay as they are.\<close>

lemma deployments_row: "row_at (rows s') j = row_at (rows s) j \<Longrightarrow> deployments s' j = deployments s j"
  by (simp add: deployments_def)

lemma Transition_other:
  assumes "store_inv s" "Transition now i p q why s = (res, s')" "j \<noteq> i"
  shows "deployments s' j = deployments s j"
  using Transition_cases [OF assms(1,2)] assms(3) by (auto intro: deployments_row simp: same_data_def)

lemma SetRuntime_frame:
  assumes "SetRuntime now i pid port cmd st tok s = (res, s')" "store_inv s"
  shows "store_inv s' \<and> phase_at s' = phase_at s \<and> (j \<noteq> i \<longrightarrow> deployments s' j = deployments s j)"
proof -
  have inv: "store_inv s'" using runtime_step [OF assms] by blast
  show ?thesis
    using SetRuntime_guarded [of i now pid port cmd st tok s, unfolded assms(1)]
  proof (cases rule: guarded_cases)
    case (refused e)
    from same_data_rows(1) [OF refused(2)] have "phase_at s' = phase_at s" "deployments s' j = deployments s j"
      by (simp_all add: phase_at_def deployments_def fun_eq_iff)
    with inv show ?thesis by simp
  next
    case (written r)
    have rid: "r_id (runtime_row now pid port cmd st tok x) = r_id x" for x by (simp add: runtime_row_def)
    have rph: "r_phase (runtime_row now pid port cmd st tok x) = r_phase x" for x by (simp add: runtime_row_def)
    have "row_at (rows s') j = row_at (rows s) j" if "j \<noteq> i"
    proof (cases "row_at (rows s) j")
      case None
      with same_data_rows(1) [OF written(3)] show ?thesis by (simp add: row_at_update [OF rid])
    next
      case (Some x)
      from row_at_Some [OF Some] that have "\<not> in_phase i PhaseStarting x" by (auto simp: in_phase_def)
      with Some same_data_rows(1) [OF written(3)] show ?thesis by (simp add: row_at_update [OF rid])
    qed
    with inv phase_at_update_same [OF written(3) rid rph] show ?thesis by (blast intro: deployments_row)
  qed
qed

lemma deployments_phase:
  assumes "store_inv s" "deployments s i = Some d"
  shows "phase_at s i = Some (d_phase d)" "d_id d = i"
proof -
  from assms(2) obtain r where r: "row_at (rows s) i = Some r" "scanDeployment r = Inr d"
    by (auto simp: deployments_def split: option.splits sum.splits)
  with scan_phase [of r d] show "phase_at s i = Some (d_phase d)" by (simp add: phase_at_def)
  from scan_phase [OF r(2)] row_at_Some [OF r(1)] show "d_id d = i" by simp
qed

lemma phase_deployments: "store_inv s \<Longrightarrow> phase_at s i = map_option d_phase (deployments s i)"
  using deployments_None [of s i] deployments_phase(1) [of s i]
  by (cases "deployments s i") (auto simp: phase_at_def)

lemma ListAll_result:
  assumes "store_inv s" "ListAll s = (Inr ds, s')"
  shows "same_data s s' \<and> (\<forall>d. d \<in> set ds \<longleftrightarrow> deployments s (d_id d) = Some d) \<and> distinct (map d_id ds)"
proof -
  let ?key = "\<lambda>r. (r_created_at r, r_id r)"
  obtain q s1 where q: "sql_select (\<lambda>r. True) s = (q, s1)" by fastforce
  with assms(2) obtain rs where rs: "q = Inr rs" "scan_all (sort_key ?key rs) = Inr ds"
    by (auto simp: ListAll_def sql_call_def split: sum.splits list.splits option.splits)
  have "rs = rows s"
    using q rs(1) unfolding sql_select_def by (elim sql_callE) (auto simp: same_data_def)
  then have ok: "list_all row_ok (sort_key ?key rs)"
    using assms(1) by (simp add: store_inv_def list_all_iff)
  from scan_all_ok [OF this] rs(2) have ds: "list_all2 (\<lambda>r d. scanDeployment r = Inr d) (sort_key ?key rs) ds" by simp
  have dist: "distinct (map r_id (rows s))" using assms(1) by (simp add: store_inv_def)
  have "map d_id ds = map r_id (sort_key ?key rs)"
    using ds scan_phase by (induction rule: list_all2_induct) auto
  then have "distinct (map d_id ds)" using dist \<open>rs = rows s\<close> by (simp add: distinct_map)
  moreover have "d \<in> set ds \<longleftrightarrow> deployments s (d_id d) = Some d" for d
  proof
    assume "d \<in> set ds"
    then obtain r where r: "r \<in> set (rows s)" "scanDeployment r = Inr d"
      using list_all2_right [OF ds] \<open>rs = rows s\<close> by auto
    with scan_phase row_at_unique [OF dist, of r] show "deployments s (d_id d) = Some d"
      by (simp add: deployments_def)
  next
    assume d: "deployments s (d_id d) = Some d"
    then obtain r where r: "row_at (rows s) (d_id d) = Some r" "scanDeployment r = Inr d"
      by (auto simp: deployments_def split: option.splits sum.splits)
    then have "r \<in> set (sort_key ?key rs)" using \<open>rs = rows s\<close> by (auto dest: row_at_Some)
    with r(2) show "d \<in> set ds" using list_all2_left [OF ds] by fastforce
  qed
  ultimately show ?thesis using ListAll_effect [OF assms(2)] by blast
qed

section \<open>Recovery settles every deployment\<close>

text \<open>
  A deployment after recovery: down as before, crashed, or still served by a process whose recorded
  identity was seen.
\<close>

definition settled :: "world \<Rightarrow> world \<Rightarrow> deployment \<Rightarrow> bool" where
  "settled w w' d = (let i = d_id d in
     phase_at (db w') i = Some PhaseCrashed \<and> active (d_phase d) \<or>
     deployments (db w') i = Some d \<and>
       (down (d_phase d) \<or>
        d_phase d \<in> {PhaseHealthy, PhaseRegistering, PhaseReady, PhaseUnregisteredHealthy} \<and> d_pid d \<noteq> 0 \<and>
        identity_seen (deploymentProcess d) (osy w) (tick (osy w'))))"

definition observing :: "world \<Rightarrow> world \<Rightarrow> bool" where
  "observing w w' = (quiet (osy w) (osy w') \<and> fsys w' = fsys w \<and> envr w' = envr w \<and> store_inv (db w'))"

lemma observing_trans: "observing w w1 \<Longrightarrow> observing w1 w2 \<Longrightarrow> observing w w2"
  by (auto simp: observing_def intro: quiet_trans)

lemma transition_observing: "transition i p q why w = (r, w') \<Longrightarrow> store_inv (db w) \<Longrightarrow>
    observing w w' \<and> osy w' = osy w \<and> (\<forall>j. j \<noteq> i \<longrightarrow> deployments (db w') j = deployments (db w) j)"
  by (auto simp: transition_eq observing_def intro: Transition_inv Transition_other)

lemma transition_done: "transition i p q why w = (Inr u, w') \<Longrightarrow> store_inv (db w) \<Longrightarrow>
    phase_step p q \<and> phase_at (db w) i = Some p \<and> phase_at (db w') = (phase_at (db w))(i := Some q)"
  using db.move_ok [of "db w" "(clock (osy w), why)" i p q u "db w'"]
  by (auto simp: transition_eq move_phase_def)

lemma quiet_find_loop: "quiet o1 (snd (find_loop want nb ls o1))"
proof (induction ls arbitrary: o1)
  case (Cons l ls)
  show ?case
  proof (cases "listing_line l")
    case (Some pc)
    obtain pid cur where pc: "pc = (pid, cur)" by fastforce
    obtain i o2 where I: "processStartInfo pid o1 = (i, o2)" by fastforce
    from I have "quiet o1 o2" by (rule quietD)
    then have "quiet o1 (snd (find_loop want nb ls o2))" using Cons by (rule quiet_trans)
    with Cons [of o1] Some pc I show ?thesis by (auto split: sum.split prod.split)
  qed (use Cons in simp)
qed simp

lemma quiet_find:
  assumes "FindByCommand c nb o1 = (r, o2)"
  shows "quiet o1 o2"
proof -
  obtain x oa where L: "look v_listing o1 = (x, oa)" by fastforce
  from look_eq [OF L] have q: "quiet o1 oa" by simp
  show ?thesis
  proof (cases x)
    case (Inr body)
    obtain ms ob where F: "find_loop (normalize c) nb (split_on (CHR ''\<newline>'') body) oa = (ms, ob)" by fastforce
    with quiet_find_loop [of oa] have "quiet oa ob" by (metis snd_conv)
    with q have "quiet o1 ob" by (rule quiet_trans)
    with assms L Inr F show ?thesis by (simp add: FindByCommand_def)
  next
    case (Inl e)
    with assms L q show ?thesis by (simp add: FindByCommand_def)
  qed
qed

lemma identity_seen_mono: "identity_seen p o1 m \<Longrightarrow> m \<le> n \<Longrightarrow> identity_seen p o1 n"
  unfolding identity_seen_def by (meson less_le_trans)

lemma settled_earlier:
  assumes "settled w1 w' d" "observing w w1"
  shows "settled w w' d"
proof -
  have "later (osy w) (osy w1)" using assms(2) by (simp add: observing_def quiet_def)
  with assms(1) show ?thesis
    by (auto simp: settled_def Let_def intro: identity_seen_later)
qed

lemma settled_kept:
  assumes "settled w w1 d" "observing w1 w'" "store_inv (db w1)"
    and same: "deployments (db w') (d_id d) = deployments (db w1) (d_id d)"
  shows "settled w w' d"
proof -
  have "phase_at (db w') (d_id d) = phase_at (db w1) (d_id d)"
    using assms(2,3) same by (simp add: phase_deployments observing_def)
  moreover have "tick (osy w1) \<le> tick (osy w')" using assms(2) by (simp add: observing_def quiet_def later_def)
  ultimately show ?thesis using assms(1) same
    by (auto simp: settled_def Let_def intro: identity_seen_mono)
qed

text \<open>Adoption keeps the phases; outside STARTING it does nothing.\<close>

lemma adopt_effect:
  assumes "adopt d w = (r, w1)" "store_inv (db w)"
  shows "observing w w1 \<and> phase_at (db w1) = phase_at (db w) \<and>
    (\<forall>j. j \<noteq> d_id d \<longrightarrow> deployments (db w1) j = deployments (db w) j) \<and>
    (d_phase d \<noteq> PhaseStarting \<longrightarrow> r = Inr d \<and> w1 = w) \<and>
    (\<forall>d1. r = Inr d1 \<longrightarrow> d_id d1 = d_id d \<and> d_phase d1 = d_phase d)"
proof (cases "d_phase d = PhaseStarting \<and> d_pid d = 0 \<and> d_command d \<noteq> []")
  case False
  with assms show ?thesis by (auto simp: adopt_def observing_def)
next
  case True
  obtain f oa where F: "FindByCommand (d_command d) (d_updated_at d) (osy w) = (f, oa)" by fastforce
  let ?wa = "w\<lparr>osy := oa\<rparr>"
  have q: "observing w ?wa" using quiet_find [OF F] assms(2) by (simp add: observing_def)
  show ?thesis
  proof (cases "\<exists>m. f = Inr [m]")
    case False
    with True F assms(1) have "w1 = ?wa" "\<forall>d1. r = Inr d1 \<longrightarrow> d1 = d"
      by (auto simp: adopt_def on_os_def split: sum.splits list.splits)
    with True q show ?thesis by auto
  next
    case one: True
    then obtain m where m: "f = Inr [m]" by blast
    obtain u s where S: "SetRuntime (clock oa) (d_id d) (pr_pid m) (d_port d) (pr_command m)
        (pr_started_at m) (pr_start_token m) (db w) = (u, s)" by fastforce
    from True F assms(1) m S have w1: "w1 = ?wa\<lparr>db := s\<rparr>"
        "\<forall>d1. r = Inr d1 \<longrightarrow> d_id d1 = d_id d \<and> d_phase d1 = d_phase d"
      by (auto simp: adopt_def on_os_def on_db_def split: sum.splits)
    note s = SetRuntime_frame [OF S assms(2), THEN conjunct1] SetRuntime_frame [OF S assms(2), THEN conjunct2]
    from q s(1) w1(1) have "observing w w1" by (simp add: observing_def)
    moreover have "phase_at (db w1) = phase_at (db w)" "\<forall>j. j \<noteq> d_id d \<longrightarrow> deployments (db w1) j = deployments (db w) j"
      using s(2) w1(1) by simp_all
    ultimately show ?thesis using True w1(2) by blast
  qed
qed

abbreviation served :: "phase \<Rightarrow> bool" where
  "served p \<equiv> p \<in> {PhaseHealthy, PhaseRegistering, PhaseReady, PhaseUnregisteredHealthy}"

lemma active_not_served:
  "active p \<Longrightarrow> \<not> (p = PhaseRequested \<or> p = PhaseValidating \<or> p = PhaseDownloading \<or> p = PhaseStarting) \<Longrightarrow> served p"
  by (cases p) (auto simp: active_def down_def)

lemma settle_effect:
  assumes "settle d w = (r, w1)" "store_inv (db w)"
  shows "observing w w1 \<and> (\<forall>j. j \<noteq> d_id d \<longrightarrow> deployments (db w1) j = deployments (db w) j) \<and>
    (r = Inr () \<and> active (d_phase d) \<longrightarrow>
       phase_at (db w1) (d_id d) = Some PhaseCrashed \<or>
       db w1 = db w \<and> served (d_phase d) \<and> d_pid d \<noteq> 0 \<and>
         identity_seen (deploymentProcess d) (osy w) (tick (osy w1)))"
proof (cases "d_pid d = 0")
  case True
  with assms have t: "transition (d_id d) (d_phase d) PhaseCrashed
      ''lifecycle operation was interrupted before a runtime identity was recorded'' w = (r, w1)"
    by (simp add: settle_def)
  from transition_observing [OF t assms(2)] show ?thesis
    using transition_done [of "d_id d" "d_phase d" PhaseCrashed _ w "()" w1] t assms(2) by (cases r) auto
next
  case False
  obtain st oa where R: "Reconcile (deploymentProcess d) (osy w) = (st, oa)" by fastforce
  let ?wa = "w\<lparr>osy := oa\<rparr>"
  note rc = Reconcile_cases [OF R]
  have q: "observing w ?wa" using rc(1) assms(2) by (simp add: observing_def)
  have crash: ?thesis if t: "transition (d_id d) (d_phase d) PhaseCrashed why ?wa = (r, w1)" for why
  proof -
    from transition_observing [OF t] assms(2)
    have o: "observing ?wa w1" "\<forall>j. j \<noteq> d_id d \<longrightarrow> deployments (db w1) j = deployments (db w) j" by simp_all
    have "phase_at (db w1) (d_id d) = Some PhaseCrashed" if "r = Inr ()"
      using transition_done [OF t [unfolded that]] assms(2) by simp
    with observing_trans [OF q o(1)] o(2) show ?thesis by blast
  qed
  show ?thesis
  proof (cases st)
    case StatusRunning
    show ?thesis
    proof (cases "d_phase d = PhaseRequested \<or> d_phase d = PhaseValidating \<or> d_phase d = PhaseDownloading \<or>
        d_phase d = PhaseStarting")
      case True
      with assms(1) False R StatusRunning show ?thesis by (intro crash) (simp add: settle_def on_os_def)
    next
      case n: False
      with assms(1) False R StatusRunning have "w1 = ?wa" by (auto simp: settle_def on_os_def)
      with q n False rc(2) [OF StatusRunning] active_not_served [of "d_phase d"] show ?thesis by auto
    qed
  next
    case StatusUnknown
    with assms(1) False R q show ?thesis by (auto simp: settle_def on_os_def)
  next
    case StatusStale
    with assms(1) False R show ?thesis by (intro crash) (simp add: settle_def on_os_def)
  next
    case StatusReused
    with assms(1) False R show ?thesis by (intro crash) (simp add: settle_def on_os_def)
  qed
qed

lemma recover_one:
  assumes "adopt d w = (Inr d1, w1)" "settle d1 w1 = (r, w2)" "store_inv (db w)"
    and d: "deployments (db w) (d_id d) = Some d" "\<not> down (d_phase d)"
  shows "observing w w2" "\<forall>j. j \<noteq> d_id d \<longrightarrow> deployments (db w2) j = deployments (db w) j"
    "r = Inr () \<Longrightarrow> settled w w2 d"
proof -
  note a = adopt_effect [OF assms(1,3)]
  have id1: "d_id d1 = d_id d" "d_phase d1 = d_phase d" using a by blast+
  have inv1: "store_inv (db w1)" and o1: "observing w w1" using a by (simp_all add: observing_def)
  note s = settle_effect [OF assms(2) inv1, unfolded id1]
  show "observing w w2" using o1 s by (blast intro: observing_trans)
  show "\<forall>j. j \<noteq> d_id d \<longrightarrow> deployments (db w2) j = deployments (db w) j" using a s by simp
  assume r: "r = Inr ()"
  have "known (d_phase d)"
    using d(1) store_inv_row [OF assms(3)] scan_phase [of _ d]
    by (auto simp: deployments_def row_ok_def split: option.splits sum.splits)
  then have act: "active (d_phase d)" using d(2) by (simp add: active_def)
  show "settled w w2 d"
  proof (cases "served (d_phase d)")
    case True
    then have "d_phase d \<noteq> PhaseStarting" by auto
    then have "d1 = d" "w1 = w" using a by blast+
    with s r act d(1) show ?thesis by (auto simp: settled_def Let_def)
  next
    case False
    with s r act show ?thesis by (simp add: settled_def Let_def)
  qed
qed

lemma recover_loop_effect:
  assumes "recover_loop ds w = (r, w')" "store_inv (db w)" "distinct (map d_id ds)"
    and "\<forall>d\<in>set ds. deployments (db w) (d_id d) = Some d"
  shows "observing w w' \<and> (\<forall>j. j \<notin> d_id ` set ds \<longrightarrow> deployments (db w') j = deployments (db w) j) \<and>
    (r = Inr () \<longrightarrow> (\<forall>d\<in>set ds. settled w w' d))"
  using assms
proof (induction ds arbitrary: w)
  case Nil
  then show ?case by (simp add: observing_def)
next
  case (Cons d ds)
  have rest: "distinct (map d_id ds)" "d_id d \<notin> d_id ` set ds" using Cons.prems(3) by auto
  have d: "deployments (db w) (d_id d) = Some d" using Cons.prems(4) by simp
  show ?case
  proof (cases "down (d_phase d)")
    case True
    then have "recover_loop ds w = (r, w')" using Cons.prems(1) by (auto simp: down_def)
    note IH = Cons.IH [OF this Cons.prems(2) rest(1)]
    then have I: "observing w w'" "\<forall>j. j \<notin> d_id ` set ds \<longrightarrow> deployments (db w') j = deployments (db w) j"
        "r = Inr () \<longrightarrow> (\<forall>d\<in>set ds. settled w w' d)" using Cons.prems(4) by simp_all
    then have "settled w w' d" using d rest(2) True by (simp add: settled_def Let_def)
    with I show ?thesis by simp
  next
    case False
    then have nd: "\<not> (d_phase d = PhaseDestroyed \<or> d_phase d = PhaseDestroying \<or> d_phase d = PhaseFailed \<or>
        d_phase d = PhaseCrashed)" by (auto simp: down_def)
    obtain x w1 where A: "adopt d w = (x, w1)" by fastforce
    show ?thesis
    proof (cases x)
      case (Inl e)
      with Cons.prems(1) nd A adopt_effect [OF A Cons.prems(2)] show ?thesis by auto
    next
      case (Inr d1)
      obtain y w2 where S: "settle d1 w1 = (y, w2)" by fastforce
      note one = recover_one [OF A [unfolded Inr] S Cons.prems(2) d False]
      show ?thesis
      proof (cases y)
        case (Inl e)
        with Cons.prems(1) nd A S \<open>x = Inr d1\<close> one(1,2) show ?thesis by auto
      next
        case (Inr u)
        have go: "recover_loop ds w2 = (r, w')" using Cons.prems(1) nd A S \<open>x = Inr d1\<close> Inr by simp
        have inv2: "store_inv (db w2)" using one(1) by (simp add: observing_def)
        have keep: "\<forall>e\<in>set ds. deployments (db w2) (d_id e) = Some e"
        proof
          fix e assume e: "e \<in> set ds"
          then have "d_id e \<noteq> d_id d" using rest(2) by (metis imageI)
          with one(2) have "deployments (db w2) (d_id e) = deployments (db w) (d_id e)" by blast
          also have "\<dots> = Some e" using e Cons.prems(4) by simp
          finally show "deployments (db w2) (d_id e) = Some e" .
        qed
        note IH = Cons.IH [OF go inv2 rest(1) keep]
        have "settled w w' d"
          using settled_kept [OF one(3), of w'] IH rest(2) inv2 Inr by simp
        moreover have "r = Inr () \<longrightarrow> (\<forall>e\<in>set ds. settled w w' e)"
          using IH settled_earlier [OF _ one(1)] by blast
        moreover have "observing w w'" using one(1) IH observing_trans by blast
        moreover have "\<forall>j. j \<notin> d_id ` set (d # ds) \<longrightarrow> deployments (db w') j = deployments (db w) j"
          using one(2) IH by simp
        ultimately show ?thesis by simp
      qed
    qed
  qed
qed

lemma recover_effect:
  assumes "recoverInterruptedDeployments w = (r, w')" "store_inv (db w)"
  shows "observing w w' \<and>
    (r = Inr () \<longrightarrow> (\<forall>i d. deployments (db w) i = Some d \<longrightarrow> settled w w' d))"
proof -
  obtain q s where Q: "ListAll (db w) = (q, s)" by fastforce
  show ?thesis
  proof (cases q)
    case (Inl e)
    with assms Q have w': "w' = w\<lparr>db := s\<rparr>" "r = Inl e"
      by (auto simp: recoverInterruptedDeployments_def on_db_def)
    have "same_data (db w) s" using ListAll_effect [OF Q] .
    with w' assms(2) show ?thesis by (simp add: observing_def store_inv_data)
  next
    case (Inr ds)
    let ?wa = "w\<lparr>db := s\<rparr>"
    have L: "recover_loop ds ?wa = (r, w')"
      using assms(1) Q Inr by (simp add: recoverInterruptedDeployments_def on_db_def)
    note res = ListAll_result [OF assms(2) Q [unfolded Inr]]
    have same: "rows s = rows (db w)" "store_inv s"
      using res assms(2) store_inv_data by (auto dest: same_data_rows)
    have dep: "deployments s = deployments (db w)" using same(1) by (simp add: deployments_def fun_eq_iff)
    have each: "\<forall>d\<in>set ds. deployments (db ?wa) (d_id d) = Some d" using res dep by simp
    have eff: "observing ?wa w' \<and> (r = Inr () \<longrightarrow> (\<forall>d\<in>set ds. settled ?wa w' d))"
      using recover_loop_effect [OF L _ _ each] res same(2) by simp
    have "d \<in> set ds" if "deployments (db w) i = Some d" for i d
      using res that deployments_phase(2) [OF assms(2) that] by blast
    with eff show ?thesis by (auto simp: observing_def settled_def)
  qed
qed

end
