(* ===== verification/SupervisorSpec.thy ===== *)
theory SupervisorSpec imports Supervisor begin

text \<open>
  The properties of the supervisor: what \<open>Stop\<close> may signal, what \<open>Reconcile\<close>,
  \<open>Start\<close> and \<open>FindByCommand\<close> establish, how the stat file is read, and port
  allocation; with a concrete system for the witnesses.
\<close>

section \<open>A concrete system\<close>

definition demo_proc :: osproc where
  "demo_proc = \<lparr>p_group = 7, p_foreign = False,
     p_stat = Inr ''7 (vllm) x) S 1 7 7 0 -1 0 0 0 0 0 0 0 0 0 20 0 1 0 500 0'',
     p_cmdline = Inr (''vllm'' @ [CHR 0x00] @ ''serve'' @ [CHR 0x00]), p_ps = Inr ''vllm serve''\<rparr>"

definition demo_view :: osview where
  "demo_view = \<lparr>v_procs = [(7, demo_proc)], v_boot = Inr (''cpu 1'' @ [CHR 0x0A] @ ''btime 1000''),
     v_listing = Inr (''  7 /opt/vllm serve'' @ [CHR 0x0A]), v_clk_tck = Inr ''100''\<rparr>"

definition demo_os :: "nat \<Rightarrow> os" where
  "demo_os n = \<lparr>view = (\<lambda>t. if t < n then demo_view else demo_view\<lparr>v_procs := []\<rparr>), lag = (\<lambda>t. 1), tick = 0,
     clock = 2000 * 10 ^ 9, clk_once = False, clk_hz = 100, signals = [], self_pid = 1\<rparr>"

definition demo_steady :: os where
  "demo_steady = (demo_os 0)\<lparr>view := (\<lambda>t. demo_view)\<rparr>"

definition demo_process :: process where
  "demo_process = \<lparr>pr_pid = 7, pr_command = ''vllm serve'', pr_log_path = ''/l'',
     pr_started_at = 1005 * 10 ^ 9, pr_start_token = ''linux:500''\<rparr>"

lemma demo_steady_steady: "steady demo_view demo_steady"
  by (simp add: steady_def demo_steady_def demo_os_def)

section \<open>Stop\<close>

text \<open>
  C1. Wrong-target protection: however processes come and go while \<open>Stop\<close> runs, it only ever
  signals the process group whose id is the recorded pid, and only after it has seen, in this order
  and all during this call, the recorded start token at that pid, the recorded command line, and that
  the pid leads its group. It sends at most one SIGTERM, and SIGKILL only once the grace period is
  over. A refusal (\<open>ErrNotOwned\<close>) sends nothing. When it reports success, its last look at the
  system found the group empty.
\<close>

theorem stop_targets_only_owned:
  assumes "Stop p grace o1 = (r, o2)" "0 < pr_pid p"
  shows "(\<exists>new. signals o2 = signals o1 @ new \<and> orderly (pr_pid p) grace o1 new \<and>
      (new \<noteq> [] \<longrightarrow> (\<exists>t. identity_seen p o1 t \<and> getpgid (pr_pid p) (view o1 t) = Inr (pr_pid p) \<and>
         (\<forall>s\<in>set new. t < s_tick s)))) \<and>
    (\<forall>e. r = Inl e \<and> errors_is ErrNotOwned e \<longrightarrow> signals o2 = signals o1) \<and>
    (r = Inr () \<longrightarrow> seen_empty o1 o2 (pr_pid p))"
  using assms
proof (cases rule: Stop_effect)
  case kept
  then show ?thesis by (auto simp: quiet_def orderly_def)
next
  case (signalled new oa)
  then show ?thesis by blast
qed

theorem stop_targets_only_owned_witness:
  "Stop demo_process (10 * 10 ^ 9) (demo_os 9) =
     (Inr (), snd (Stop demo_process (10 * 10 ^ 9) (demo_os 9))) \<and>
   map s_signal (signals (snd (Stop demo_process (10 * 10 ^ 9) (demo_os 9)))) = [SIGTERM] \<and>
   seen_empty (demo_os 9) (snd (Stop demo_process (10 * 10 ^ 9) (demo_os 9))) 7"
proof -
  have r: "fst (Stop demo_process (10 * 10 ^ 9) (demo_os 9)) = Inr ()" by code_simp
  have s: "map s_signal (signals (snd (Stop demo_process (10 * 10 ^ 9) (demo_os 9)))) = [SIGTERM]" by code_simp
  have "Stop demo_process (10 * 10 ^ 9) (demo_os 9) = (Inr (), snd (Stop demo_process (10 * 10 ^ 9) (demo_os 9)))"
    using r by (simp add: prod_eq_iff)
  from stop_targets_only_owned [OF this] s this show ?thesis by (simp add: demo_process_def)
qed

section \<open>Reconcile\<close>

text \<open>
  C31. \<open>Reconcile\<close> never lies about a running process: RUNNING means that the recorded token
  and command were both seen at the recorded pid during the call, STALE that no process had the pid
  when the call looked; it sends no signal; and while the system does not change, its answer is exactly
  the classification of the snapshot, UNKNOWN included.
\<close>

theorem reconcile_faithful:
  assumes "Reconcile p o1 = (st, o2)"
  shows "signals o2 = signals o1 \<and>
    (st = StatusRunning \<longrightarrow> identity_seen p o1 (tick o2)) \<and>
    (st = StatusStale \<longrightarrow> 0 < pr_pid p \<longrightarrow> pr_pid p \<notin> fst ` set (v_procs (view o1 (tick o1)))) \<and>
    (\<forall>v. steady v o1 \<longrightarrow> st = classify v (clock_ticks v o1) p)"
  using Reconcile_cases [OF assms] Reconcile_steady [of _ o1 p] assms by (auto simp: quiet_def)

theorem reconcile_faithful_witness:
  "fst (Reconcile demo_process demo_steady) = StatusRunning \<and>
   classify demo_view (clock_ticks demo_view demo_steady) demo_process = StatusRunning"
proof -
  have r: "fst (Reconcile demo_process demo_steady) = StatusRunning" by code_simp
  then have "Reconcile demo_process demo_steady = (StatusRunning, snd (Reconcile demo_process demo_steady))"
    by (simp add: prod_eq_iff)
  from reconcile_faithful [OF this] r demo_steady_steady show ?thesis by simp
qed

section \<open>Start\<close>

lemma capture_no_info:
  "steady v o1 \<Longrightarrow> start_info v (clock_ticks v o1) (pr_pid p) = Inl er \<Longrightarrow> fst (capture n p err o1) = p"
proof (induction n arbitrary: err o1)
  case (Suc n)
  obtain c oa where C: "cmdline (pr_pid p) o1 = (c, oa)" by fastforce
  obtain i ob where I: "processStartInfo (pr_pid p) oa = (i, ob)" by fastforce
  have qa: "quiet o1 oa" using C by (rule quietD)
  then have sa: "steady v oa" using Suc.prems(1) by (rule steady_quiet [rotated])
  have ca: "clock_ticks v oa = clock_ticks v o1"
    using C by (auto simp: cmdline_def look_def clock_ticks_def split: sum.splits)
  have i: "i = Inl er" "clock_ticks v ob = clock_ticks v o1"
    using info_steady [OF sa I] ca Suc.prems(2) by auto
  have "steady v (sleep (5 * 10 ^ 6) ob)"
    using sa quietD(3) [OF I] quiet_sleep [of "5 * 10 ^ 6" ob] by (auto intro: steady_quiet)
  moreover have "clock_ticks v (sleep (5 * 10 ^ 6) ob) = clock_ticks v o1"
    using i(2) by (simp add: clock_ticks_def sleep_def)
  ultimately have "fst (capture n p errs (sleep (5 * 10 ^ 6) ob)) = p" for errs
    using Suc.IH Suc.prems(2) by simp
  with C I i show ?case by (simp add: Let_def)
qed simp

lemma capture_first:
  assumes "steady v o1" "start_info v (clock_ticks v o1) (pr_pid p) = Inr (st, token)"
    and "command_of v (pr_pid p) = Inr c" "normalize c \<noteq> []"
  shows "\<exists>o2. capture (Suc n) p err o1 =
      (p\<lparr>pr_command := normalize c, pr_started_at := st, pr_start_token := token\<rparr>, None, o2) \<and>
    quiet o1 o2 \<and> clock_ticks v o2 = clock_ticks v o1"
proof -
  obtain d oa where C: "cmdline (pr_pid p) o1 = (d, oa)" by fastforce
  obtain i ob where I: "processStartInfo (pr_pid p) oa = (i, ob)" by fastforce
  have qa: "quiet o1 oa" using C by (rule quietD)
  then have sa: "steady v oa" using assms(1) by (rule steady_quiet [rotated])
  have ca: "clock_ticks v oa = clock_ticks v o1"
    using C by (auto simp: cmdline_def look_def clock_ticks_def split: sum.splits)
  have "d = Inr c" using cmdline_steady [OF assms(1), of "pr_pid p"] C assms(3) by simp
  moreover have "i = Inr (st, token)" "clock_ticks v ob = clock_ticks v o1"
    using info_steady [OF sa I] ca assms(2) by auto
  moreover have "quiet o1 ob" using qa quietD(3) [OF I] by (rule quiet_trans)
  ultimately show ?thesis using C I assms(4) by (simp add: err_part_def)
qed

lemma sameStartTime_refl [simp]: "sameStartTime t t"
  by (simp add: sameStartTime_def time_sub_def)

text \<open>The steps of Start before the capture loop, and what the loop leaves.\<close>

lemma Start_ok:
  assumes "Start l sp o1 = (Inr p, o2)"
  obtains pid err where "l_start l = Inr pid"
    "capture 20 \<lparr>pr_pid = pid, pr_command = commandString (sp_command sp) (sp_args sp),
       pr_log_path = sp_log_path sp, pr_started_at = zero_time, pr_start_token = []\<rparr> None o1 = (p, err, o2)"
    "pr_start_token p \<noteq> []" "\<not> IsZero (pr_started_at p)"
  using assms by (auto simp: Start_def Let_def split: option.splits sum.splits prod.splits if_splits)

text \<open>What a launch leaves behind.\<close>

lemma Start_effect:
  assumes "Start l sp o1 = (r, o2)"
  shows "case r of
      Inr p \<Rightarrow> l_start l = Inr (pr_pid p) \<and> signals o2 = signals o1 \<and> pr_start_token p \<noteq> [] \<and>
        \<not> IsZero (pr_started_at p) \<and>
        (\<exists>t. tick o1 \<le> t \<and> t < tick o2 \<and> shows_token (view o1 t) (pr_pid p) (pr_start_token p))
    | Inl e \<Rightarrow> (\<exists>new. signals o2 = signals o1 @ new \<and>
        (\<forall>s\<in>set new. \<exists>pid. l_start l = Inr pid \<and> (s_target s = pid \<or> s_target s = - pid)))"
proof (cases r)
  case (Inr p)
  from assms [unfolded Inr] obtain pid err where s: "l_start l = Inr pid"
    "capture 20 \<lparr>pr_pid = pid, pr_command = commandString (sp_command sp) (sp_args sp),
       pr_log_path = sp_log_path sp, pr_started_at = zero_time, pr_start_token = []\<rparr> None o1 = (p, err, o2)"
    "pr_start_token p \<noteq> []" "\<not> IsZero (pr_started_at p)" by (rule Start_ok)
  have "p \<noteq> \<lparr>pr_pid = pid, pr_command = commandString (sp_command sp) (sp_args sp),
       pr_log_path = sp_log_path sp, pr_started_at = zero_time, pr_start_token = []\<rparr>"
    using s(3) by (metis process.select_convs(5))
  with capture_result [OF s(2)] s Inr show ?thesis by (simp add: quiet_def)
next
  case (Inl e)
  show ?thesis
  proof (cases "\<exists>pid. l_start l = Inr pid \<and> o2 \<noteq> o1")
    case False
    with assms Inl show ?thesis
      by (cases "o2 = o1") (auto simp: Start_def Let_def split: option.splits sum.splits prod.splits if_splits)
  next
    case True
    then obtain pid where l: "l_start l = Inr pid" "o2 \<noteq> o1" by blast
    let ?p = "\<lparr>pr_pid = pid, pr_command = commandString (sp_command sp) (sp_args sp),
       pr_log_path = sp_log_path sp, pr_started_at = zero_time, pr_start_token = []\<rparr>"
    obtain q err oa where c: "capture 20 ?p None o1 = (q, err, oa)" by (metis prod.exhaust)
    have "signals oa = signals o1" using capture_result [OF c] by (simp add: quiet_def)
    moreover have "o2 = snd (kill pid SIGKILL (snd (kill (- pid) SIGKILL oa)))"
      using assms Inl l c
      by (auto simp: Start_def Let_def simp del: capture.simps split: option.splits sum.splits prod.splits if_splits)
    ultimately show ?thesis using Inl l by (auto simp: kill_def Let_def)
  qed
qed

text \<open>
  C32. What \<open>Start\<close> records is the identity of the process it launched: the pid is the one the
  launch returned, the start token was read from that pid's stat file during the call, nothing was
  signalled. When it fails, the only signals sent go to the process it launched and its group.
\<close>

theorem start_records_launched:
  assumes "Start l sp o1 = (r, o2)"
  shows "case r of
      Inr p \<Rightarrow> l_start l = Inr (pr_pid p) \<and> signals o2 = signals o1 \<and> pr_start_token p \<noteq> [] \<and>
        \<not> IsZero (pr_started_at p) \<and>
        (\<exists>t. tick o1 \<le> t \<and> t < tick o2 \<and> shows_token (view o1 t) (pr_pid p) (pr_start_token p))
    | Inl e \<Rightarrow> (\<exists>new. signals o2 = signals o1 @ new \<and>
        (\<forall>s\<in>set new. \<exists>pid. l_start l = Inr pid \<and> (s_target s = pid \<or> s_target s = - pid)))"
  using assms by (rule Start_effect)

theorem start_records_launched_witness:
  "\<exists>p o2. Start \<lparr>l_mkdir = None, l_chmod = None, l_pipe = None, l_executable = None, l_helper = None, l_start = Inr 7\<rparr>
     \<lparr>sp_command = ''vllm'', sp_args = [''serve''], sp_env = [], sp_log_path = ''/l''\<rparr> demo_steady = (Inr p, o2) \<and>
     pr_pid p = 7 \<and> pr_start_token p = ''linux:500'' \<and> signals o2 = []"
proof -
  let ?l = "\<lparr>l_mkdir = None, l_chmod = None, l_pipe = None, l_executable = None, l_helper = None, l_start = Inr 7\<rparr>"
  let ?sp = "\<lparr>sp_command = ''vllm'', sp_args = [''serve''], sp_env = [], sp_log_path = ''/l''\<rparr>"
  let ?s = "Start ?l ?sp demo_steady"
  have "fst ?s = Inr demo_process" by code_simp
  then have "?s = (Inr demo_process, snd ?s)" by (simp add: prod_eq_iff)
  from this start_records_launched [OF this] show ?thesis
    by (intro exI [of _ demo_process] exI [of _ "snd ?s"])
      (simp add: demo_process_def demo_steady_def demo_os_def)
qed

text \<open>
  A process recorded by \<open>Start\<close> is recognised: as long as the system does not change, the
  process is alive and shows a command line, \<open>Reconcile\<close> answers RUNNING, now and at any later
  call, and \<open>Owned\<close> agrees.
\<close>

theorem started_process_is_running:
  assumes "steady v o1" "Start l sp o1 = (Inr p, o2)" "exists_in v (pr_pid p)"
    and "command_of v (pr_pid p) = Inr c" "normalize c \<noteq> []"
  shows "quiet o2 o3 \<and> clock_ticks v o3 = clock_ticks v o2 \<longrightarrow> fst (Reconcile p o3) = StatusRunning"
proof
  assume o3: "quiet o2 o3 \<and> clock_ticks v o3 = clock_ticks v o2"
  from assms(2) obtain pid err where s: "l_start l = Inr pid"
    "capture 20 \<lparr>pr_pid = pid, pr_command = commandString (sp_command sp) (sp_args sp),
       pr_log_path = sp_log_path sp, pr_started_at = zero_time, pr_start_token = []\<rparr> None o1 = (p, err, o2)"
    "pr_start_token p \<noteq> []" "\<not> IsZero (pr_started_at p)" by (rule Start_ok)
  let ?q = "\<lparr>pr_pid = pid, pr_command = commandString (sp_command sp) (sp_args sp),
       pr_log_path = sp_log_path sp, pr_started_at = zero_time, pr_start_token = []\<rparr>"
  have pid: "pr_pid p = pid" using capture_result [OF s(2)] by simp
  show "fst (Reconcile p o3) = StatusRunning"
  proof (cases "start_info v (clock_ticks v o1) pid")
    case (Inl er)
    with capture_no_info [OF assms(1), of ?q er 20 None] s(2,3) show ?thesis by simp
  next
    case (Inr x)
    then obtain st token where x: "start_info v (clock_ticks v o1) pid = Inr (st, token)" by (cases x) auto
    have "\<exists>o2'. capture (Suc 19) ?q None o1 =
        (?q\<lparr>pr_command := normalize c, pr_started_at := st, pr_start_token := token\<rparr>, None, o2') \<and>
      quiet o1 o2' \<and> clock_ticks v o2' = clock_ticks v o1"
      by (rule capture_first [OF assms(1)]) (use x assms(4,5) pid in simp_all)
    with s(2) have p: "p = ?q\<lparr>pr_command := normalize c, pr_started_at := st, pr_start_token := token\<rparr>"
      and o2: "quiet o1 o2" "clock_ticks v o2 = clock_ticks v o1"
      by (simp_all del: capture.simps)
    have "steady v o3" using assms(1) o2(1) o3 by (blast intro: steady_quiet)
    from Reconcile_steady [OF this, of p] p s(3,4) x o2 o3 assms(3-5) pid show ?thesis
      by (simp add: classify_def)
  qed
qed

theorem started_process_is_running_witness:
  "fst (Reconcile demo_process (snd (Start
     \<lparr>l_mkdir = None, l_chmod = None, l_pipe = None, l_executable = None, l_helper = None, l_start = Inr 7\<rparr>
     \<lparr>sp_command = ''vllm'', sp_args = [''serve''], sp_env = [], sp_log_path = ''/l''\<rparr> demo_steady))) = StatusRunning"
proof -
  let ?s = "Start \<lparr>l_mkdir = None, l_chmod = None, l_pipe = None, l_executable = None, l_helper = None, l_start = Inr 7\<rparr>
     \<lparr>sp_command = ''vllm'', sp_args = [''serve''], sp_env = [], sp_log_path = ''/l''\<rparr> demo_steady"
  have "fst ?s = Inr demo_process" by code_simp
  then have s: "?s = (Inr demo_process, snd ?s)" by (simp add: prod_eq_iff)
  have "exists_in demo_view (pr_pid demo_process)" by (simp add: exists_in_def demo_view_def demo_process_def)
  moreover have "command_of demo_view (pr_pid demo_process) = Inr ''vllm serve''" by code_simp
  moreover have "normalize ''vllm serve'' \<noteq> []" by code_simp
  ultimately show ?thesis
    using started_process_is_running [OF demo_steady_steady s, of "''vllm serve''" "snd ?s"] by simp
qed

section \<open>Discovery of an interrupted start\<close>

lemma find_loop_sound:
  "find_loop want nb ls o1 = (ms, o2) \<Longrightarrow> quiet o1 o2 \<and>
    (\<forall>m\<in>set ms. \<exists>l\<in>set ls. \<exists>cur. listing_line l = Some (pr_pid m, cur) \<and> pr_pid m \<noteq> self_pid o1 \<and>
       pr_command m = normalize cur \<and> matchesCommandIntent (normalize cur) want \<and>
       nb - 2 * 10 ^ 9 \<le> pr_started_at m \<and>
       (\<exists>t. tick o1 \<le> t \<and> t < tick o2 \<and> shows_token (view o1 t) (pr_pid m) (pr_start_token m)))"
  (is "_ \<Longrightarrow> ?ok ls o1 ms o2")
proof (induction ls arbitrary: o1 ms o2)
  case (Cons l ls)
  show ?case
  proof (cases "find_loop want nb ls o1 = (ms, o2)")
    case True
    from Cons.IH [OF this] show ?thesis by fastforce
  next
    case False
    with Cons.prems obtain pid cur where l: "listing_line l = Some (pid, cur)" "pid \<noteq> self_pid o1"
        "matchesCommandIntent (normalize cur) want" by (auto split: option.splits prod.splits if_splits)
    obtain i oa where I: "processStartInfo pid o1 = (i, oa)" by fastforce
    have q: "quiet o1 oa" using I by (rule quietD)
    then have e: "view oa = view o1" "self_pid oa = self_pid o1" "tick o1 \<le> tick oa" by (auto simp: quiet_def later_def)
    obtain ns ob where R: "find_loop want nb ls oa = (ns, ob)" by fastforce
    from Cons.IH [OF R] have ih: "?ok ls oa ns ob" .
    then have qb: "quiet o1 ob" "tick oa \<le> tick ob" using q by (auto intro: quiet_trans simp: quiet_def later_def)
    have old: "\<exists>l'\<in>set (l # ls). \<exists>cur. listing_line l' = Some (pr_pid m, cur) \<and> pr_pid m \<noteq> self_pid o1 \<and>
       pr_command m = normalize cur \<and> matchesCommandIntent (normalize cur) want \<and>
       nb - 2 * 10 ^ 9 \<le> pr_started_at m \<and>
       (\<exists>t. tick o1 \<le> t \<and> t < tick ob \<and> shows_token (view o1 t) (pr_pid m) (pr_start_token m))"
      if "m \<in> set ns" for m
      using ih that e by (force intro: le_trans)
    show ?thesis
    proof (cases i)
      case (Inl er)
      then have "ms = ns" "o2 = ob" using Cons.prems l I R by simp_all
      then show ?thesis using old qb by blast
    next
      case (Inr x)
      then obtain st token where i: "i = Inr (st, token)" by (cases x) auto
      have tok: "shows_token (view o1 (tick o1)) pid token" "tick o1 < tick oa"
        using info_token [OF I [unfolded i]] by auto
      show ?thesis
      proof (cases "st < nb - 2 * 10 ^ 9")
        case True
        then have "ms = ns" "o2 = ob" using Cons.prems l I R i by simp_all
        then show ?thesis using old qb by blast
      next
        case new: False
        then have m: "ms = \<lparr>pr_pid = pid, pr_command = normalize cur, pr_log_path = [], pr_started_at = st,
            pr_start_token = token\<rparr> # ns" "o2 = ob" using Cons.prems l I R i by simp_all
        have "\<exists>t. tick o1 \<le> t \<and> t < tick ob \<and> shows_token (view o1 t) pid token"
          using tok qb by (intro exI [of _ "tick o1"]) auto
        then have "\<exists>l'\<in>set (l # ls). \<exists>cur'. listing_line l' = Some (pid, cur') \<and> pid \<noteq> self_pid o1 \<and>
            normalize cur = normalize cur' \<and> matchesCommandIntent (normalize cur') want \<and>
            nb - 2 * 10 ^ 9 \<le> st \<and> (\<exists>t. tick o1 \<le> t \<and> t < tick ob \<and> shows_token (view o1 t) pid token)"
          using l new by (intro bexI [of _ l] exI [of _ cur]) auto
        with m old qb show ?thesis by simp
      qed
    qed
  qed
qed simp

text \<open>
  Recovery adopts no stranger: every process \<open>FindByCommand\<close> returns was listed, is not
  this process, runs the wanted command in the sense of \<open>matchesCommandIntent\<close>, started no
  earlier than two seconds before the intent was recorded, and carries the start token read from its
  stat file during the call; and the search signals nothing.
\<close>

theorem find_by_command_sound:
  assumes "FindByCommand command notBefore o1 = (Inr ms, o2)" "m \<in> set ms"
  shows "signals o2 = signals o1 \<and>
    (\<exists>out l cur. v_listing (view o1 (tick o1)) = Inr out \<and> l \<in> set (split_on (CHR ''\<newline>'') out) \<and>
       listing_line l = Some (pr_pid m, cur) \<and> pr_pid m \<noteq> self_pid o1 \<and>
       matchesCommandIntent (normalize cur) (normalize command) \<and> pr_command m = normalize cur) \<and>
    notBefore - 2 * 10 ^ 9 \<le> pr_started_at m \<and>
    (\<exists>t. tick o1 \<le> t \<and> t < tick o2 \<and> shows_token (view o1 t) (pr_pid m) (pr_start_token m))"
proof -
  obtain x oa where L: "look v_listing o1 = (x, oa)" by fastforce
  note l = look_eq [OF L]
  from assms(1) L obtain out where out: "x = Inr out"
    "find_loop (normalize command) notBefore (split_on (CHR ''\<newline>'') out) oa = (ms, o2)"
    by (auto simp: FindByCommand_def split: sum.splits prod.splits)
  from find_loop_sound [OF out(2)] assms(2) obtain li cur t where m: "quiet oa o2"
    "li \<in> set (split_on (CHR ''\<newline>'') out)" "listing_line li = Some (pr_pid m, cur)" "pr_pid m \<noteq> self_pid oa"
    "pr_command m = normalize cur" "matchesCommandIntent (normalize cur) (normalize command)"
    "notBefore - 2 * 10 ^ 9 \<le> pr_started_at m" "tick oa \<le> t" "t < tick o2"
    "shows_token (view oa t) (pr_pid m) (pr_start_token m)" by blast
  have "view oa = view o1" "self_pid oa = self_pid o1" "tick o1 \<le> tick oa" "signals o2 = signals o1"
    using l m(1) by (auto simp: quiet_def later_def)
  with m l out(1) show ?thesis by (metis le_trans)
qed

theorem find_by_command_sound_witness:
  "\<exists>o2. FindByCommand ''vllm serve'' (1005 * 10 ^ 9) demo_steady =
     (Inr [demo_process\<lparr>pr_command := ''/opt/vllm serve'', pr_log_path := []\<rparr>], o2) \<and> signals o2 = []"
proof -
  let ?f = "FindByCommand ''vllm serve'' (1005 * 10 ^ 9) demo_steady"
  have "fst ?f = Inr [demo_process\<lparr>pr_command := ''/opt/vllm serve'', pr_log_path := []\<rparr>]" by code_simp
  then have f: "?f = (Inr [demo_process\<lparr>pr_command := ''/opt/vllm serve'', pr_log_path := []\<rparr>], snd ?f)"
    by (simp add: prod_eq_iff)
  from find_by_command_sound [OF f] have "signals (snd ?f) = []"
    by (simp add: demo_steady_def demo_os_def)
  with f show ?thesis by blast
qed

lemma Fields_normalize [simp]: "Fields (normalize s) = Fields s"
  by (simp add: normalize_def fields_join_fields)

text \<open>
  The command match is exact on arguments: a live command line matches a recorded one if and only
  if, as argument vectors, it is the recorded one with the program possibly named by another path of
  the same base name, or that behind one Python interpreter; no prefix, suffix or substring of the
  arguments is accepted. In particular every non-empty command matches itself, however it is spaced.
\<close>

theorem command_match_exact:
  "matchesCommandIntent cur intent \<longleftrightarrow>
     (\<exists>prog args prog'. Fields intent = prog # args \<and> (prog' = prog \<or> Base prog' = Base prog) \<and>
        (Fields cur = prog' # args \<or>
         Base prog' = Base prog \<and> (\<exists>py. isPythonInterpreter py \<and> Fields cur = py # prog' # args)))"
proof (cases "Fields cur = [] \<or> Fields intent = []")
  case True
  then show ?thesis by (auto simp: matchesCommandIntent_def)
next
  case False
  then obtain b bs prog args where f: "Fields cur = b # bs" "Fields intent = prog # args"
    by (metis list.exhaust)
  show ?thesis
  proof (cases bs)
    case Nil
    with f show ?thesis by (auto simp: matchesCommandIntent_def)
  next
    case (Cons c cs)
    with f show ?thesis by (auto simp: matchesCommandIntent_def)
  qed
qed

section \<open>Reading the start identity\<close>

lemma last_paren:
  assumes "CHR '')'' \<notin> set tail"
  shows "after_paren (s @ CHR '')'' # tail) = Some tail"
proof -
  have "\<And>x. x \<in> set (rev tail) \<Longrightarrow> x \<noteq> CHR '')''" using assms by auto
  then have "takeWhile (\<lambda>c. c \<noteq> CHR '')'') (rev tail @ CHR '')'' # rev s) = rev tail"
    by (subst takeWhile_append2) auto
  then show ?thesis by (simp add: after_paren_def)
qed

text \<open>
  The start token cannot be forged by a process name: whatever bytes the name holds, white space
  and parentheses included, the token is field 22 of the stat line, and survives the trip through its
  decimal text.
\<close>

theorem start_token_roundtrip:
  assumes "list_all word fs" "19 < length fs" "fs ! 19 = itoa t" "0 \<le> t" "t < 2 ^ 63"
    and "list_all (\<lambda>w. CHR '')'' \<notin> set w) fs"
  shows "start_ticks pid (itoa pid @ '' ('' @ comm @ '') '' @ join_with '' '' fs) = Inr (itoa t, t)"
proof -
  have "CHR '')'' \<notin> set (join_with '' '' ws)" if "list_all (\<lambda>w. CHR '')'' \<notin> set w) ws" for ws
    using that by (induction ws rule: induct_list012) auto
  then have "after_paren ((itoa pid @ '' ('' @ comm) @ CHR '')'' # CHR '' '' # join_with '' '' fs) =
      Some (CHR '' '' # join_with '' '' fs)"
    using assms(6) by (intro last_paren) simp
  moreover have "Fields (CHR '' '' # join_with '' '' fs) = fs"
    using fields_join [OF assms(1)] by simp
  ultimately show ?thesis
    using assms parse_int64_itoa [of t] by (simp add: start_ticks_def Let_def)
qed

theorem start_token_roundtrip_witness:
  "start_ticks 7 (itoa 7 @ '' ('' @ ''a) S (1'' @ '') '' @ join_with '' ''
      [''S'', ''1'', ''7'', ''7'', ''0'', ''-1'', ''0'', ''0'', ''0'', ''0'', ''0'', ''0'', ''0'', ''0'', ''0'', ''20'', ''0'', ''1'', ''0'', ''500'', ''9'']) =
   Inr (''500'', 500)"
proof -
  have i: "itoa 500 = ''500''" by code_simp
  show ?thesis
    using start_token_roundtrip [of "[''S'', ''1'', ''7'', ''7'', ''0'', ''-1'', ''0'', ''0'', ''0'', ''0'', ''0'', ''0'', ''0'', ''0'', ''0'', ''20'', ''0'', ''1'', ''0'', ''500'', ''9'']"
      500 7 "''a) S (1''"] i
    by (simp add: word_def is_space_def)
qed

text \<open>
  \<open>sameStartTime\<close> accepts times at most one second apart, and nothing else that a clock
  can produce; its only other positives are times more than 292 years apart, whose difference does not
  fit a \<open>time.Duration\<close> and whose negation wraps round.
\<close>

theorem same_start_time_exact:
  "sameStartTime a b \<longleftrightarrow> \<bar>a - b\<bar> \<le> 10 ^ 9 \<or> a - b \<le> - (2 ^ 63)"
proof -
  consider "a - b \<le> - (2 ^ 63)" | "- (2 ^ 63) < a - b" "a - b < 0" | "0 \<le> a - b" by linarith
  then show ?thesis
  proof cases
    case 1
    then have "time_sub a b = - (2 ^ 63)" by (auto simp: time_sub_def Let_def)
    with 1 show ?thesis by (simp add: sameStartTime_def wrap64_def)
  next
    case 2
    then have "time_sub a b = a - b" "wrap64 (- (a - b)) = - (a - b)"
      by (auto simp: time_sub_def Let_def intro: wrap64_id)
    with 2 show ?thesis by (simp add: sameStartTime_def)
  next
    case 3
    then show ?thesis by (auto simp: sameStartTime_def time_sub_def Let_def)
  qed
qed

section \<open>Port allocation\<close>

lemma scan_ports_result:
  "case scan_ports free reserved port stop of
     None \<Rightarrow> \<forall>q. port \<le> q \<and> q < stop \<longrightarrow> q \<in> set reserved \<or> \<not> free q
   | Some p \<Rightarrow> port \<le> p \<and> p < stop \<and> p \<notin> set reserved \<and> free p \<and>
       (\<forall>q. port \<le> q \<and> q < p \<longrightarrow> q \<in> set reserved \<or> \<not> free q)"
proof (induction free reserved port stop rule: scan_ports.induct)
  case (1 free reserved port stop)
  show ?case
  proof (cases "port < stop \<and> (port \<in> set reserved \<or> \<not> free port)")
    case True
    then have "scan_ports free reserved port stop = scan_ports free reserved (port + 1) stop"
      by (subst scan_ports.simps) auto
    moreover have "q = port \<or> port + 1 \<le> q" if "port \<le> q" for q using that by linarith
    ultimately show ?thesis using 1 True by (cases "scan_ports free reserved (port + 1) stop") fastforce+
  next
    case False
    then show ?thesis by (subst scan_ports.simps) auto
  qed
qed

text \<open>
  \<open>AllocatePort\<close> returns the first port, from the preferred one on and within the window of
  100, that is neither reserved by a recorded deployment nor taken, and reports \<open>ErrNoFreePort\<close>
  exactly when there is none.
\<close>

theorem allocate_port_first_free:
  "case AllocatePort free preferred reserved of
     Inr p \<Rightarrow> preferred \<le> p \<and> p \<le> preferred + 99 \<and> p \<notin> set reserved \<and> free p \<and>
       (\<forall>q. preferred \<le> q \<and> q < p \<longrightarrow> q \<in> set reserved \<or> \<not> free q)
   | Inl e \<Rightarrow> errors_is ErrNoFreePort e \<and>
       (\<forall>q. preferred \<le> q \<and> q \<le> preferred + 99 \<longrightarrow> q \<in> set reserved \<or> \<not> free q)"
  using scan_ports_result [where free = free and reserved = reserved and port = preferred and stop = "preferred + portScanWindow"]
  by (auto simp: AllocatePort_def portScanWindow_def split: option.splits)

theorem allocate_port_first_free_witness:
  "AllocatePort (\<lambda>p. p \<noteq> 8001) 8000 [8000] = Inr 8002 \<and>
   (case AllocatePort (\<lambda>p. p \<noteq> 8001) 8000 [8000] of Inr p \<Rightarrow> p \<notin> set [8000] | Inl e \<Rightarrow> False)"
proof -
  have "AllocatePort (\<lambda>p. p \<noteq> 8001) 8000 [8000] = Inr 8002" by code_simp
  with allocate_port_first_free [where free = "\<lambda>p. p \<noteq> 8001" and preferred = 8000 and reserved = "[8000]"] show ?thesis by simp
qed

end
