(* ===== verification/LifecycleSpec.thy ===== *)
theory LifecycleSpec imports Lifecycle SupervisorSpec begin

text \<open>
  What the lifecycle commands of Lifecycle promise: recovery settles every record against the processes
  it sees, destroy signals only the recorded process group and gives data and record up only after the
  group was seen empty, and \<open>destroy --all\<close> leaves nothing behind when it reports success.
\<close>

section \<open>The stages of one destruction\<close>

text \<open>The signals of a destruction go to the recorded group, after its identity was seen.\<close>

definition owned_signals :: "deployment \<Rightarrow> world \<Rightarrow> world \<Rightarrow> bool" where
  "owned_signals d w w' = (\<exists>new. signals (osy w') = signals (osy w) @ new \<and>
     (\<forall>s\<in>set new. s_target s = - d_pid d \<and> identity_seen (deploymentProcess d) (osy w) (s_tick s)))"

definition destroy_frame :: "deployment \<Rightarrow> world \<Rightarrow> world \<Rightarrow> bool" where
  "destroy_frame d w w' = (later (osy w) (osy w') \<and> envr w' = envr w \<and> store_inv (db w') \<and>
     (\<forall>j. j \<noteq> d_id d \<longrightarrow> deployments (db w') j = deployments (db w) j) \<and> owned_signals d w w')"

lemma owned_signals_none: "signals (osy w') = signals (osy w) \<Longrightarrow> owned_signals d w w'"
  by (auto simp: owned_signals_def intro: exI [of _ "[]"])

lemma owned_signals_trans:
  assumes "owned_signals d w w1" "owned_signals d w1 w2" "later (osy w) (osy w1)"
  shows "owned_signals d w w2"
proof -
  obtain n1 n2 where "signals (osy w1) = signals (osy w) @ n1" "signals (osy w2) = signals (osy w1) @ n2"
      "\<forall>s\<in>set n1. s_target s = - d_pid d \<and> identity_seen (deploymentProcess d) (osy w) (s_tick s)"
      "\<forall>s\<in>set n2. s_target s = - d_pid d \<and> identity_seen (deploymentProcess d) (osy w1) (s_tick s)"
    using assms(1,2) by (auto simp: owned_signals_def)
  then show ?thesis using identity_seen_later [OF assms(3)]
    unfolding owned_signals_def by (intro exI [of _ "n1 @ n2"]) auto
qed

lemma destroy_frame_trans:
  assumes "destroy_frame d w w1" "destroy_frame d w1 w2"
  shows "destroy_frame d w w2"
proof -
  have "owned_signals d w w2" using assms owned_signals_trans [of d w w1 w2] by (simp add: destroy_frame_def)
  with assms show ?thesis by (simp add: destroy_frame_def) (blast intro: later_trans)
qed

lemma destroy_frame_db:
  assumes "osy w' = osy w" "envr w' = envr w" "store_inv (db w')"
    "\<forall>j. j \<noteq> d_id d \<longrightarrow> deployments (db w') j = deployments (db w) j"
  shows "destroy_frame d w w'"
  using assms by (auto simp: destroy_frame_def intro: owned_signals_none)

lemma transition_phase:
  assumes "transition i p q why w = (r, w')" "store_inv (db w)"
  shows "(\<exists>e. r = Inl e) \<and> phase_at (db w') = phase_at (db w) \<or>
    phase_step p q \<and> phase_at (db w) i = Some p \<and> phase_at (db w') = (phase_at (db w))(i := Some q)"
  using assms db.move_cases [of "db w" "(clock (osy w), why)" i p q r "db w'"]
  by (auto simp: transition_eq move_phase_def)

lemma transition_frame:
  assumes "transition (d_id d) p q why w = (r, w')" "store_inv (db w)"
  shows "destroy_frame d w w' \<and> osy w' = osy w \<and> fsys w' = fsys w"
  using transition_observing [OF assms] by (auto simp: observing_def intro: destroy_frame_db)

lemma mark_effect:
  assumes "mark_destroying d w = (x, w1)" "store_inv (db w)" "phase_at (db w) (d_id d) = Some (d_phase d)"
  shows "destroy_frame d w w1 \<and> osy w1 = osy w \<and> fsys w1 = fsys w \<and>
    (d_phase d \<noteq> PhaseDestroyed \<longrightarrow> phase_at (db w1) (d_id d) \<notin> {None, Some PhaseDestroyed}) \<and>
    (\<forall>ph. x = Inr ph \<longrightarrow> ph = (if d_phase d = PhaseDestroyed then PhaseDestroyed else PhaseDestroying) \<and>
       phase_at (db w1) (d_id d) = Some ph)"
proof -
  let ?i = "d_id d"
  consider (stay) "d_phase d = PhaseDestroyed \<or> d_phase d = PhaseDestroying"
    | (one) "d_phase d \<noteq> PhaseDestroyed" "d_phase d \<noteq> PhaseDestroying"
        "d_phase d = PhaseReady \<or> d_phase d = PhaseFailed \<or> d_phase d = PhaseCrashed \<or> d_phase d = PhaseUnregisteredHealthy"
    | (two) "d_phase d \<noteq> PhaseDestroyed" "d_phase d \<noteq> PhaseDestroying"
        "\<not> (d_phase d = PhaseReady \<or> d_phase d = PhaseFailed \<or> d_phase d = PhaseCrashed \<or> d_phase d = PhaseUnregisteredHealthy)"
    by blast
  then show ?thesis
  proof cases
    case stay
    then have "w1 = w" "x = Inr (d_phase d)" using assms(1) by (auto simp: mark_destroying_def)
    with stay assms(2,3) show ?thesis by (auto intro: destroy_frame_db)
  next
    case one
    obtain r w2 where t: "transition ?i (d_phase d) PhaseDestroying [] w = (r, w2)" by fastforce
    with one assms(1) have x: "w1 = w2" "\<forall>ph. x = Inr ph \<longrightarrow> r = Inr () \<and> ph = PhaseDestroying"
      by (auto simp: mark_destroying_def split: sum.splits)
    have "phase_at (db w2) ?i \<notin> {None, Some PhaseDestroyed}"
        "r = Inr () \<Longrightarrow> phase_at (db w2) ?i = Some PhaseDestroying"
      using transition_phase [OF t assms(2)] assms(3) one(1) by (elim disjE conjE; simp)+
    with transition_frame [OF t assms(2)] one(1) x show ?thesis by (simp, blast)
  next
    case two
    obtain r w2 where t: "transition ?i (d_phase d) PhaseFailed ''destroy requested'' w = (r, w2)" by fastforce
    note f = transition_frame [OF t assms(2)] and p = transition_phase [OF t assms(2)]
    show ?thesis
    proof (cases r)
      case (Inl e)
      with two t assms(1) have "w1 = w2" "x = Inl e" by (auto simp: mark_destroying_def)
      with f p Inl two(1) assms(3) show ?thesis by auto
    next
      case (Inr u)
      have inv: "store_inv (db w2)" using f by (simp add: destroy_frame_def)
      obtain r2 w3 where t2: "transition ?i PhaseFailed PhaseDestroying [] w2 = (r2, w3)" by fastforce
      with two t assms(1) Inr have x: "w1 = w3" "\<forall>ph. x = Inr ph \<longrightarrow> r2 = Inr () \<and> ph = PhaseDestroying"
        by (auto simp: mark_destroying_def split: sum.splits)
      note f2 = transition_frame [OF t2 inv] and p2 = transition_phase [OF t2 inv]
      from f f2 have fr: "destroy_frame d w w3" "osy w3 = osy w" "fsys w3 = fsys w"
        using destroy_frame_trans by auto
      from p Inr have "phase_at (db w2) ?i = Some PhaseFailed" by simp
      with p2 have "phase_at (db w3) ?i \<notin> {None, Some PhaseDestroyed}"
          "r2 = Inr () \<Longrightarrow> phase_at (db w3) ?i = Some PhaseDestroying" by auto
      with fr x two(1) show ?thesis by (simp, blast)
    qed
  qed
qed

lemma stop_effect:
  assumes "stop_runtime d w = (r, w1)" "store_inv (db w)" "0 < d_pid d"
  shows "destroy_frame d w w1 \<and> db w1 = db w \<and> fsys w1 = fsys w \<and>
    (r = Inr () \<longrightarrow> seen_empty (osy w) (osy w1) (d_pid d))"
proof -
  let ?p = "deploymentProcess d"
  obtain st oa where R: "Reconcile ?p (osy w) = (st, oa)" by fastforce
  note q = Reconcile_cases(1) [OF R]
  have only: ?thesis if "w1 = w\<lparr>osy := oa\<rparr>" "r \<noteq> Inr ()"
    using that q assms(2) by (auto simp: destroy_frame_def quiet_def intro: owned_signals_none)
  have pid: "pr_pid ?p = d_pid d" by (simp add: deploymentProcess_def)
  obtain s ob where S: "Stop ?p (10 * 10 ^ 9) oa = (s, ob)" by fastforce
  have stopped: ?thesis if w1: "db w1 = db w" "fsys w1 = fsys w" "envr w1 = envr w" "osy w1 = ob" and r: "r = Inr () \<longrightarrow> s = Inr ()"
    using S assms(3) [folded pid]
  proof (cases rule: Stop_effect)
    case kept
    then have "quiet (osy w) ob" using q by (blast intro: quiet_trans)
    moreover have "seen_empty (osy w) ob (d_pid d)" if "s = Inr ()"
      using kept(2) [OF that] q by (auto simp: seen_empty_def pid quiet_def later_def)
    ultimately show ?thesis using w1 r assms(2)
      by (auto simp: destroy_frame_def quiet_def intro: owned_signals_none)
  next
    case (signalled new oc)
    have l: "later (osy w) oa" using q by (simp add: quiet_def)
    have "later (osy w) ob" using l signalled(1) by (rule later_trans)
    moreover have "owned_signals d w w1"
      unfolding owned_signals_def
    proof (intro exI [of _ new] conjI ballI)
      show "signals (osy w1) = signals (osy w) @ new" using w1(4) signalled(2) q by (simp add: quiet_def)
      fix x assume x: "x \<in> set new"
      show "s_target x = - d_pid d" using x signalled(3) by (simp add: orderly_def pid)
      have "identity_seen ?p oa (s_tick x)"
        using signalled(5,7) x by (meson identity_seen_mono less_imp_le)
      with l show "identity_seen ?p (osy w) (s_tick x)" by (rule identity_seen_later)
    qed
    moreover have "seen_empty (osy w) ob (d_pid d)" if "s = Inr ()"
      using signalled(8) [OF that] l by (auto simp: seen_empty_def pid later_def)
    ultimately show ?thesis using w1 r assms(2) by (auto simp: destroy_frame_def)
  qed
  show ?thesis
  proof (cases st)
    case StatusRunning
    with assms(1) R S show ?thesis
      by (intro stopped) (auto simp: stop_runtime_def Let_def on_os_def say_def split: sum.splits)
  next
    case StatusStale
    with assms(1) R S show ?thesis
      by (intro stopped) (auto simp: stop_runtime_def Let_def on_os_def split: sum.splits)
  next
    case StatusReused
    with assms(1) R show ?thesis by (intro only) (auto simp: stop_runtime_def Let_def on_os_def)
  next
    case StatusUnknown
    with assms(1) R show ?thesis by (intro only) (auto simp: stop_runtime_def Let_def on_os_def)
  qed
qed

lemma finish_effect:
  assumes "finish_destroy d w = (r, w1)" "store_inv (db w)"
  shows "destroy_frame d w w1 \<and> osy w1 = osy w \<and> (r = Inr () \<longrightarrow> phase_at (db w1) (d_id d) = Some PhaseDestroyed)"
proof -
  obtain x f where F: "removeOwnedData (envr w) d (fsys w) = (x, f)" by fastforce
  let ?wa = "w\<lparr>fsys := f\<rparr>"
  show ?thesis
  proof (cases x)
    case (Inl e)
    with assms F have "w1 = ?wa" "r = Inl e" by (simp_all add: finish_destroy_def on_fs_def)
    with assms(2) show ?thesis by (auto intro: destroy_frame_db)
  next
    case (Inr u)
    obtain y wb where T: "transition (d_id d) PhaseDestroying PhaseDestroyed [] ?wa = (y, wb)" by fastforce
    have inv: "store_inv (db ?wa)" using assms(2) by simp
    from assms(1) F Inr T have w1: "db w1 = db wb" "osy w1 = osy wb" "fsys w1 = fsys wb" "envr w1 = envr wb"
        and r: "r = Inr () \<longrightarrow> y = Inr ()"
      by (auto simp: finish_destroy_def on_fs_def split: sum.splits)
    note f = transition_frame [OF T inv]
    have "phase_at (db wb) (d_id d) = Some PhaseDestroyed" if "y = Inr ()"
      using transition_phase [OF T inv] that by simp
    with f w1 r show ?thesis by (simp add: destroy_frame_def owned_signals_def)
  qed
qed

lemma purge_effect:
  assumes "purge_record d purge w = (r, w1)" "store_inv (db w)"
  shows "destroy_frame d w w1 \<and> osy w1 = osy w \<and> fsys w1 = fsys w \<and>
    (r = Inr () \<longrightarrow> phase_at (db w1) (d_id d) = (if purge then None else phase_at (db w) (d_id d)))"
proof (cases purge)
  case False
  with assms show ?thesis by (auto simp: purge_record_def intro: destroy_frame_db)
next
  case True
  obtain x s where D: "Delete (d_id d) (db w) = (x, s)" by fastforce
  with assms(1) True have w1: "db w1 = s" "osy w1 = osy w" "fsys w1 = fsys w" "envr w1 = envr w"
      and r: "r = Inr () \<longrightarrow> x = Inr ()"
    by (auto simp: purge_record_def on_db_def split: sum.splits)
  have inv: "store_inv s" by (rule Delete_inv [OF D assms(2)])
  have other: "deployments s j = deployments (db w) j" if "j \<noteq> d_id d" for j
    using Delete_cases [OF assms(2) D] that same_data_rows(1) by (auto intro: deployments_row)
  have "phase_at s (d_id d) = None" if "x = Inr ()"
    using db.purge_ok [of "db w" "d_id d" "()" s] assms(2) D that by simp
  with w1 r inv other True show ?thesis by (auto intro: destroy_frame_db)
qed

text \<open>
  Data and record are given up only for a deployment that was destroyed before, never had a process,
  or whose group was seen empty.
\<close>

definition released :: "deployment \<Rightarrow> world \<Rightarrow> world \<Rightarrow> bool" where
  "released d w w' = (d_phase d = PhaseDestroyed \<or> d_pid d \<le> 0 \<or> seen_empty (osy w) (osy w') (d_pid d))"

lemma destroyOne_effect:
  assumes "destroyOne d purge w = (r, w')" "store_inv (db w)" "phase_at (db w) (d_id d) = Some (d_phase d)"
  shows "destroy_frame d w w'"
    "fsys w' \<noteq> fsys w \<or> phase_at (db w') (d_id d) \<in> {None, Some PhaseDestroyed} \<Longrightarrow> released d w w'"
    "r = Inr () \<Longrightarrow> phase_at (db w') (d_id d) = (if purge then None else Some PhaseDestroyed)"
proof -
  let ?i = "d_id d"
  let ?goal = "destroy_frame d w w' \<and>
    (fsys w' \<noteq> fsys w \<or> phase_at (db w') ?i \<in> {None, Some PhaseDestroyed} \<longrightarrow> released d w w') \<and>
    (r = Inr () \<longrightarrow> phase_at (db w') ?i = (if purge then None else Some PhaseDestroyed))"
  obtain x w1 where M: "mark_destroying d w = (x, w1)" by fastforce
  note m = mark_effect [OF M assms(2,3)]
  then have inv1: "store_inv (db w1)" by (simp add: destroy_frame_def)
  have ?goal
  proof (cases x)
    case (Inl e)
    with assms(1) M have "w' = w1" "r = Inl e" by (simp_all add: destroyOne_def)
    with m show ?thesis by (auto simp: released_def)
  next
    case (Inr ph)
    show ?thesis
    proof (cases "d_phase d = PhaseDestroyed")
      case True
      then have "ph = PhaseDestroyed" "phase_at (db w1) ?i = Some PhaseDestroyed" using m Inr by auto
      with assms(1) M Inr purge_effect [of d purge w1 r w'] inv1 m True show ?thesis
        by (auto simp: destroyOne_def released_def intro: destroy_frame_trans)
    next
      case False
      then have ph: "ph = PhaseDestroying" and p1: "phase_at (db w1) ?i = Some PhaseDestroying" using m Inr by auto
      define st where "st = (if d_pid d > 0 then stop_runtime d w1 else (Inr (), w1))"
      obtain y w2 where S: "st = (y, w2)" by fastforce
      have s: "destroy_frame d w1 w2 \<and> db w2 = db w1 \<and> fsys w2 = fsys w1 \<and>
          (y = Inr () \<longrightarrow> d_pid d > 0 \<longrightarrow> seen_empty (osy w1) (osy w2) (d_pid d))"
      proof (cases "d_pid d > 0")
        case True
        with S stop_effect [of d w1 y w2] inv1 show ?thesis by (simp add: st_def)
      next
        case False
        with S inv1 show ?thesis by (auto simp: st_def intro: destroy_frame_db)
      qed
      then have f2: "destroy_frame d w w2" using m by (blast intro: destroy_frame_trans)
      show ?thesis
      proof (cases y)
        case (Inl e)
        with assms(1) M \<open>x = Inr ph\<close> ph S have "w' = w2" "r = Inl e" by (simp_all add: destroyOne_def st_def)
        with s m f2 p1 show ?thesis by simp
      next
        case yok: (Inr u)
        have rel: "released d w v" if "osy v = osy w2" for v
          using s yok m that by (auto simp: released_def)
        obtain z w3 where F: "finish_destroy d w2 = (z, w3)" by fastforce
        have inv2: "store_inv (db w2)" using s inv1 by simp
        note f = finish_effect [OF F inv2]
        then have f3: "destroy_frame d w w3" using f2 by (blast intro: destroy_frame_trans)
        show ?thesis
        proof (cases z)
          case (Inl e)
          with assms(1) M \<open>x = Inr ph\<close> ph S yok F have "w' = w3" "r = Inl e"
            by (simp_all add: destroyOne_def st_def)
          with f3 f rel show ?thesis by simp
        next
          case zok: (Inr u)
          have P: "purge_record d purge w3 = (r, w')"
            using assms(1) M \<open>x = Inr ph\<close> ph S yok F zok by (simp add: destroyOne_def st_def)
          have inv3: "store_inv (db w3)" using f by (simp add: destroy_frame_def)
          note p = purge_effect [OF P inv3]
          then have "destroy_frame d w w'" using f3 by (blast intro: destroy_frame_trans)
          with p f zok rel [of w'] show ?thesis by simp
        qed
      qed
    qed
  qed
  then show "destroy_frame d w w'"
    "fsys w' \<noteq> fsys w \<or> phase_at (db w') ?i \<in> {None, Some PhaseDestroyed} \<Longrightarrow> released d w w'"
    "r = Inr () \<Longrightarrow> phase_at (db w') ?i = (if purge then None else Some PhaseDestroyed)" by blast+
qed

section \<open>The destroy command\<close>

definition records :: "deployment list \<Rightarrow> world \<Rightarrow> bool" where
  "records ds w = (distinct (map d_id ds) \<and> (\<forall>d\<in>set ds. deployments (db w) (d_id d) = Some d))"

lemma records_tail:
  assumes "records (d # ds) w" "\<forall>j. j \<noteq> d_id d \<longrightarrow> deployments (db w1) j = deployments (db w) j"
  shows "records ds w1"
proof -
  have "deployments (db w1) (d_id e) = Some e" if e: "e \<in> set ds" for e
  proof -
    have "d_id d \<notin> d_id ` set ds" using assms(1) by (simp add: records_def)
    then have "d_id e \<noteq> d_id d" using e by (metis imageI)
    with assms(2) have "deployments (db w1) (d_id e) = deployments (db w) (d_id e)" by blast
    with assms(1) e show ?thesis by (simp add: records_def)
  qed
  with assms(1) show ?thesis by (simp add: records_def)
qed

lemma destroy_loop_effect:
  assumes "destroy_loop purge first ds w = (res, w')" "store_inv (db w)" "records ds w"
  shows "store_inv (db w') \<and> (\<forall>j. j \<notin> d_id ` set ds \<longrightarrow> deployments (db w') j = deployments (db w) j) \<and>
    (res = None \<longrightarrow> first = None \<and>
      (\<forall>d\<in>set ds. phase_at (db w') (d_id d) = (if purge then None else Some PhaseDestroyed)))"
  using assms
proof (induction ds arbitrary: first w)
  case (Cons d ds)
  have "deployments (db w) (d_id d) = Some d" using Cons.prems(3) by (simp add: records_def)
  then have ph: "phase_at (db w) (d_id d) = Some (d_phase d)" using Cons.prems(2) by (simp add: phase_deployments)
  have new: "d_id d \<notin> d_id ` set ds" using Cons.prems(3) by (simp add: records_def)
  obtain r w1 where D: "destroyOne d purge w = (r, w1)" by fastforce
  note one = destroyOne_effect [OF D Cons.prems(2) ph]
  then have fr: "store_inv (db w1)" "\<forall>j. j \<noteq> d_id d \<longrightarrow> deployments (db w1) j = deployments (db w) j"
    by (simp_all add: destroy_frame_def)
  define w2 where "w2 = (case r of Inl e \<Rightarrow> say (''destroy '' @ d_id d @ '': '' @ error_text e) w1 | Inr u \<Rightarrow> w1)"
  define f2 where "f2 = (case r of Inl e \<Rightarrow> if first = None then Some e else first | Inr u \<Rightarrow> first)"
  have db2: "db w2 = db w1" by (simp add: w2_def split: sum.split)
  have rec2: "records ds w2" using records_tail [OF Cons.prems(3) fr(2)] by (simp add: records_def db2)
  have "destroy_loop purge f2 ds w2 = (res, w')"
    using Cons.prems(1) D by (cases r) (simp_all add: w2_def f2_def)
  from Cons.IH [OF this _ rec2] fr(1)
  have IH: "store_inv (db w')" "\<forall>j. j \<notin> d_id ` set ds \<longrightarrow> deployments (db w') j = deployments (db w1) j"
      "res = None \<Longrightarrow> f2 = None" "res = None \<Longrightarrow> \<forall>e\<in>set ds. phase_at (db w') (d_id e) = (if purge then None else Some PhaseDestroyed)"
    by (simp_all add: db2)
  have same: "deployments (db w') (d_id d) = deployments (db w1) (d_id d)" using IH(2) new by blast
  have "phase_at (db w') (d_id d) = (if purge then None else Some PhaseDestroyed)" if "res = None"
  proof -
    have "r = Inr ()" using IH(3) [OF that] by (cases r) (auto simp: f2_def split: if_splits)
    from one(3) [OF this] same IH(1) fr(1) show ?thesis by (simp add: phase_deployments)
  qed
  moreover have "first = None" if "res = None"
    using IH(3) [OF that] by (cases r) (auto simp: f2_def split: if_splits)
  ultimately show ?case using IH(1,2,4) fr(2) by simp
qed simp

text \<open>Opening the database keeps its rows, also when a migration fails.\<close>

definition same_rows :: "store \<Rightarrow> store \<Rightarrow> bool" where
  "same_rows s t = (rows t = rows s \<and> unique_text t = unique_text s)"

lemma same_rows_refl [simp]: "same_rows s s"
  by (simp add: same_rows_def)

lemma same_rows_trans [trans]: "same_rows s t \<Longrightarrow> same_rows t u \<Longrightarrow> same_rows s u"
  by (simp add: same_rows_def)

lemma same_rows_inv: "same_rows s t \<Longrightarrow> store_inv t = store_inv s"
  by (simp add: same_rows_def store_inv_def)

lemma same_rows_deployments: "same_rows s t \<Longrightarrow> deployments t = deployments s"
  by (simp add: same_rows_def deployments_def fun_eq_iff)

lemma sql_call_rows:
  assumes "sql_call f u = (x, v)" "\<And>t. same_rows t (snd (f t))"
  shows "same_rows u v"
  using assms(1)
proof (cases rule: sql_callE)
  case (fault e)
  then show ?thesis by (simp add: same_rows_def same_data_def)
next
  case (run t)
  then show ?thesis using assms(2) [of t] by (simp add: same_rows_def same_data_def)
qed

lemma run_migration_rows: "run_migration i u = (x, v) \<Longrightarrow> same_rows u v"
proof -
  assume m: "run_migration i u = (x, v)"
  obtain x1 s1 where 1: "sql_call (\<lambda>s. (Inr (), s)) u = (x1, s1)" by fastforce
  obtain x2 s2 where 2: "sql_call (\<lambda>s. (apply_stmt (migrations ! i) (columns s), s)) s1 = (x2, s2)" by fastforce
  obtain x3 s3 where 3: "sql_call (\<lambda>s. (Inr (), s)) s2 = (x3, s3)" by fastforce
  obtain cs x4 s4 where 4: "sql_call (\<lambda>s. (Inr (), s\<lparr>columns := cs, user_version := i + 1\<rparr>)) s3 = (x4, s4)"
      and cs: "\<forall>c. x2 = Inr c \<longrightarrow> cs = c" by (cases x2) fastforce+
  have r: "same_rows u s1" "same_rows s1 s2" "same_rows s2 s3" "same_rows s3 s4"
    using sql_call_rows [OF 1] sql_call_rows [OF 2] sql_call_rows [OF 3] sql_call_rows [OF 4]
    by (simp_all add: same_rows_def)
  have "v \<in> {s1, s2, s3, s4}"
    using m 1 2 3 4 cs by (auto simp: run_migration_def split: sum.splits)
  with r show ?thesis by (blast intro: same_rows_trans)
qed

lemma migrate_from_rows: "migrate_from i u = (x, v) \<Longrightarrow> same_rows u v"
proof (induction i u arbitrary: x v rule: migrate_from.induct)
  case (1 i u)
  obtain y s1 where m: "run_migration i u = (y, s1)" by fastforce
  note r = run_migration_rows [OF m]
  show ?case
  proof (cases "i < length migrations \<and> y = Inr ()")
    case True
    then have "migrate_from (Suc i) s1 = (x, v)" using "1.prems" m by (subst (asm) migrate_from.simps) simp
    then have "same_rows s1 v" using m True by (intro "1.IH") auto
    with r show ?thesis by (rule same_rows_trans)
  next
    case False
    then have "v = u \<or> v = s1" using "1.prems" m by (subst (asm) migrate_from.simps) (auto split: if_splits sum.splits)
    with r show ?thesis by auto
  qed
qed

lemma migrate_rows: "migrate s = (r, s') \<Longrightarrow> same_rows s s'"
proof -
  assume m: "migrate s = (r, s')"
  obtain y s1 where c: "sql_call (\<lambda>s. (Inr (user_version s), s)) s = (y, s1)" by fastforce
  then have r: "same_rows s s1" by (rule sql_call_rows) simp
  show ?thesis
  proof (cases "\<exists>n. y = Inr n \<and> migrate_from n s1 = (r, s')")
    case True
    with r show ?thesis by (blast intro: same_rows_trans migrate_from_rows)
  next
    case False
    with m c have "s' = s1" by (auto simp: migrate_def split: sum.splits if_splits)
    with r show ?thesis by simp
  qed
qed

lemma open_state_effect:
  assumes "open_state w = (r, w1)" "store_inv (db w)"
  shows "store_inv (db w1)" "deployments (db w1) = deployments (db w)" "osy w1 = osy w" "fsys w1 = fsys w" "envr w1 = envr w"
proof -
  have "\<exists>s. same_rows (db w) s \<and> w1 = w\<lparr>db := s\<rparr>"
  proof (cases "open_err w")
    case None
    with assms(1) show ?thesis by (auto simp: open_state_def on_db_eq dest: migrate_rows)
  next
    case (Some e)
    with assms(1) have "w1 = w\<lparr>db := db w\<rparr>" by (simp add: open_state_def)
    then show ?thesis using same_rows_refl by blast
  qed
  then obtain s where s: "same_rows (db w) s" "w1 = w\<lparr>db := s\<rparr>" by blast
  show "store_inv (db w1)" "deployments (db w1) = deployments (db w)" "osy w1 = osy w" "fsys w1 = fsys w" "envr w1 = envr w"
    using s same_rows_inv [OF s(1)] same_rows_deployments [OF s(1)] assms(2) by simp_all
qed

text \<open>
  What the argument loop accepts: the two flags in any order and, besides empty arguments before it, at
  most one name.
\<close>

definition operands :: "string list \<Rightarrow> string list" where
  "operands args = filter (\<lambda>a. a \<noteq> ''--all'' \<and> a \<noteq> ''--purge'') args"

definition one_name :: "string \<Rightarrow> string list \<Rightarrow> bool" where
  "one_name i ops = (ops = replicate (length ops) [] \<and> i = [] \<or>
     ops \<noteq> [] \<and> i \<noteq> [] \<and> ops = replicate (length ops - 1) [] @ [i] \<and> \<not> has_prefix i ''-'')"

lemma one_name_Nil [simp]: "one_name i [] = (i = [])"
  by (simp add: one_name_def)

lemma one_name_empty [simp]: "one_name i ([] # ops) = one_name i ops"
  by (cases ops) (auto simp: one_name_def)

lemma one_name_Cons: "a \<noteq> [] \<Longrightarrow> one_name i (a # ops) = (ops = [] \<and> i = a \<and> \<not> has_prefix a ''-'')"
  by (cases ops) (auto simp: one_name_def)

lemma destroy_args_named:
  "i \<noteq> [] \<Longrightarrow> destroy_args all purge i args = Inr (all', purge', i') \<longleftrightarrow>
     all' = (all \<or> ''--all'' \<in> set args) \<and> purge' = (purge \<or> ''--purge'' \<in> set args) \<and>
     operands args = [] \<and> i' = i \<and> \<not> all'"
  by (induction all purge i args rule: destroy_args.induct) (auto simp: operands_def)

lemma destroy_args_loop:
  "destroy_args all purge [] args = Inr (all', purge', i') \<longleftrightarrow>
     all' = (all \<or> ''--all'' \<in> set args) \<and> purge' = (purge \<or> ''--purge'' \<in> set args) \<and>
     one_name i' (operands args) \<and> all' \<noteq> (i' \<noteq> [])"
proof (induction args arbitrary: all purge)
  case (Cons a as)
  consider "a = ''--all''" | "a = ''--purge''" | "a = []" | "a \<noteq> ''--all''" "a \<noteq> ''--purge''" "a \<noteq> []" by blast
  then show ?case
  proof cases
    case 3
    then show ?thesis using Cons by (simp add: operands_def has_prefix_def)
  next
    case 4
    then show ?thesis
      by (auto simp: destroy_args_named one_name_Cons operands_def)
  qed (use Cons in \<open>simp_all add: operands_def\<close>)
qed (auto simp: operands_def)

lemma destroy_args_fails: "destroy_args all purge i args = Inl e \<Longrightarrow> e = destroy_usage"
  by (induction all purge i args rule: destroy_args.induct) (auto split: if_splits)

lemma runDestroy_all:
  assumes "runDestroy args w = (Inr (), w')" "store_inv (db w)" "''--all'' \<in> set args"
  shows "phase_at (db w') i \<in> (if ''--purge'' \<in> set args then {None} else {None, Some PhaseDestroyed})"
proof -
  obtain purge where A: "destroy_args False False [] args = Inr (True, purge, [])" and p: "purge = (''--purge'' \<in> set args)"
  proof (cases "destroy_args False False [] args")
    case (Inl e)
    with assms(1) show ?thesis by (simp add: runDestroy_def)
  next
    case (Inr t)
    obtain a b c where t: "t = (a, b, c)" by (cases t)
    with Inr assms(3) show ?thesis using destroy_args_loop [of False False args a b c] that by auto
  qed
  have lock: "lock_err w = None" using assms(1) A by (auto simp: runDestroy_def split: option.splits)
  obtain x w1 where O: "open_state w = (x, w1)" by fastforce
  obtain y w2 where R: "recoverInterruptedDeployments w1 = (y, w2)" by fastforce
  obtain z s where L: "ListAll (db w2) = (z, s)" by fastforce
  have ok: "x = Inr ()" "y = Inr ()"
    using assms(1) A lock O R by (auto simp: runDestroy_def split: sum.splits)
  obtain ds where z: "z = Inr ds"
    using assms(1) A lock O R ok L by (cases z) (auto simp: runDestroy_def on_db_def)
  obtain first w4 where D: "destroy_loop purge None ds (w2\<lparr>db := s\<rparr>) = (first, w4)" by fastforce
  have w': "db w' = db w4" "first = None"
    using assms(1) A lock O R ok L z D by (auto simp: runDestroy_def on_db_def say_def split: option.splits)
  have inv1: "store_inv (db w1)" by (rule open_state_effect [OF O assms(2)])
  then have inv2: "store_inv (db w2)" using recover_effect [OF R] by (simp add: observing_def)
  note l = ListAll_result [OF inv2 L [unfolded z]]
  have inv3: "store_inv s" and dep: "deployments s = deployments (db w2)"
    using l inv2 store_inv_data same_data_rows(1) by (auto simp: deployments_def fun_eq_iff)
  have rec: "records ds (w2\<lparr>db := s\<rparr>)" using l dep by (simp add: records_def)
  note e = destroy_loop_effect [OF D _ rec]
  show ?thesis
  proof (cases "i \<in> d_id ` set ds")
    case True
    with e inv3 w' p show ?thesis by auto
  next
    case False
    then have "deployments (db w2) i = None"
    proof (cases "deployments (db w2) i")
      case (Some d)
      have "d_id d = i" by (rule deployments_phase(2) [OF inv2 Some])
      with l Some False show ?thesis by (metis imageI)
    qed
    then have "phase_at (db w') i = None"
      using e inv3 dep False w'(1) by (simp add: phase_deployments)
    then show ?thesis by simp
  qed
qed

lemma Get_found:
  assumes "store_inv s" "Get i s = (Inr d, s')"
  shows "deployments s i = Some d"
proof -
  obtain q s1 where q: "sql_select (\<lambda>r. r_id r = i) s = (q, s1)" by fastforce
  with assms(2) obtain r rs where rs: "q = Inr (r # rs)" "scanDeployment r = Inr d"
    by (auto simp: Get_def split: sum.splits list.splits)
  have "r # rs = filter (\<lambda>r. r_id r = i) (rows s)"
    using q rs(1) unfolding sql_select_def by (elim sql_callE) (auto simp: same_data_def)
  then have "r \<in> set (filter (\<lambda>r. r_id r = i) (rows s))" by (metis list.set_intros(1))
  then have "r \<in> set (rows s)" "r_id r = i" by auto
  with row_at_unique [of "rows s" r] assms(1) rs(2) show ?thesis
    by (simp add: store_inv_def deployments_def)
qed

lemma runStatus_busy:
  assumes "runStatus args w = (r, w')" "lock_err w = Some e" "store_inv (db w)"
  shows "osy w' = osy w \<and> fsys w' = fsys w \<and> deployments (db w') = deployments (db w) \<and>
    (\<forall>ds. r = Inr ds \<longrightarrow> (\<forall>d\<in>set ds. deployments (db w) (d_id d) = Some d))"
proof (cases "status_args [] False args")
  case (Inl x)
  with assms(1) show ?thesis by (auto simp: runStatus_def)
next
  case (Inr t)
  obtain i js where t: "status_args [] False args = Inr (i, js)" using Inr by (cases t) auto
  obtain x w1 where O: "open_state w = (x, w1)" by fastforce
  note o = open_state_effect [OF O assms(3)]
  show ?thesis
  proof (cases "errors_is ErrBusy e \<and> x = Inr ()")
    case False
    with assms(1,2) t O have "\<exists>y. r = Inl y" "w' = w \<or> w' = w1"
      by (auto simp: runStatus_def split: sum.splits if_splits)
    with o show ?thesis by auto
  next
    case True
    show ?thesis
    proof (cases "i = []")
      case True
      obtain q s where L: "ListAll (db w1) = (q, s)" by fastforce
      have rw: "r = q" "w' = w1\<lparr>db := s\<rparr>"
        using assms(1,2) t O \<open>errors_is ErrBusy e \<and> x = Inr ()\<close> True L
        by (auto simp: runStatus_def on_db_def split: if_splits)
      have "deployments s = deployments (db w1)"
        using same_data_rows(1) [OF ListAll_effect [OF L]] by (simp add: deployments_def fun_eq_iff)
      with rw o ListAll_result [OF o(1)] L show ?thesis by auto
    next
      case False
      obtain q s where G: "Get i (db w1) = (q, s)" by fastforce
      have rw: "r = (case q of Inl y \<Rightarrow> Inl y | Inr d \<Rightarrow> Inr [d])" "w' = w1\<lparr>db := s\<rparr>"
        using assms(1,2) t O \<open>errors_is ErrBusy e \<and> x = Inr ()\<close> False G
        by (auto simp: runStatus_def on_db_def split: sum.splits)
      have "deployments s = deployments (db w1)"
        using same_data_rows(1) [OF Get_effect [OF G]] by (simp add: deployments_def fun_eq_iff)
      moreover have "deployments (db w1) (d_id d) = Some d" if "q = Inr d" for d
        using Get_found [OF o(1)] G that deployments_phase(2) [OF o(1)] by blast
      ultimately show ?thesis using rw o by (auto split: sum.splits)
    qed
  qed
qed

section \<open>Properties of the lifecycle commands\<close>

text \<open>
  A world with three records: one served by the process of \<open>demo_process\<close>, one interrupted while
  downloading, and one that crashed before a process was recorded and owns a model cache.
\<close>

definition demo_served :: deployment where
  "demo_served = demo_owner\<lparr>d_id := ''m-3'', d_model_cache_dir := [], d_pid := 7, d_command := ''vllm serve'',
     d_started_at := 1005 * 10 ^ 9, d_start_token := ''linux:500'',
     d_created_at := 10 ^ 9, d_updated_at := 10 ^ 9\<rparr>"

definition demo_world :: "deployment list \<Rightarrow> os \<Rightarrow> world" where
  "demo_world ds o1 = \<lparr>db = \<lparr>rows = map row_of ds, columns = schema 5, user_version = 5, faults = [],
       unique_text = ''UNIQUE constraint failed: deployments.id''\<rparr>,
     osy = o1, fsys = demo_fs, envr = demo_env, lock_err = None, open_err = None, out = []\<rparr>"

definition demo_records :: "deployment list" where
  "demo_records = [demo_served, demo_owner\<lparr>d_id := ''m-4'', d_model_cache_dir := [], d_phase := PhaseDownloading\<rparr>,
     demo_owner\<lparr>d_phase := PhaseCrashed\<rparr>]"

lemma demo_world_inv: "store_inv (db (demo_world demo_records o1))"
  by code_simp

text \<open>
  C9. Recovery reads the world and corrects the records: it sends no signal and touches no file, also
  when it fails half-way; when it succeeds, every record is settled: it was down before, or it is CRASHED
  now, or it is unchanged in a served phase and the process it records was seen alive with the recorded
  start token and command line while recovery ran.
\<close>

theorem recovery_settles:
  assumes "recoverInterruptedDeployments w = (r, w')" "store_inv (db w)"
  shows "signals (osy w') = signals (osy w) \<and> fsys w' = fsys w \<and> store_inv (db w') \<and>
    (r = Inr () \<longrightarrow> (\<forall>i d. deployments (db w) i = Some d \<longrightarrow> settled w w' d))"
  using recover_effect [OF assms] by (simp add: observing_def quiet_def)

theorem recovery_settles_witness:
  "settled (demo_world demo_records demo_steady)
     (snd (recoverInterruptedDeployments (demo_world demo_records demo_steady))) demo_served"
proof -
  let ?w = "demo_world demo_records demo_steady"
  have "fst (recoverInterruptedDeployments ?w) = Inr ()" by code_simp
  then have "recoverInterruptedDeployments ?w = (Inr (), snd (recoverInterruptedDeployments ?w))"
    by (metis prod.collapse)
  moreover have "deployments (db ?w) ''m-3'' = Some demo_served" by code_simp
  ultimately show ?thesis using recovery_settles demo_world_inv by blast
qed

text \<open>
  C8. \<open>destroyOne\<close> is safe: every signal it sends goes to the process group recorded for the
  deployment, after the process at its head was seen with the recorded start token and command line;
  files are removed and the record becomes DESTROYED or is purged only if the deployment was destroyed
  before, has no recorded process, or no member of the group was left at the last look. Other records are
  not touched, and success means DESTROYED, or with \<open>--purge\<close> no record at all.
\<close>

theorem destroy_releases_only_stopped:
  assumes "destroyOne d purge w = (r, w')" "store_inv (db w)" "deployments (db w) (d_id d) = Some d"
  shows "owned_signals d w w' \<and> store_inv (db w') \<and>
    (\<forall>j. j \<noteq> d_id d \<longrightarrow> deployments (db w') j = deployments (db w) j) \<and>
    (fsys w' \<noteq> fsys w \<or> phase_at (db w') (d_id d) \<in> {None, Some PhaseDestroyed} \<longrightarrow> released d w w') \<and>
    (r = Inr () \<longrightarrow> phase_at (db w') (d_id d) = (if purge then None else Some PhaseDestroyed))"
proof -
  have "phase_at (db w) (d_id d) = Some (d_phase d)" using assms(2,3) by (rule deployments_phase)
  from destroyOne_effect [OF assms(1,2) this] show ?thesis by (simp add: destroy_frame_def)
qed

theorem destroy_releases_only_stopped_witness:
  "released demo_served (demo_world demo_records (demo_os 13))
     (snd (destroyOne demo_served True (demo_world demo_records (demo_os 13)))) \<and>
   phase_at (db (snd (destroyOne demo_served True (demo_world demo_records (demo_os 13))))) ''m-3'' = None"
proof -
  let ?w = "demo_world demo_records (demo_os 13)"
  let ?w' = "snd (destroyOne demo_served True ?w)"
  have "fst (destroyOne demo_served True ?w) = Inr ()" by code_simp
  then have d: "destroyOne demo_served True ?w = (Inr (), ?w')" by (metis prod.collapse)
  have i: "d_id demo_served = ''m-3''" by code_simp
  have "deployments (db ?w) (d_id demo_served) = Some demo_served" by code_simp
  from destroy_releases_only_stopped [OF d demo_world_inv this] i show ?thesis by simp
qed

text \<open>
  C13. \<open>iold destroy --all\<close> is complete: when it reports success, no record is left in any phase
  but DESTROYED, and with \<open>--purge\<close> no record is left, whatever was interrupted before.
\<close>

theorem destroy_all_complete:
  assumes "runDestroy args w = (Inr (), w')" "store_inv (db w)" "''--all'' \<in> set args"
  shows "phase_at (db w') i \<in> (if ''--purge'' \<in> set args then {None} else {None, Some PhaseDestroyed})"
  using assms by (rule runDestroy_all)

theorem destroy_all_complete_witness:
  "phase_at (db (snd (runDestroy [''--all''] (demo_world demo_records (demo_os 20))))) ''m-3'' \<in> {None, Some PhaseDestroyed}"
proof -
  let ?w = "demo_world demo_records (demo_os 20)"
  have "fst (runDestroy [''--all''] ?w) = Inr ()" by code_simp
  then have "runDestroy [''--all''] ?w = (Inr (), snd (runDestroy [''--all''] ?w))" by (metis prod.collapse)
  from destroy_all_complete [OF this demo_world_inv, of "''m-3''"] show ?thesis by simp
qed

text \<open>
  The arguments of destroy: \<open>--all\<close> and \<open>--purge\<close> in any order, and exactly one of
  \<open>--all\<close> and a name that does not start with a dash; empty arguments are ignored before the name
  only. Anything else is a usage error, with exit code 2, that leaves the world as it was.
\<close>

theorem destroy_args_exact:
  "(destroy_args False False [] args = Inr (all, purge, i) \<longleftrightarrow>
      all = (''--all'' \<in> set args) \<and> purge = (''--purge'' \<in> set args) \<and>
      one_name i (operands args) \<and> all \<noteq> (i \<noteq> [])) \<and>
   (destroy_args False False [] args = Inl e \<longrightarrow>
      runDestroy args w = (Inl e, w) \<and> errors_is ErrUsage e \<and> exit_code (Some e) = 2)"
  using destroy_args_loop [of False False args all purge i] destroy_args_fails [of False False "[]" args e]
  by (auto simp: runDestroy_def destroy_usage_def exit_code_def)

theorem destroy_args_exact_witness:
  "runDestroy [''x'', ''y''] (demo_world [] demo_steady) = (Inl destroy_usage, demo_world [] demo_steady) \<and>
   exit_code (Some destroy_usage) = 2"
proof -
  have "destroy_args False False [] [''x'', ''y''] = Inl destroy_usage" by (simp add: has_prefix_def)
  with destroy_args_exact [of "[''x'', ''y'']" _ _ _ destroy_usage "demo_world [] demo_steady"]
  show ?thesis by blast
qed

text \<open>
  Status beside a running command: when the operation lock is held elsewhere, \<open>iold status\<close>
  does not recover, so no process is probed, no file and no record changes, and what it prints are the
  records of the store.
\<close>

theorem status_beside_writer:
  assumes "runStatus args w = (r, w')" "lock_err w = Some e" "store_inv (db w)"
  shows "osy w' = osy w \<and> fsys w' = fsys w \<and> deployments (db w') = deployments (db w) \<and>
    (\<forall>ds. r = Inr ds \<longrightarrow> (\<forall>d\<in>set ds. deployments (db w) (d_id d) = Some d))"
  using assms by (rule runStatus_busy)

theorem status_beside_writer_witness:
  "osy (snd (runStatus [] (demo_world demo_records demo_steady\<lparr>lock_err := Some (Sentinel ErrBusy)\<rparr>))) = demo_steady"
proof -
  let ?w = "demo_world demo_records demo_steady\<lparr>lock_err := Some (Sentinel ErrBusy)\<rparr>"
  have "runStatus [] ?w = (fst (runStatus [] ?w), snd (runStatus [] ?w))" by simp
  moreover have "store_inv (db ?w)" using demo_world_inv by simp
  ultimately have "osy (snd (runStatus [] ?w)) = osy ?w"
    using status_beside_writer [of "[]" ?w _ _ "Sentinel ErrBusy"] by fastforce
  then show ?thesis by (simp add: demo_world_def)
qed

text \<open>
  The process may exit between the two looks of \<open>Reconcile\<close> and \<open>Stop\<close>: then the
  destruction of a deployment whose group is already gone fails with \<open>ErrNotOwned\<close>.
\<close>

definition fails_not_owned :: "unit result \<Rightarrow> bool" where
  "fails_not_owned r = (case r of Inl e \<Rightarrow> errors_is ErrNotOwned e | Inr u \<Rightarrow> False)"

lemma exit_during_destroy_is_not_owned:
  "fails_not_owned (fst (destroyOne demo_served False (demo_world demo_records (demo_os 11)))) \<and>
   signals (osy (snd (destroyOne demo_served False (demo_world demo_records (demo_os 11))))) = [] \<and>
   targets (view (demo_os 11) 11) (- 7) = []"
  by code_simp

end
