(* ===== verification/Numbers.thy ===== *)
theory Numbers imports Processes "HOL-Library.Log_Nat" Complex_Main begin

text \<open>
  Go's \<open>float64\<close> and the conversions the code uses. A finite float is a rational; each operation is the
  exact one followed by \<open>rnd\<close>, rounding to 53 significant bits, half to even. The exponent is not
  bounded: no value of the program comes near the ends of its range, except the powers of
  \<open>retry.Policy.Delay\<close>, where infinity and a huge value compare and convert alike. \<open>to_int64\<close>
  is the conversion of a float to \<open>int64\<close>, which truncates, and gives the least integer out of range
  (amd64).
\<close>

section \<open>Rounding\<close>

text \<open>To the nearest integer, half to even.\<close>

definition round_even :: "rat \<Rightarrow> int" where
  "round_even q = (let f = floor q; d = q - of_int f
     in if d < 1 / 2 \<or> d = 1 / 2 \<and> even f then f else f + 1)"

text \<open>The power of two at or below a positive rational.\<close>

definition exponent :: "rat \<Rightarrow> int" where
  "exponent q = (case quotient_of \<bar>q\<bar> of (n, d) \<Rightarrow>
     let e = int (floorlog 2 (nat n)) - int (floorlog 2 (nat d))
     in if (2 :: rat) powi e \<le> \<bar>q\<bar> then e else e - 1)"

text \<open>The same with \<open>bitlen\<close>, which evaluates on binary numbers.\<close>

lemma exponent_code [code]:
  "exponent q = (case quotient_of \<bar>q\<bar> of (n, d) \<Rightarrow>
     let e = bitlen n - bitlen d in if (2 :: rat) powi e \<le> \<bar>q\<bar> then e else e - 1)"
  by (simp add: exponent_def bitlen_def)

declare compute_bitlen [code]

definition rnd :: "rat \<Rightarrow> rat" where
  "rnd q = (if q = 0 then 0 else let u = 2 powi (exponent q - 52) in of_int (round_even (q / u)) * u)"

definition to_int64 :: "rat \<Rightarrow> int" where
  "to_int64 q = (let t = (if q < 0 then - floor (- q) else floor q)
     in if - (2 ^ 63) \<le> t \<and> t < 2 ^ 63 then t else - (2 ^ 63))"

lemma round_even_int [simp]: "round_even (of_int n) = n"
  by (simp add: round_even_def)

lemma round_even_bounds: "of_int (round_even q) - 1 / 2 \<le> q \<and> q \<le> of_int (round_even q) + 1 / 2"
  unfolding round_even_def Let_def by (auto split: if_splits) (linarith+)

lemma round_even_mono: "p \<le> q \<Longrightarrow> round_even p \<le> round_even q"
proof -
  assume pq: "p \<le> q"
  then have f: "floor p \<le> floor q" by (rule floor_mono)
  show ?thesis
  proof (cases "floor p = floor q")
    case True
    with pq show ?thesis by (auto simp: round_even_def Let_def)
  next
    case False
    with f have "floor p + 1 \<le> floor q" by simp
    moreover have "round_even p \<le> floor p + 1" "floor q \<le> round_even q" by (simp_all add: round_even_def Let_def)
    ultimately show ?thesis by simp
  qed
qed

lemma round_even_minus: "round_even (- q) = - round_even q"
proof (cases "q = of_int (floor q)")
  case True
  then have "- q = of_int (- floor q)" by simp
  with True show ?thesis using round_even_int by metis
next
  case False
  have lt: "of_int (floor q) < q" using False by (metis floor_correct less_le)
  have f: "floor (- q) = - floor q - 1"
    using lt floor_correct [of q] by (intro floor_unique) simp_all
  show ?thesis unfolding round_even_def Let_def f by (auto simp: algebra_simps)
qed

lemma pow2_add: "(2 :: rat) powi (a + b) = 2 powi a * 2 powi b"
  by (simp add: power_int_add)

lemma pow2_diff: "(2 :: rat) powi (a - b) = 2 powi a / 2 powi b"
  by (simp add: power_int_diff)

lemma pow2_le: "(2 :: rat) powi a \<le> 2 powi b \<longleftrightarrow> a \<le> b"
  by (meson not_le one_less_numeral_iff power_int_increasing power_int_strict_increasing semiring_norm(76) less_imp_le)

lemma pow2_less: "(2 :: rat) powi a < 2 powi b \<longleftrightarrow> a < b"
  by (simp add: pow2_le flip: not_le)

lemma exponent_bounds:
  assumes "q \<noteq> 0"
  shows "2 powi (exponent q) \<le> \<bar>q\<bar> \<and> \<bar>q\<bar> < 2 powi (exponent q + 1)"
proof -
  obtain n d where nd: "quotient_of \<bar>q\<bar> = (n, d)" by fastforce
  then have d: "0 < d" by (rule quotient_of_denom_pos)
  have q: "\<bar>q\<bar> = of_int n / of_int d" using nd by (rule quotient_of_div)
  with assms d have n: "0 < n" by (metis divide_pos_pos of_int_0_less_iff zero_less_abs_iff zero_less_divide_iff not_less_iff_gr_or_eq)
  define a b where "a = int (floorlog 2 (nat n))" and "b = int (floorlog 2 (nat d))"
  have len: "(2 :: rat) powi (int (floorlog 2 (nat x)) - 1) \<le> of_int x \<and> of_int x < (2 :: rat) powi int (floorlog 2 (nat x))"
    if "0 < x" for x
  proof -
    from floorlog_bounds [of "nat x" 2] that
    have b: "2 ^ (floorlog 2 (nat x) - 1) \<le> nat x" "nat x < 2 ^ floorlog 2 (nat x)" by auto
    have p: "floorlog 2 (nat x) \<noteq> 0" using b(2) that by (metis gr0I less_one power_0 zero_less_nat_eq not_less_eq less_numeral_extra(3))
    have "(of_int x :: rat) = of_nat (nat x)" using that by simp
    moreover have "(of_nat (2 ^ (floorlog 2 (nat x) - 1)) :: rat) \<le> of_nat (nat x)" using b(1) by (simp only: of_nat_le_iff)
    moreover have "(of_nat (nat x) :: rat) < of_nat (2 ^ floorlog 2 (nat x))" using b(2) by (simp only: of_nat_less_iff)
    moreover have "int (floorlog 2 (nat x)) - 1 = int (floorlog 2 (nat x) - 1)" using p by simp
    ultimately show ?thesis by (simp only: power_int_of_nat of_nat_power of_nat_numeral)
  qed
  have ln: "(2 :: rat) powi (a - 1) \<le> of_int n" "of_int n < (2 :: rat) powi a" using len [OF n] by (auto simp: a_def)
  have ld: "(2 :: rat) powi (b - 1) \<le> of_int d" "of_int d < (2 :: rat) powi b" using len [OF d] by (auto simp: b_def)
  have pos: "(0 :: rat) < of_int d" "(0 :: rat) < of_int n" using d n by simp_all
  have up: "\<bar>q\<bar> < 2 powi (a - b + 1)"
  proof -
    have "\<bar>q\<bar> < 2 powi a / of_int d" using ln(2) pos(1) by (simp add: q divide_strict_right_mono)
    also have "\<dots> \<le> 2 powi a / 2 powi (b - 1)" using ld(1) pos(1) by (intro divide_left_mono) simp_all
    also have "\<dots> = 2 powi (a - b + 1)" by (simp add: pow2_diff pow2_add)
    finally show ?thesis .
  qed
  have lo: "2 powi (a - b - 1) \<le> \<bar>q\<bar>"
  proof -
    have "(2 :: rat) powi (a - b - 1) = 2 powi (a - 1) / 2 powi b" by (simp add: pow2_diff pow2_add)
    also have "\<dots> \<le> of_int n / 2 powi b" using ln(1) by (intro divide_right_mono) simp_all
    also have "\<dots> \<le> of_int n / of_int d" using ld(2) pos by (intro divide_left_mono) simp_all
    finally show ?thesis by (simp add: q)
  qed
  show ?thesis using up lo by (simp add: exponent_def nd Let_def a_def [symmetric] b_def [symmetric] not_le add.commute)
qed

lemma exponent_minus [simp]: "exponent (- q) = exponent q"
  by (simp add: exponent_def)

lemma exponent_mono:
  assumes "0 < x" "x \<le> y"
  shows "exponent x \<le> exponent y"
proof -
  have "(2 :: rat) powi exponent x < 2 powi (exponent y + 1)"
    using exponent_bounds [of x] exponent_bounds [of y] assms by (auto intro: le_less_trans order_trans)
  then show ?thesis by (simp add: pow2_less)
qed

lemma rnd_minus: "rnd (- q) = - rnd q"
  by (simp add: rnd_def Let_def round_even_minus)

lemma rnd_range:
  assumes "0 < q"
  shows "2 powi (exponent q) \<le> rnd q \<and> rnd q \<le> 2 powi (exponent q + 1)"
proof -
  define u :: rat where "u = 2 powi (exponent q - 52)"
  have u: "0 < u" by (simp add: u_def)
  have e: "2 powi (exponent q) = of_int (2 ^ 52) * u" "2 powi (exponent q + 1) = of_int (2 ^ 53) * u"
    by (simp_all add: u_def pow2_diff pow2_add)
  have b: "2 powi (exponent q) \<le> q" "q < 2 powi (exponent q + 1)" using exponent_bounds [of q] assms by simp_all
  have "of_int (2 ^ 52) \<le> q / u" "q / u \<le> of_int (2 ^ 53)"
    using b u unfolding e by (simp_all add: pos_le_divide_eq pos_divide_le_eq)
  then have "2 ^ 52 \<le> round_even (q / u)" "round_even (q / u) \<le> 2 ^ 53"
    using round_even_mono [of "of_int (2 ^ 52)" "q / u"] round_even_mono [of "q / u" "of_int (2 ^ 53)"]
    by (simp_all only: round_even_int)
  then have "of_int (2 ^ 52) * u \<le> of_int (round_even (q / u)) * u" "of_int (round_even (q / u)) * u \<le> of_int (2 ^ 53) * u"
    using u by (simp_all only: mult_le_cancel_right_pos of_int_le_iff)
  then show ?thesis using assms by (simp add: rnd_def u_def [symmetric] Let_def e)
qed

lemma rnd_mono_pos:
  assumes "0 < x" "x \<le> y"
  shows "rnd x \<le> rnd y"
proof (cases "exponent x = exponent y")
  case True
  have "x / 2 powi (exponent y - 52) \<le> y / 2 powi (exponent y - 52)" using assms(2) by (simp add: divide_right_mono)
  from round_even_mono [OF this] True assms show ?thesis by (simp add: rnd_def Let_def)
next
  case False
  with exponent_mono [OF assms] have "exponent x + 1 \<le> exponent y" by simp
  then have "(2 :: rat) powi (exponent x + 1) \<le> 2 powi exponent y" by (simp only: pow2_le)
  with rnd_range [of x] rnd_range [of y] assms show ?thesis by linarith
qed

lemma rnd_sign: "0 < q \<Longrightarrow> 0 < rnd q" "q < 0 \<Longrightarrow> rnd q < 0" "rnd 0 = 0"
proof -
  show p: "0 < rnd q" if "0 < q" for q
    using rnd_range [OF that] by (meson less_le_trans zero_less_power_int zero_less_numeral)
  show "rnd q < 0" if "q < 0" using p [of "- q"] that by (simp add: rnd_minus)
  show "rnd 0 = 0" by (simp add: rnd_def)
qed

lemma rnd_monotone: "x \<le> y \<Longrightarrow> rnd x \<le> rnd y"
proof -
  assume xy: "x \<le> y"
  consider "0 < x" | "x \<le> 0" "0 \<le> y" | "y < 0" by linarith
  then show ?thesis
  proof cases
    case 1
    then show ?thesis using xy by (rule rnd_mono_pos)
  next
    case 2
    with rnd_sign(1) [of y] rnd_sign(2) [of x] rnd_sign(3) show ?thesis by (cases "x = 0"; cases "y = 0") auto
  next
    case 3
    with rnd_mono_pos [of "- y" "- x"] xy show ?thesis by (simp add: rnd_minus)
  qed
qed

text \<open>The numbers of at most 53 significant bits are floats.\<close>

lemma rnd_small:
  assumes "\<bar>m\<bar> < 2 ^ 53"
  shows "rnd (of_int m * 2 powi k) = of_int m * 2 powi k"
proof (cases "m = 0")
  case False
  let ?q = "(of_int m :: rat) * 2 powi k"
  have q: "?q \<noteq> 0" using False by simp
  have "\<bar>of_int m :: rat\<bar> < of_int (2 ^ 53)" using assms by (metis of_int_abs of_int_less_iff)
  then have "\<bar>?q\<bar> < 2 powi (53 + k)" by (simp add: abs_mult pow2_add)
  with exponent_bounds [OF q] have "(2 :: rat) powi exponent ?q < 2 powi (53 + k)" by linarith
  then have k: "exponent ?q - 52 \<le> k" by (simp only: pow2_less)
  then obtain j where j: "k = (exponent ?q - 52) + int j" by (metis zle_iff_zadd)
  have "?q / 2 powi (exponent ?q - 52) = of_int m * 2 powi (k - (exponent ?q - 52))"
    by (simp add: pow2_diff)
  also have "k - (exponent ?q - 52) = int j" using j by linarith
  also have "of_int m * 2 powi int j = (of_int (m * 2 ^ j) :: rat)" by (simp add: power_int_of_nat)
  finally have "of_int (round_even (?q / 2 powi (exponent ?q - 52))) * 2 powi (exponent ?q - 52) =
      (of_int (m * 2 ^ j) :: rat) * 2 powi (exponent ?q - 52)"
    by (simp only: round_even_int)
  also have "\<dots> = of_int m * 2 powi ((exponent ?q - 52) + int j)" by (simp only: pow2_add) simp
  finally show ?thesis using q j by (simp add: rnd_def Let_def)
qed (simp add: rnd_sign)

text \<open>The error is at most half a unit in the last place.\<close>

lemma rnd_error:
  assumes "0 < q" "q < 2 powi e"
  shows "\<bar>rnd q - q\<bar> \<le> 2 powi (e - 54)"
proof -
  define u :: rat where "u = 2 powi (exponent q - 52)"
  have u: "0 < u" by (simp add: u_def)
  have "(2 :: rat) powi exponent q < 2 powi e" using exponent_bounds [of q] assms by linarith
  then have "exponent q \<le> e - 1" by (simp add: pow2_less)
  then have "u \<le> 2 powi (e - 53)" unfolding u_def pow2_le by simp
  also have "(2 :: rat) powi (e - 53) = 2 powi (e - 54) * 2 powi 1" by (subst pow2_add [symmetric]) simp
  finally have half: "u / 2 \<le> 2 powi (e - 54)" by simp
  have "\<bar>of_int (round_even (q / u)) - q / u\<bar> \<le> 1 / 2" using round_even_bounds [of "q / u"] by linarith
  then have "\<bar>of_int (round_even (q / u)) - q / u\<bar> * u \<le> 1 / 2 * u" using u by (intro mult_right_mono) simp_all
  then have "\<bar>(of_int (round_even (q / u)) - q / u) * u\<bar> \<le> u / 2" using u by (simp add: abs_mult)
  moreover have "(of_int (round_even (q / u)) - q / u) * u = rnd q - q"
    using assms(1) u by (simp add: rnd_def Let_def u_def [symmetric] left_diff_distrib)
  ultimately have "\<bar>rnd q - q\<bar> \<le> u / 2" by simp
  with half show ?thesis by linarith
qed

section \<open>What the arithmetic relies on\<close>

text \<open>
  The clients only use that rounding is monotone and keeps the numbers of 53 significant bits, so their
  lemmas hold for every such rounding.
\<close>

locale float_rounding =
  fixes fl :: "rat \<Rightarrow> rat"
  assumes fl_mono: "x \<le> y \<Longrightarrow> fl x \<le> fl y"
    and fl_keeps: "\<bar>m\<bar> < 2 ^ 53 \<Longrightarrow> fl (of_int m * 2 powi k) = of_int m * 2 powi k"
begin

lemma fl_int: "\<bar>m\<bar> \<le> 2 ^ 53 \<Longrightarrow> fl (of_int m) = of_int m"
proof -
  assume m: "\<bar>m\<bar> \<le> 2 ^ 53"
  consider "\<bar>m\<bar> < 2 ^ 53" | "m = 2 ^ 53" | "m = - (2 ^ 53)" using m by linarith
  then show ?thesis
  proof cases
    case 1
    then show ?thesis using fl_keeps [of m 0] by simp
  next
    case 2
    then show ?thesis using fl_keeps [of 1 53] by simp
  next
    case 3
    then show ?thesis using fl_keeps [of "-1" 53] by simp
  qed
qed

lemma fl_eighth: "\<bar>m\<bar> < 2 ^ 53 \<Longrightarrow> fl (of_int m / 8) = of_int m / 8"
proof -
  assume m: "\<bar>m\<bar> < 2 ^ 53"
  have "(of_int m :: rat) * 2 powi (- 3) = of_int m / 8" by (simp add: power_int_minus)
  with fl_keeps [OF m, of "- 3"] show ?thesis by (simp only:)
qed

lemma fl_0 [simp]: "fl 0 = 0" and fl_1 [simp]: "fl 1 = 1"
  using fl_int [of 0] fl_int [of 1] by simp_all

lemma fl_nonneg: "0 \<le> x \<Longrightarrow> 0 \<le> fl x"
  using fl_mono [of 0 x] by simp

lemma fl_le_int: "x \<le> of_int m \<Longrightarrow> \<bar>m\<bar> \<le> 2 ^ 53 \<Longrightarrow> fl x \<le> of_int m"
  using fl_mono [of x "of_int m"] fl_int [of m] by simp

lemma int_le_fl: "of_int m \<le> x \<Longrightarrow> \<bar>m\<bar> \<le> 2 ^ 53 \<Longrightarrow> of_int m \<le> fl x"
  using fl_mono [of "of_int m" x] fl_int [of m] by simp

end

interpretation f64: float_rounding rnd
  by unfold_locales (erule rnd_monotone, erule rnd_small)

lemma to_int64_nonneg: "0 \<le> q \<Longrightarrow> q < 2 ^ 63 \<Longrightarrow> to_int64 q = floor q"
proof -
  assume q: "0 \<le> q" "q < 2 ^ 63"
  have "floor q < 2 ^ 63" using q(2) by (simp add: floor_less_iff)
  with q show ?thesis by (simp add: to_int64_def Let_def)
qed

end
