(* ===== verification/Hub.thy ===== *)
theory Hub imports Processes "HOL-Library.AList" begin

text \<open>
  internal/hf/hf.go and internal/catalog/catalog.go. An HTTP service is a function from the number of the
  call and the request to an answer; a body is what reading it gave: a read error, or what the JSON parser
  made of its text, an error or a syntax tree. Decoding into a struct follows \<open>encoding/json\<close>: keys
  match exactly or else in another case, later keys win, \<open>null\<close> leaves a scalar as it is and clears a
  pointer, and a value of the wrong type is an error.
\<close>

section \<open>encoding/json\<close>

datatype json =
    JNull | JBool bool | JNum string | JStr string | JArr "json list" | JObj "(string \<times> json) list"

definition type_error :: goerr where
  "type_error = Opaque ''json: cannot unmarshal into Go value''"

text \<open>The field a key selects.\<close>

definition field_of :: "string list \<Rightarrow> string \<Rightarrow> string" where
  "field_of names key = (if key \<in> set names then key
     else case filter (\<lambda>n. to_lower n = to_lower key) names of [] \<Rightarrow> [] | n # ns \<Rightarrow> n)"

fun dec_string :: "json \<Rightarrow> string \<Rightarrow> string result" where
  "dec_string JNull cur = Inr cur"
| "dec_string (JStr s) cur = Inr s"
| "dec_string j cur = Inl type_error"

fun dec_int :: "json \<Rightarrow> int \<Rightarrow> int result" where
  "dec_int JNull cur = Inr cur"
| "dec_int (JNum t) cur = (case parse_int64 t of Some n \<Rightarrow> Inr n | None \<Rightarrow> Inl type_error)"
| "dec_int j cur = Inl type_error"

fun dec_bool :: "json \<Rightarrow> bool \<Rightarrow> bool result" where
  "dec_bool JNull cur = Inr cur"
| "dec_bool (JBool b) cur = Inr b"
| "dec_bool j cur = Inl type_error"

fun dec_all :: "(json \<Rightarrow> 'a result) \<Rightarrow> json list \<Rightarrow> 'a list result" where
  "dec_all f [] = Inr []"
| "dec_all f (j # js) = (case f j of Inl e \<Rightarrow> Inl e
     | Inr x \<Rightarrow> (case dec_all f js of Inl e \<Rightarrow> Inl e | Inr xs \<Rightarrow> Inr (x # xs)))"

text \<open>A slice; its elements are decoded into zero values.\<close>

definition dec_list :: "(json \<Rightarrow> 'a result) \<Rightarrow> json \<Rightarrow> 'a list result" where
  "dec_list f j = (case j of JNull \<Rightarrow> Inr [] | JArr js \<Rightarrow> dec_all f js | _ \<Rightarrow> Inl type_error)"

text \<open>The entries of an object, in order, into a value.\<close>

fun dec_entries :: "(string \<Rightarrow> json \<Rightarrow> 'a \<Rightarrow> 'a result) \<Rightarrow> (string \<times> json) list \<Rightarrow> 'a \<Rightarrow> 'a result" where
  "dec_entries f [] cur = Inr cur"
| "dec_entries f ((k, v) # kvs) cur = (case f k v cur of Inl e \<Rightarrow> Inl e | Inr x \<Rightarrow> dec_entries f kvs x)"

definition dec_struct :: "string list \<Rightarrow> (string \<Rightarrow> json \<Rightarrow> 'a \<Rightarrow> 'a result) \<Rightarrow> json \<Rightarrow> 'a \<Rightarrow> 'a result" where
  "dec_struct names f j cur = (case j of
     JNull \<Rightarrow> Inr cur
   | JObj kvs \<Rightarrow> dec_entries (\<lambda>k v x. f (field_of names k) v x) kvs cur
   | _ \<Rightarrow> Inl type_error)"

definition setf :: "'b result \<Rightarrow> ('b \<Rightarrow> 'a) \<Rightarrow> 'a result" where
  "setf r put = (case r of Inl e \<Rightarrow> Inl e | Inr x \<Rightarrow> Inr (put x))"

section \<open>HTTP\<close>

record request =
  q_method :: string
  q_url :: string
  q_authorization :: string
  q_type :: string
  q_content :: string

record response =
  s_status :: int
  s_body :: "json result result"

type_synonym service = "nat \<Rightarrow> request \<Rightarrow> response result"

definition http_do :: "service \<Rightarrow> request \<Rightarrow> os \<Rightarrow> response result \<times> os" where
  "http_do srv q o1 = (srv (tick o1) q, step_os o1)"

definition get_request :: "string \<Rightarrow> string \<Rightarrow> request" where
  "get_request url token = \<lparr>q_method = ''GET'', q_url = url,
     q_authorization = (if token = [] then [] else ''Bearer '' @ token), q_type = [], q_content = []\<rparr>"

section \<open>Models and configurations\<close>

record gated =
  IsGated :: bool
  Mode :: string

definition Gated_UnmarshalJSON :: "json \<Rightarrow> gated \<Rightarrow> gated result" where
  "Gated_UnmarshalJSON data g =
     (case dec_bool data False of
        Inr b \<Rightarrow> Inr (g\<lparr>IsGated := b\<rparr>)
      | Inl e1 \<Rightarrow> (case dec_string data [] of
          Inl e2 \<Rightarrow> Inl (Opaque ''unexpected gated value'')
        | Inr s \<Rightarrow> Inr (g\<lparr>IsGated := True, Mode := s\<rparr>)))"

definition Gated_MarshalJSON :: "gated \<Rightarrow> json" where
  "Gated_MarshalJSON g =
     (if \<not> IsGated g then JBool False else if Mode g = [] then JBool True else JStr (Mode g))"

text \<open>The parameter census lists dtype names and counts in the order the map is iterated.\<close>

record safetensors =
  sf_parameters :: "(string \<times> int) list"
  sf_total :: int

record hfmodel =
  m_id :: string
  m_sha :: string
  m_gated :: gated
  m_private :: bool
  m_downloads :: int
  m_tags :: "string list"
  m_pipeline_tag :: string
  m_safetensors :: "safetensors option"

definition zero_model :: hfmodel where
  "zero_model = \<lparr>m_id = [], m_sha = [], m_gated = \<lparr>IsGated = False, Mode = []\<rparr>, m_private = False,
     m_downloads = 0, m_tags = [], m_pipeline_tag = [], m_safetensors = None\<rparr>"

record quantconf =
  qc_method :: string
  qc_bits :: int

datatype config = Config
  (architectures: "string list") (model_type: string) (num_hidden_layers: int) (num_attention_heads: int)
  (num_key_value_heads: int) (hidden_size: int) (head_dim: int) (max_position_embeddings: int)
  (quantization_config: "quantconf option") (text_config: "config option")

definition zero_config :: config where
  "zero_config = Config [] [] 0 0 0 0 0 0 None None"

definition set_text :: "config option \<Rightarrow> config \<Rightarrow> config" where
  "set_text t c = Config (architectures c) (model_type c) (num_hidden_layers c) (num_attention_heads c)
     (num_key_value_heads c) (hidden_size c) (head_dim c) (max_position_embeddings c) (quantization_config c) t"

text \<open>\<open>Config.Resolved\<close>: a nested text_config, with what it lacks from the outside.\<close>

fun Resolved :: "config \<Rightarrow> config" where
  "Resolved (Config ar mt nl na nk hs dim mp q None) = Config ar mt nl na nk hs dim mp q None"
| "Resolved (Config ar mt nl na nk hs dim mp q (Some t)) =
     (if nl = 0
      then let nested = Resolved t
           in Config (if architectures nested = [] then ar else architectures nested)
                (if model_type nested = [] then mt else model_type nested)
                (num_hidden_layers nested) (num_attention_heads nested) (num_key_value_heads nested)
                (hidden_size nested) (head_dim nested) (max_position_embeddings nested)
                (if quantization_config nested = None then q else quantization_config nested)
                (text_config nested)
      else Config ar mt nl na nk hs dim mp q (Some t))"

section \<open>Decoding them\<close>

definition dec_census :: "json \<Rightarrow> (string \<times> int) list \<Rightarrow> (string \<times> int) list result" where
  "dec_census j cur = (case j of
     JNull \<Rightarrow> Inr []
   | JObj kvs \<Rightarrow> dec_entries (\<lambda>k v m. setf (dec_int v 0) (\<lambda>n. AList.update k n m)) kvs cur
   | _ \<Rightarrow> Inl type_error)"

definition dec_safetensors :: "json \<Rightarrow> safetensors option \<Rightarrow> safetensors option result" where
  "dec_safetensors j cur = (if j = JNull then Inr None
     else setf (dec_struct [''parameters'', ''total'']
       (\<lambda>k v s. if k = ''parameters'' then setf (dec_census v (sf_parameters s)) (\<lambda>m. s\<lparr>sf_parameters := m\<rparr>)
          else if k = ''total'' then setf (dec_int v (sf_total s)) (\<lambda>n. s\<lparr>sf_total := n\<rparr>) else Inr s)
       j (case cur of None \<Rightarrow> \<lparr>sf_parameters = [], sf_total = 0\<rparr> | Some s \<Rightarrow> s)) Some)"

definition model_field :: "string \<Rightarrow> json \<Rightarrow> hfmodel \<Rightarrow> hfmodel result" where
  "model_field k v m =
     (if k = ''id'' then setf (dec_string v (m_id m)) (\<lambda>x. m\<lparr>m_id := x\<rparr>)
      else if k = ''sha'' then setf (dec_string v (m_sha m)) (\<lambda>x. m\<lparr>m_sha := x\<rparr>)
      else if k = ''gated'' then setf (Gated_UnmarshalJSON v (m_gated m)) (\<lambda>x. m\<lparr>m_gated := x\<rparr>)
      else if k = ''private'' then setf (dec_bool v (m_private m)) (\<lambda>x. m\<lparr>m_private := x\<rparr>)
      else if k = ''downloads'' then setf (dec_int v (m_downloads m)) (\<lambda>x. m\<lparr>m_downloads := x\<rparr>)
      else if k = ''tags'' then setf (dec_list (\<lambda>j. dec_string j []) v) (\<lambda>x. m\<lparr>m_tags := x\<rparr>)
      else if k = ''pipeline_tag'' then setf (dec_string v (m_pipeline_tag m)) (\<lambda>x. m\<lparr>m_pipeline_tag := x\<rparr>)
      else if k = ''safetensors'' then setf (dec_safetensors v (m_safetensors m)) (\<lambda>x. m\<lparr>m_safetensors := x\<rparr>)
      else Inr m)"

definition dec_model :: "json \<Rightarrow> hfmodel result" where
  "dec_model j = dec_struct [''id'', ''sha'', ''gated'', ''private'', ''downloads'', ''tags'', ''pipeline_tag'', ''safetensors'']
     model_field j zero_model"

definition dec_quant :: "json \<Rightarrow> quantconf option \<Rightarrow> quantconf option result" where
  "dec_quant j cur = (if j = JNull then Inr None
     else setf (dec_struct [''quant_method'', ''bits'']
       (\<lambda>k v s. if k = ''quant_method'' then setf (dec_string v (qc_method s)) (\<lambda>x. s\<lparr>qc_method := x\<rparr>)
          else if k = ''bits'' then setf (dec_int v (qc_bits s)) (\<lambda>n. s\<lparr>qc_bits := n\<rparr>) else Inr s)
       j (case cur of None \<Rightarrow> \<lparr>qc_method = [], qc_bits = 0\<rparr> | Some s \<Rightarrow> s)) Some)"

definition config_names :: "string list" where
  "config_names = [''architectures'', ''model_type'', ''num_hidden_layers'', ''num_attention_heads'',
     ''num_key_value_heads'', ''hidden_size'', ''head_dim'', ''max_position_embeddings'',
     ''quantization_config'', ''text_config'']"

definition config_field :: "string \<Rightarrow> json \<Rightarrow> config \<Rightarrow> config result" where
  "config_field k v c = (case c of Config ar mt nl na nk hs dim mp q t \<Rightarrow>
     if k = ''architectures'' then setf (dec_list (\<lambda>j. dec_string j []) v) (\<lambda>x. Config x mt nl na nk hs dim mp q t)
     else if k = ''model_type'' then setf (dec_string v mt) (\<lambda>x. Config ar x nl na nk hs dim mp q t)
     else if k = ''num_hidden_layers'' then setf (dec_int v nl) (\<lambda>x. Config ar mt x na nk hs dim mp q t)
     else if k = ''num_attention_heads'' then setf (dec_int v na) (\<lambda>x. Config ar mt nl x nk hs dim mp q t)
     else if k = ''num_key_value_heads'' then setf (dec_int v nk) (\<lambda>x. Config ar mt nl na x hs dim mp q t)
     else if k = ''hidden_size'' then setf (dec_int v hs) (\<lambda>x. Config ar mt nl na nk x dim mp q t)
     else if k = ''head_dim'' then setf (dec_int v dim) (\<lambda>x. Config ar mt nl na nk hs x mp q t)
     else if k = ''max_position_embeddings'' then setf (dec_int v mp) (\<lambda>x. Config ar mt nl na nk hs dim x q t)
     else if k = ''quantization_config'' then setf (dec_quant v q) (\<lambda>x. Config ar mt nl na nk hs dim mp x t)
     else Inr c)"

fun dec_config :: "json \<Rightarrow> config \<Rightarrow> config result"
  and dec_config_entries :: "(string \<times> json) list \<Rightarrow> config \<Rightarrow> config result" where
  "dec_config JNull c = Inr c"
| "dec_config (JObj kvs) c = dec_config_entries kvs c"
| "dec_config j c = Inl type_error"
| "dec_config_entries [] c = Inr c"
| "dec_config_entries ((k, v) # kvs) c =
     (let name = field_of config_names k
      in if name = ''text_config''
         then if v = JNull then dec_config_entries kvs (set_text None c)
              else case dec_config v (case text_config c of None \<Rightarrow> zero_config | Some t \<Rightarrow> t) of
                     Inl e \<Rightarrow> Inl e
                   | Inr t \<Rightarrow> dec_config_entries kvs (set_text (Some t) c)
         else case config_field name v c of
                Inl e \<Rightarrow> Inl e
              | Inr c1 \<Rightarrow> dec_config_entries kvs c1)"

section \<open>The client\<close>

record hfclient =
  c_base :: string
  c_token :: string
  c_http :: service

definition DefaultBaseURL :: string where
  "DefaultBaseURL = ''https://huggingface.co''"

definition NewClient :: "service \<Rightarrow> string \<Rightarrow> hfclient" where
  "NewClient srv token = \<lparr>c_base = DefaultBaseURL, c_token = token, c_http = srv\<rparr>"

definition getJSON :: "hfclient \<Rightarrow> string \<Rightarrow> (json \<Rightarrow> 'a result) \<Rightarrow> os \<Rightarrow> 'a result \<times> os" where
  "getJSON c path decode o1 =
     (case http_do (c_http c) (get_request (c_base c @ path) (c_token c)) o1 of
        (Inl e, o2) \<Rightarrow> (Inl e, o2)
      | (Inr resp, o2) \<Rightarrow>
        (if s_status resp = 401 \<or> s_status resp = 403 then (Inl (Sentinel ErrAuthRequired), o2)
         else if s_status resp = 404 then (Inl (Sentinel ErrModelNotFound), o2)
         else if s_status resp \<noteq> 200 then (Inl (Errorf ''hugging face returned status %d'' [ArgD (s_status resp)]), o2)
         else case s_body resp of
                Inl e \<Rightarrow> (Inl e, o2)
              | Inr (Inl e) \<Rightarrow> (Inl e, o2)
              | Inr (Inr j) \<Rightarrow> (decode j, o2)))"

definition GetModel :: "hfclient \<Rightarrow> string \<Rightarrow> os \<Rightarrow> hfmodel result \<times> os" where
  "GetModel c i o1 = (case getJSON c (''/api/models/'' @ i) dec_model o1 of
     (Inl e, o2) \<Rightarrow> (Inl (Errorf ''resolve %s: %w'' [ArgS i, ArgW e]), o2)
   | (Inr m, o2) \<Rightarrow> (Inr m, o2))"

text \<open>\<open>url.PathEscape\<close> and \<open>url.QueryEscape\<close>.\<close>

definition unreserved :: "char \<Rightarrow> bool" where
  "unreserved ch = (is_lower ch \<or> is_upper ch \<or> is_digit ch \<or> ch \<in> set ''-_.~'')"

definition percent :: "char \<Rightarrow> string" where
  "percent ch = (let upper = (\<lambda>d. if d < 10 then char_of (48 + d) else char_of (55 + d :: nat))
     in [CHR ''%'', upper (of_char ch div 16), upper (of_char ch mod 16)])"

definition PathEscape :: "string \<Rightarrow> string" where
  "PathEscape s = concat (map (\<lambda>ch. if unreserved ch \<or> ch \<in> set ''$&+=:@'' then [ch] else percent ch) s)"

definition QueryEscape :: "string \<Rightarrow> string" where
  "QueryEscape s = concat (map (\<lambda>ch. if unreserved ch then [ch] else if ch = CHR '' '' then ''+'' else percent ch) s)"

definition GetConfigAtRevision :: "hfclient \<Rightarrow> string \<Rightarrow> string \<Rightarrow> os \<Rightarrow> config result \<times> os" where
  "GetConfigAtRevision c i revision o1 =
     (if revision = [] then (Inl (Sentinel ErrNoRevision), o1)
      else case getJSON c (''/'' @ i @ ''/raw/'' @ PathEscape revision @ ''/config.json'') (\<lambda>j. dec_config j zero_config) o1 of
             (Inl e, o2) \<Rightarrow> (Inl (Errorf ''config for %s: %w'' [ArgS i, ArgW e]), o2)
           | (Inr cfg, o2) \<Rightarrow> (Inr (Resolved cfg), o2))"

definition GetConfig :: "hfclient \<Rightarrow> string \<Rightarrow> os \<Rightarrow> config result \<times> os" where
  "GetConfig c i o1 = GetConfigAtRevision c i ''main'' o1"

definition Search :: "hfclient \<Rightarrow> string \<Rightarrow> int \<Rightarrow> os \<Rightarrow> hfmodel list result \<times> os" where
  "Search c query limit o1 =
     (let path = ''/api/models?pipeline_tag=text-generation&sort=downloads&direction=-1'' @
                 ''&search='' @ QueryEscape query @ ''&limit='' @ itoa limit
      in case getJSON c path (dec_list dec_model) o1 of
           (Inl e, o2) \<Rightarrow> (Inl (Errorf ''search %q: %w'' [ArgS query, ArgW e]), o2)
         | (Inr ms, o2) \<Rightarrow> (Inr ms, o2))"

section \<open>The catalog\<close>

record catmodel =
  k_alias :: string
  k_base_model :: string
  k_artifact :: string
  k_revision :: string
  k_quantization :: string
  k_runtime :: string
  k_min_vram_gib :: int
  k_rec_vram_gib :: int
  k_gpu_architecture :: string
  k_default_port :: int
  k_max_model_len :: int

definition catalog_models :: "(string \<times> catmodel) list" where
  "catalog_models = [(''qwen3.6-35b-a3b'',
     \<lparr>k_alias = ''qwen3.6-35b-a3b'', k_base_model = ''Qwen/Qwen3.6-35B-A3B'',
      k_artifact = ''unsloth/Qwen3.6-35B-A3B-NVFP4-Fast'',
      k_revision = ''MOCK_REVISION_PIN_PENDING_GPU_VALIDATION'', k_quantization = ''nvfp4'', k_runtime = ''vllm'',
      k_min_vram_gib = 32, k_rec_vram_gib = 48, k_gpu_architecture = ''blackwell'', k_default_port = 8000,
      k_max_model_len = 4096\<rparr>)]"

definition catalog_Get :: "string \<Rightarrow> catmodel result" where
  "catalog_Get alias = (case map_of catalog_models alias of
     None \<Rightarrow> Inl (Errorf ''%w: %s'' [ArgW (Sentinel ErrUnknownModel), ArgS alias])
   | Some m \<Rightarrow> Inr m)"

definition catalog_List :: "catmodel list" where
  "catalog_List = map snd catalog_models"

section \<open>Lemmas\<close>

lemma setf_Inr [simp]: "setf r put = Inr x \<longleftrightarrow> (\<exists>y. r = Inr y \<and> x = put y)"
  by (auto simp: setf_def split: sum.splits)

text \<open>A resolved configuration carries the dimensions itself.\<close>

lemma Resolved_flat: "num_hidden_layers (Resolved c) \<noteq> 0 \<or> text_config (Resolved c) = None"
  by (induction c rule: Resolved.induct) (auto simp: Let_def)

lemma Resolved_idem: "Resolved (Resolved c) = Resolved c"
proof (cases "Resolved c")
  case (Config ar mt nl na nk hs dim mp q t)
  with Resolved_flat [of c] show ?thesis by (cases t) auto
qed

lemma getJSON_cases:
  assumes "getJSON c path decode o1 = (r, o2)"
  shows "o2 = step_os o1 \<and>
    (case c_http c (tick o1) (get_request (c_base c @ path) (c_token c)) of
       Inl e \<Rightarrow> r = Inl e
     | Inr resp \<Rightarrow>
         (s_status resp \<in> {401, 403} \<longrightarrow> r = Inl (Sentinel ErrAuthRequired)) \<and>
         (s_status resp = 404 \<longrightarrow> r = Inl (Sentinel ErrModelNotFound)) \<and>
         (r = Inr x \<longrightarrow> s_status resp = 200 \<and> (\<exists>j. s_body resp = Inr (Inr j) \<and> decode j = Inr x)))"
  using assms by (auto simp: getJSON_def http_do_def split: sum.splits if_splits)

section \<open>Properties of the client\<close>

text \<open>
  The \<open>gated\<close> field survives encoding and decoding: whatever value it is decoded into, a model
  is gated again exactly if it was, with the mode if it had one.
\<close>

theorem gated_roundtrip:
  "\<exists>g'. Gated_UnmarshalJSON (Gated_MarshalJSON g) g0 = Inr g' \<and> IsGated g' = IsGated g \<and>
     (IsGated g \<and> Mode g \<noteq> [] \<longrightarrow> Mode g' = Mode g)"
  by (auto simp: Gated_UnmarshalJSON_def Gated_MarshalJSON_def)

text \<open>
  C37. What the hub answers decides the exit code: a model that needs a token is an authentication error
  (5), an unknown one is not found (3), and a model is returned only for status 200 and a body that decodes
  to it. The token reaches the Authorization header only: against a service that does not look at that
  header, result and error are the same for every token.
\<close>

theorem hub_answers_classified:
  assumes "c_http c (tick o1) (get_request (c_base c @ ''/api/models/'' @ i) (c_token c)) = Inr resp"
    and "GetModel c i o1 = (r, o2)"
  shows "(s_status resp \<in> {401, 403} \<longrightarrow> (\<exists>e. r = Inl e \<and> errors_is ErrAuthRequired e \<and> exit_code (Some e) = 5)) \<and>
    (s_status resp = 404 \<longrightarrow> (\<exists>e. r = Inl e \<and> errors_is ErrModelNotFound e \<and> exit_code (Some e) = 3)) \<and>
    (\<forall>m. r = Inr m \<longrightarrow> s_status resp = 200 \<and> (\<exists>j. s_body resp = Inr (Inr j) \<and> dec_model j = Inr m)) \<and>
    ((\<forall>n q t. c_http c n (q\<lparr>q_authorization := t\<rparr>) = c_http c n q) \<longrightarrow>
      (\<forall>t. GetModel (c\<lparr>c_token := t\<rparr>) i o1 = (r, o2)))"
proof -
  obtain x o3 where g: "getJSON c (''/api/models/'' @ i) dec_model o1 = (x, o3)" by fastforce
  have cs: "s_status resp \<in> {401, 403} \<Longrightarrow> x = Inl (Sentinel ErrAuthRequired)"
    "s_status resp = 404 \<Longrightarrow> x = Inl (Sentinel ErrModelNotFound)"
    "\<And>m. x = Inr m \<Longrightarrow> s_status resp = 200 \<and> (\<exists>j. s_body resp = Inr (Inr j) \<and> dec_model j = Inr m)"
    using getJSON_cases [OF g] assms(1) by simp_all
  have r: "r = (case x of Inl e \<Rightarrow> Inl (Errorf ''resolve %s: %w'' [ArgS i, ArgW e]) | Inr m \<Rightarrow> Inr m)"
    using assms(2) g by (auto simp: GetModel_def split: sum.splits)
  have tok: "c_http c n (get_request u t) = c_http c n (get_request u (c_token c))"
    if "\<forall>n q t. c_http c n (q\<lparr>q_authorization := t\<rparr>) = c_http c n q" for n u t
  proof -
    have "get_request u t = (get_request u (c_token c))\<lparr>q_authorization := q_authorization (get_request u t)\<rparr>"
      by (simp add: get_request_def)
    with that show ?thesis by metis
  qed
  have "GetModel (c\<lparr>c_token := t\<rparr>) i o1 = (r, o2)"
    if "\<forall>n q t. c_http c n (q\<lparr>q_authorization := t\<rparr>) = c_http c n q" for t
  proof -
    have "http_do (c_http c) (get_request u t) o1 = http_do (c_http c) (get_request u (c_token c)) o1" for u
      using tok [OF that] by (simp add: http_do_def)
    then have "getJSON (c\<lparr>c_token := t\<rparr>) path dec_model o1 = getJSON c path dec_model o1" for path
      by (simp add: getJSON_def)
    then show ?thesis using assms(2) by (simp add: GetModel_def)
  qed
  then have "(\<forall>n q t. c_http c n (q\<lparr>q_authorization := t\<rparr>) = c_http c n q) \<longrightarrow>
      (\<forall>t. GetModel (c\<lparr>c_token := t\<rparr>) i o1 = (r, o2))" by blast
  moreover have "s_status resp \<in> {401, 403} \<longrightarrow> (\<exists>e. r = Inl e \<and> errors_is ErrAuthRequired e \<and> exit_code (Some e) = 5)"
    using cs(1) r by (simp add: exit_code_def)
  moreover have "s_status resp = 404 \<longrightarrow> (\<exists>e. r = Inl e \<and> errors_is ErrModelNotFound e \<and> exit_code (Some e) = 3)"
    using cs(2) r by (simp add: exit_code_def)
  moreover have "\<forall>m. r = Inr m \<longrightarrow> s_status resp = 200 \<and> (\<exists>j. s_body resp = Inr (Inr j) \<and> dec_model j = Inr m)"
    using cs(3) r by (cases x) simp_all
  ultimately show ?thesis by blast
qed

definition gated_service :: service where
  "gated_service n q = Inr \<lparr>s_status = (if q_authorization q = [] then 401 else 404), s_body = Inr (Inr JNull)\<rparr>"

definition idle_os :: os where
  "idle_os = \<lparr>view = (\<lambda>t. \<lparr>v_procs = [], v_boot = Inr [], v_listing = Inr [], v_clk_tck = Inr []\<rparr>), lag = (\<lambda>t. 1),
     tick = 0, clock = 0, clk_once = False, clk_hz = 100, signals = [], self_pid = 1\<rparr>"

theorem hub_answers_classified_witness:
  "\<exists>e. fst (GetModel (NewClient gated_service []) ''o/m'' idle_os) = Inl e \<and> exit_code (Some e) = 5"
proof -
  let ?c = "NewClient gated_service []"
  have "c_http ?c (tick idle_os) (get_request (c_base ?c @ ''/api/models/'' @ ''o/m'') (c_token ?c)) =
      Inr \<lparr>s_status = 401, s_body = Inr (Inr JNull)\<rparr>"
    by (simp add: NewClient_def gated_service_def get_request_def)
  from hub_answers_classified [OF this, of "fst (GetModel ?c ''o/m'' idle_os)" "snd (GetModel ?c ''o/m'' idle_os)"]
  show ?thesis by (simp, blast)
qed

end
