(* ===== verification/Planner.thy ===== *)
theory Planner imports Numbers Hub "HOL-Library.Multiset" begin

text \<open>
  internal/planner: how much memory a model needs (planner.go) and which quantized variants of it would
  fit (suggest.go). Byte counts are 64-bit integers that wrap; the weights are summed in \<open>float64\<close>, in
  the order in which Go iterates the census, which is the order of its list here.
\<close>

section \<open>Estimates\<close>

definition fixedOverheadBytes :: int where
  "fixedOverheadBytes = 2 * 2 ^ 30"

definition DefaultContextTokens :: int where
  "DefaultContextTokens = 4096"

datatype verdict = VerdictFits | VerdictTight | VerdictTooBig

record estimate =
  e_model_id :: string
  e_param_count :: int
  e_quantization :: string
  e_context :: int
  e_weight :: int
  e_kv :: int
  e_overhead :: int
  e_total :: int
  e_architecture :: string
  e_known :: bool
  e_kv_unknown :: bool

definition dtypeBytes :: "(string \<times> rat) list" where
  "dtypeBytes =
     [(''F64'', 8), (''I64'', 8), (''U64'', 8), (''F32'', 4), (''I32'', 4), (''U32'', 4),
      (''BF16'', 2), (''F16'', 2), (''I16'', 2), (''U16'', 2),
      (''F8_E4M3'', 1), (''F8_E5M2'', 1), (''I8'', 1), (''U8'', 1), (''BOOL'', 1),
      (''F4'', 1 / 2), (''NF4'', 1 / 2), (''I4'', 1 / 2), (''U4'', 1 / 2)]"

definition knownModelTypes :: "string list" where
  "knownModelTypes =
     [''llama'', ''llama4'', ''mistral'', ''mixtral'', ''qwen2'', ''qwen2_moe'', ''qwen3'',
      ''qwen3_moe'', ''gemma'', ''gemma2'', ''gemma3'', ''gemma3_text'', ''phi'', ''phi3'', ''phimoe'',
      ''deepseek_v2'', ''deepseek_v3'', ''falcon'', ''gpt2'', ''gpt_neox'', ''gpt_bigcode'',
      ''starcoder2'', ''olmo'', ''olmo2'', ''granite'', ''internlm2'', ''baichuan'', ''chatglm'',
      ''glm4'', ''stablelm'', ''mpt'', ''opt'', ''bloom'', ''cohere'', ''command-r'', ''exaone'',
      ''minicpm'', ''nemotron'', ''smollm3'']"

definition quantMarkers :: "string list" where
  "quantMarkers = [''nvfp4'', ''awq'', ''gptq'', ''fp8'', ''int8'', ''int4'', ''4bit'', ''4-bit'', ''8bit'',
     ''8-bit'', ''bnb'', ''mxfp4'']"

definition upper_char :: "char \<Rightarrow> char" where
  "upper_char c = (if is_lower c then char_of (of_char c - (32 :: nat)) else c)"

definition to_upper :: "string \<Rightarrow> string" where
  "to_upper s = map upper_char s"

definition first_marker :: "string \<Rightarrow> string option" where
  "first_marker h = map_option (filter (\<lambda>c. c \<noteq> CHR ''-'')) (find (str_contains h) quantMarkers)"

definition DetectQuantization :: "hfmodel \<Rightarrow> config \<Rightarrow> string" where
  "DetectQuantization model cfg =
     (case quantization_config cfg of
        Some q \<Rightarrow> if qc_method q \<noteq> [] then to_lower (qc_method q)
                  else (case List.map_filter (\<lambda>h. first_marker (to_lower h)) (to_lower (m_id model) # m_tags model) of
                          [] \<Rightarrow> [] | m # ms \<Rightarrow> m)
      | None \<Rightarrow> (case List.map_filter (\<lambda>h. first_marker (to_lower h)) (to_lower (m_id model) # m_tags model) of
                          [] \<Rightarrow> [] | m # ms \<Rightarrow> m))"

definition quantBytesPerParam :: "string \<Rightarrow> config \<Rightarrow> rat" where
  "quantBytesPerParam quant cfg =
     (if quant = [] then 0
      else case quantization_config cfg of
             Some q \<Rightarrow> if qc_bits q > 0 then rnd (rnd (of_int (qc_bits q)) / 8)
                       else if quant \<in> set [''awq'', ''gptq'', ''nvfp4'', ''int4'', ''4bit'', ''nf4'', ''bnb'', ''bitsandbytes'', ''mxfp4'']
                         then 1 / 2 else if quant \<in> set [''fp8'', ''int8'', ''8bit''] then 1 else 0
           | None \<Rightarrow> if quant \<in> set [''awq'', ''gptq'', ''nvfp4'', ''int4'', ''4bit'', ''nf4'', ''bnb'', ''bitsandbytes'', ''mxfp4'']
                         then 1 / 2 else if quant \<in> set [''fp8'', ''int8'', ''8bit''] then 1 else 0)"

text \<open>The bytes one parameter of a dtype costs: the loop body up to the sum.\<close>

definition param_bytes :: "rat \<Rightarrow> string \<Rightarrow> rat" where
  "param_bytes quantBytes dtype0 =
     (let dtype = to_upper dtype0;
          bytes = (case map_of dtypeBytes dtype of None \<Rightarrow> 2 | Some b \<Rightarrow> b)
      in if quantBytes > 0 \<and> (has_prefix dtype ''I'' \<or> has_prefix dtype ''U'') then quantBytes else bytes)"

fun census_loop :: "rat \<Rightarrow> (string \<times> int) list \<Rightarrow> int \<times> rat \<Rightarrow> int \<times> rat" where
  "census_loop qb [] acc = acc"
| "census_loop qb ((dtype, cnt) # rest) (params, weight) =
     census_loop qb rest (wrap64 (params + cnt), rnd (weight + rnd (rnd (of_int cnt) * param_bytes qb dtype)))"

definition kvCacheBytes :: "config \<Rightarrow> int \<Rightarrow> int" where
  "kvCacheBytes cfg contextTokens =
     (let heads = (if num_key_value_heads cfg = 0 then num_attention_heads cfg else num_key_value_heads cfg);
          headDim = (if head_dim cfg = 0 \<and> num_attention_heads cfg > 0
                     then go_quot (hidden_size cfg) (num_attention_heads cfg) else head_dim cfg)
      in if num_hidden_layers cfg = 0 \<or> heads = 0 \<or> headDim = 0 then 0
         else wrap64 (wrap64 (wrap64 (wrap64 (wrap64 (2 * num_hidden_layers cfg) * heads) * headDim) * 2) * contextTokens))"

definition EstimateModel :: "hfmodel \<Rightarrow> config \<Rightarrow> int \<Rightarrow> estimate result" where
  "EstimateModel model cfg contextTokens0 =
     (let ctx1 = (if contextTokens0 \<le> 0 then DefaultContextTokens else contextTokens0);
          ctx = (if max_position_embeddings cfg > 0 \<and> ctx1 > max_position_embeddings cfg
                 then max_position_embeddings cfg else ctx1);
          quant = DetectQuantization model cfg
      in case m_safetensors model of
           None \<Rightarrow> Inl (Errorf ''%w: %s'' [ArgW (Sentinel ErrNoSizeData), ArgS (m_id model)])
         | Some sf \<Rightarrow>
           if sf_parameters sf = [] then Inl (Errorf ''%w: %s'' [ArgW (Sentinel ErrNoSizeData), ArgS (m_id model)])
           else (case census_loop (quantBytesPerParam quant cfg) (sf_parameters sf) (0, 0) of (params, weight) \<Rightarrow>
             let w = to_int64 weight; kv = kvCacheBytes cfg ctx
             in Inr \<lparr>e_model_id = m_id model, e_param_count = params, e_quantization = quant, e_context = ctx,
                  e_weight = w, e_kv = kv, e_overhead = fixedOverheadBytes,
                  e_total = wrap64 (wrap64 (w + kv) + fixedOverheadBytes),
                  e_architecture = (case architectures cfg of [] \<Rightarrow> [] | a # as \<Rightarrow> a),
                  e_known = (to_lower (model_type cfg) \<in> set knownModelTypes), e_kv_unknown = (kv = 0)\<rparr>))"

definition usable_bytes :: "int \<Rightarrow> rat" where
  "usable_bytes vramMiB = rnd (rnd (rnd (of_int vramMiB) * 2 ^ 20) * rnd (90 / 100))"

definition Assess :: "estimate \<Rightarrow> int \<Rightarrow> verdict" where
  "Assess est vramMiB =
     (let usable = usable_bytes vramMiB; total = rnd (of_int (e_total est))
      in if total \<le> rnd (usable * rnd (85 / 100)) then VerdictFits
         else if total \<le> usable then VerdictTight else VerdictTooBig)"

definition GiB :: "int \<Rightarrow> rat" where
  "GiB bytes = rnd (rnd (of_int bytes) / 2 ^ 30)"

section \<open>Suggestions\<close>

record suggestion =
  s_estimate :: estimate
  s_verdict :: verdict
  s_downloads :: int
  s_gated :: bool

definition variantQueries :: "string list" where
  "variantQueries = [''AWQ'', ''GPTQ'', ''FP8'', ''NVFP4'', ''4bit'']"

definition servableByVLLM :: "hfmodel \<Rightarrow> bool" where
  "servableByVLLM m =
     (let i = to_lower (m_id m)
      in \<not> str_contains i ''mlx'' \<and> \<not> str_contains i ''gguf'' \<and>
         \<not> list_ex (\<lambda>t. to_lower t = ''mlx'' \<or> to_lower t = ''gguf'') (m_tags m))"

text \<open>The models of one search: \<open>seen\<close> is the set of lower-case ids.\<close>

fun add_candidates :: "string \<Rightarrow> hfmodel list \<Rightarrow> string list \<times> hfmodel list \<Rightarrow> string list \<times> hfmodel list" where
  "add_candidates shortName [] acc = acc"
| "add_candidates shortName (m # ms) (seen, cands) =
     (let key = to_lower (m_id m)
      in if key \<in> set seen \<or> \<not> str_contains key (to_lower shortName) then add_candidates shortName ms (seen, cands)
         else if \<not> servableByVLLM m then add_candidates shortName ms (seen, cands)
         else add_candidates shortName ms (key # seen, cands @ [m]))"

fun search_loop :: "hfclient \<Rightarrow> string \<Rightarrow> string list \<Rightarrow> string list \<times> hfmodel list \<Rightarrow> os \<Rightarrow> hfmodel list result \<times> os" where
  "search_loop c shortName [] (seen, cands) o1 = (Inr cands, o1)"
| "search_loop c shortName (q # qs) (seen, cands) o1 =
     (case Search c (shortName @ '' '' @ q) 8 o1 of
        (Inl e, o2) \<Rightarrow> (Inl e, o2)
      | (Inr ms, o2) \<Rightarrow> search_loop c shortName qs (add_candidates shortName ms (seen, cands)) o2)"

text \<open>One candidate: a suggestion if it fits.\<close>

definition try_candidate :: "hfclient \<Rightarrow> int \<Rightarrow> int \<Rightarrow> hfmodel \<Rightarrow> os \<Rightarrow> suggestion option \<times> os" where
  "try_candidate c vramMiB contextTokens cand o1 =
     (case GetModel c (m_id cand) o1 of
        (Inl e, o2) \<Rightarrow> (None, o2)
      | (Inr model, o2) \<Rightarrow>
        (if m_sha model = [] then (None, o2)
         else case GetConfigAtRevision c (m_id cand) (m_sha model) o2 of (r, o3) \<Rightarrow>
           (let cfg = (case r of Inl e \<Rightarrow> zero_config | Inr x \<Rightarrow> x)
            in case EstimateModel model cfg contextTokens of
                 Inl e \<Rightarrow> (None, o3)
               | Inr est \<Rightarrow>
                 (if DetectQuantization model cfg = [] then (None, o3)
                  else if Assess est vramMiB = VerdictTooBig then (None, o3)
                  else (Some \<lparr>s_estimate = est, s_verdict = Assess est vramMiB, s_downloads = m_downloads model,
                              s_gated = IsGated (m_gated model)\<rparr>, o3)))))"

fun suggest_loop :: "hfclient \<Rightarrow> int \<Rightarrow> int \<Rightarrow> hfmodel list \<Rightarrow> suggestion list \<Rightarrow> os \<Rightarrow> suggestion list \<times> os" where
  "suggest_loop c vramMiB contextTokens [] acc o1 = (acc, o1)"
| "suggest_loop c vramMiB contextTokens (cand # cs) acc o1 =
     (case try_candidate c vramMiB contextTokens cand o1 of
        (None, o2) \<Rightarrow> suggest_loop c vramMiB contextTokens cs acc o2
      | (Some s, o2) \<Rightarrow>
        (if length (acc @ [s]) = 5 then (acc @ [s], o2)
         else suggest_loop c vramMiB contextTokens cs (acc @ [s]) o2))"

text \<open>
  \<open>sort.Slice\<close> is not stable: \<open>srt\<close> is what it makes of a list, some permutation in descending
  order of downloads.
\<close>

definition sorts_by_downloads :: "(hfmodel list \<Rightarrow> hfmodel list) \<Rightarrow> bool" where
  "sorts_by_downloads srt = (\<forall>ms. mset (srt ms) = mset ms \<and> sorted_wrt (\<lambda>a b. m_downloads a \<ge> m_downloads b) (srt ms))"

definition SuggestQuantized :: "(hfmodel list \<Rightarrow> hfmodel list) \<Rightarrow> hfclient \<Rightarrow> string \<Rightarrow> int \<Rightarrow> int \<Rightarrow> os \<Rightarrow>
    suggestion list result \<times> os" where
  "SuggestQuantized srt c baseID vramMiB contextTokens o1 =
     (let (before, after, found) = cut_at CHR ''/'' baseID;
          shortName = (if found then after else baseID)
      in case search_loop c shortName variantQueries ([to_lower baseID], []) o1 of
           (Inl e, o2) \<Rightarrow> (Inl e, o2)
         | (Inr cands, o2) \<Rightarrow>
           (case suggest_loop c vramMiB contextTokens (take 12 (srt cands)) [] o2 of
              (ss, o3) \<Rightarrow> (Inr ss, o3)))"

section \<open>Exact sums\<close>

definition total_params :: "(string \<times> int) list \<Rightarrow> int" where
  "total_params cs = sum_list (map snd cs)"

definition total_bytes :: "rat \<Rightarrow> (string \<times> int) list \<Rightarrow> rat" where
  "total_bytes qb cs = sum_list (map (\<lambda>(d, n). of_int n * param_bytes qb d) cs)"

text \<open>A width in eighths of a byte, at most eight bytes.\<close>

definition eighths :: "rat \<Rightarrow> bool" where
  "eighths b = (\<exists>k::int. b = of_int k / 8 \<and> 0 \<le> k \<and> k \<le> 64)"

lemma eighths_simps: "eighths 0" "eighths 1" "eighths 2" "eighths 4" "eighths 8" "eighths (1 / 2)"
  unfolding eighths_def
  by (rule exI [of _ 0], simp, rule exI [of _ 8], simp, rule exI [of _ 16], simp, rule exI [of _ 32], simp,
      rule exI [of _ 64], simp, rule exI [of _ 4], simp)

lemma eighths_half: "b * 2 = 1 \<Longrightarrow> eighths b"
  unfolding eighths_def by (rule exI [of _ 4]) simp

lemma dtype_eighths: "map_of dtypeBytes d = Some b \<Longrightarrow> eighths b"
  by (auto simp: dtypeBytes_def eighths_simps eighths_half split: if_splits)

lemma param_bytes_eighths: "eighths qb \<Longrightarrow> eighths (param_bytes qb d)"
  by (auto simp: param_bytes_def Let_def eighths_simps dtype_eighths split: option.split)

definition small_bits :: "config \<Rightarrow> bool" where
  "small_bits cfg = (case quantization_config cfg of None \<Rightarrow> True | Some q \<Rightarrow> qc_bits q \<le> 64)"

lemma quant_eighths:
  assumes "small_bits cfg"
  shows "eighths (quantBytesPerParam quant cfg)"
proof -
  have "eighths (rnd (rnd (of_int k) / 8))" if "0 < k" "k \<le> 64" for k
    using that f64.fl_int [of k] f64.fl_eighth [of k] by (auto simp: eighths_def)
  with assms show ?thesis
    by (auto simp: quantBytesPerParam_def small_bits_def eighths_simps split: option.splits)
qed

lemma census_exact:
  assumes "eighths qb" "\<forall>(d, n)\<in>set cs. 0 \<le> n" "0 \<le> p" "p + total_params cs < 2 ^ 63"
    and "0 \<le> m" "m + 64 * total_params cs < 2 ^ 53"
  shows "census_loop qb cs (p, of_int m / 8) = (p + total_params cs, of_int m / 8 + total_bytes qb cs)"
  using assms(2-)
proof (induction cs arbitrary: p m)
  case (Cons x cs)
  obtain d n where x: "x = (d, n)" by fastforce
  obtain k where k: "param_bytes qb d = of_int k / 8" "0 \<le> k" "k \<le> 64"
    using param_bytes_eighths [OF assms(1)] by (auto simp: eighths_def)
  have n: "0 \<le> n" using Cons.prems(1) x by simp
  have rest: "0 \<le> total_params cs" using Cons.prems(1) by (fastforce simp: total_params_def intro!: sum_list_nonneg)
  have tot: "total_params (x # cs) = n + total_params cs" by (simp add: total_params_def x)
  have nk: "n * k \<le> n * 64" using n k(3) by (intro mult_left_mono)
  have nk0: "0 \<le> n * k" using n k(2) by simp
  have b: "m + 64 * n + 64 * total_params cs < 2 ^ 53" using Cons.prems(5) tot by (simp add: algebra_simps)
  have n53: "n < 2 ^ 53" and nk53: "n * k < 2 ^ 53" and s53: "m + n * k < 2 ^ 53"
    and next53: "m + n * k + 64 * total_params cs < 2 ^ 53"
    using b n nk nk0 rest Cons.prems(4) by linarith+
  have r1: "rnd (of_int n) = of_int n" using n n53 by (intro f64.fl_int) simp
  have "(of_int n :: rat) * (of_int k / 8) = of_int (n * k) / 8" by simp
  then have r2: "rnd (of_int n * (of_int k / 8)) = of_int (n * k) / 8" using nk0 nk53 f64.fl_eighth [of "n * k"] by simp
  have s: "(of_int m :: rat) / 8 + of_int (n * k) / 8 = of_int (m + n * k) / 8" by (simp add: add_divide_distrib)
  have r3: "rnd (of_int m / 8 + of_int (n * k) / 8) = of_int (m + n * k) / 8"
    unfolding s using nk0 s53 Cons.prems(4) by (intro f64.fl_eighth) simp
  have w: "wrap64 (p + n) = p + n" using Cons.prems(2,3) tot n rest by (intro wrap64_id) simp_all
  have "census_loop qb (x # cs) (p, of_int m / 8) = census_loop qb cs (p + n, of_int (m + n * k) / 8)"
    by (simp only: x census_loop.simps r1 k(1) r2 r3 w)
  also have "\<dots> = (p + n + total_params cs, of_int (m + n * k) / 8 + total_bytes qb cs)"
    using Cons.prems nk0 next53 n tot by (intro Cons.IH) (auto simp: x)
  also have "\<dots> = (p + total_params (x # cs), of_int m / 8 + total_bytes qb (x # cs))"
    by (simp add: tot [unfolded x] total_bytes_def x k(1) add_divide_distrib)
  finally show ?case .
qed (simp add: total_params_def total_bytes_def)

lemma total_bytes_bounds:
  assumes "eighths qb" "\<forall>(d, n)\<in>set cs. 0 \<le> n"
  shows "0 \<le> total_bytes qb cs \<and> total_bytes qb cs \<le> of_int (8 * total_params cs)"
  using assms(2)
proof (induction cs)
  case (Cons x cs)
  obtain d n where x: "x = (d, n)" by fastforce
  obtain k where k: "param_bytes qb d = of_int k / 8" "0 \<le> k" "k \<le> 64"
    using param_bytes_eighths [OF assms(1)] by (auto simp: eighths_def)
  have n: "0 \<le> n" using Cons.prems x by simp
  have "n * k \<le> n * 64" using n k(3) by (intro mult_left_mono)
  then have "(of_int (n * k) :: rat) \<le> of_int (n * 64)" by (simp only: of_int_le_iff)
  moreover have "(0 :: rat) \<le> of_int (n * k)" using n k(2) by simp
  ultimately show ?case using Cons by (simp add: x total_bytes_def total_params_def k(1))
qed (simp add: total_bytes_def total_params_def)

text \<open>The key-value cache in exact arithmetic.\<close>

definition kv_exact :: "config \<Rightarrow> int \<Rightarrow> int" where
  "kv_exact cfg ctx =
     (let heads = (if num_key_value_heads cfg = 0 then num_attention_heads cfg else num_key_value_heads cfg);
          headDim = (if head_dim cfg = 0 \<and> num_attention_heads cfg > 0
                     then go_quot (hidden_size cfg) (num_attention_heads cfg) else head_dim cfg)
      in 4 * num_hidden_layers cfg * heads * headDim * ctx)"

lemma kvCacheBytes_wraps: "kvCacheBytes cfg ctx = wrap64 (kv_exact cfg ctx)"
proof -
  have "wrap64 (wrap64 (wrap64 (wrap64 (wrap64 (2 * l) * h) * d) * 2) * t) = wrap64 (4 * l * h * d * t)" for l h d t
  proof -
    have "wrap64 (wrap64 (wrap64 (2 * l) * h) * d) = wrap64 (2 * l * h * d)" by (metis wrap64_mult)
    then have "wrap64 (wrap64 (wrap64 (wrap64 (2 * l) * h) * d) * 2) = wrap64 (2 * l * h * d * 2)" by (metis wrap64_mult)
    then have "wrap64 (wrap64 (wrap64 (wrap64 (wrap64 (2 * l) * h) * d) * 2) * t) = wrap64 (2 * l * h * d * 2 * t)"
      by (metis wrap64_mult)
    also have "2 * l * h * d * 2 * t = 4 * l * h * d * t" by simp
    finally show ?thesis .
  qed
  moreover have "wrap64 0 = 0" by (simp add: wrap64_id)
  ultimately show ?thesis by (auto simp: kvCacheBytes_def kv_exact_def Let_def)
qed

definition context_used :: "config \<Rightarrow> int \<Rightarrow> int" where
  "context_used cfg ctx = (let c = (if ctx \<le> 0 then DefaultContextTokens else ctx)
     in if max_position_embeddings cfg > 0 \<and> c > max_position_embeddings cfg then max_position_embeddings cfg else c)"

lemma EstimateModel_exact:
  assumes sf: "m_safetensors model = Some sf" "sf_parameters sf \<noteq> []" "\<forall>(d, n)\<in>set (sf_parameters sf). 0 \<le> n"
    and small: "64 * total_params (sf_parameters sf) < 2 ^ 53" "small_bits cfg"
  defines "qb \<equiv> quantBytesPerParam (DetectQuantization model cfg) cfg"
  defines "w \<equiv> floor (total_bytes qb (sf_parameters sf))"
  shows "EstimateModel model cfg ctx = Inr \<lparr>e_model_id = m_id model,
      e_param_count = total_params (sf_parameters sf), e_quantization = DetectQuantization model cfg,
      e_context = context_used cfg ctx, e_weight = w, e_kv = wrap64 (kv_exact cfg (context_used cfg ctx)),
      e_overhead = fixedOverheadBytes, e_total = wrap64 (w + kv_exact cfg (context_used cfg ctx) + fixedOverheadBytes),
      e_architecture = (case architectures cfg of [] \<Rightarrow> [] | a # as \<Rightarrow> a),
      e_known = (to_lower (model_type cfg) \<in> set knownModelTypes),
      e_kv_unknown = (wrap64 (kv_exact cfg (context_used cfg ctx)) = 0)\<rparr>"
proof -
  let ?cs = "sf_parameters sf"
  have qb: "eighths qb" unfolding qb_def using small(2) by (rule quant_eighths)
  have tp: "0 \<le> total_params ?cs" using sf(3) by (fastforce simp: total_params_def intro!: sum_list_nonneg)
  have c: "census_loop qb ?cs (0, 0) = (total_params ?cs, total_bytes qb ?cs)"
    using census_exact [OF qb sf(3), of 0 0] small(1) tp by simp
  have b: "0 \<le> total_bytes qb ?cs" "total_bytes qb ?cs \<le> of_int (8 * total_params ?cs)"
    using total_bytes_bounds [OF qb sf(3)] by simp_all
  have "8 * total_params ?cs < 2 ^ 63" using small(1) tp by simp
  then have "(of_int (8 * total_params ?cs) :: rat) < of_int (2 ^ 63)" by (simp only: of_int_less_iff)
  with b have "total_bytes qb ?cs < 2 ^ 63" by simp
  with b(1) have w: "to_int64 (total_bytes qb ?cs) = w" unfolding w_def by (rule to_int64_nonneg)
  have t: "wrap64 (wrap64 (w + wrap64 k) + o2) = wrap64 (w + k + o2)" for k o2
    by (metis wrap64_add add.commute)
  show ?thesis
    using sf(1,2) c w t unfolding qb_def
    by (simp add: EstimateModel_def Let_def context_used_def kvCacheBytes_wraps)
qed

text \<open>The order of the census does not matter.\<close>

lemma total_params_mset: "mset cs = mset cs' \<Longrightarrow> total_params cs = total_params cs'"
proof -
  assume "mset cs = mset cs'"
  then have "sum_mset (image_mset snd (mset cs)) = sum_mset (image_mset snd (mset cs'))" by simp
  then show ?thesis unfolding total_params_def by (simp only: mset_map [symmetric] sum_mset_sum_list)
qed

lemma total_bytes_mset: "mset cs = mset cs' \<Longrightarrow> total_bytes qb cs = total_bytes qb cs'"
proof -
  let ?f = "\<lambda>(d, n). of_int n * param_bytes qb d"
  assume "mset cs = mset cs'"
  then have "sum_mset (image_mset ?f (mset cs)) = sum_mset (image_mset ?f (mset cs'))" by simp
  then show ?thesis unfolding total_bytes_def by (simp only: mset_map [symmetric] sum_mset_sum_list)
qed

definition reordered :: "hfmodel \<Rightarrow> (string \<times> int) list \<Rightarrow> hfmodel" where
  "reordered model cs = model\<lparr>m_safetensors := map_option (\<lambda>sf. sf\<lparr>sf_parameters := cs\<rparr>) (m_safetensors model)\<rparr>"

lemma reordered_simps [simp]:
  "m_id (reordered model cs) = m_id model"
  "m_safetensors (reordered model cs) = map_option (\<lambda>sf. sf\<lparr>sf_parameters := cs\<rparr>) (m_safetensors model)"
  "m_tags (reordered model cs) = m_tags model"
  by (simp_all add: reordered_def)

lemma reordered_quant [simp]: "DetectQuantization (reordered model cs) cfg = DetectQuantization model cfg"
  unfolding DetectQuantization_def reordered_simps by (rule refl)

text \<open>
  C21. For a model whose census counts are not negative and sum up to less than 2^47 the estimate is exact:
  the parameter count is the sum of the census, the weight the integer part of the exact sum of the
  counts times their widths, although the code adds floats, and so neither depends on the order in which Go
  iterates the map. The total is the sum of weight, key-value cache and overhead whenever that sum is
  below 2^63, however the partial products of the cache wrapped, and the context is clamped to the
  model's positions.
\<close>

theorem estimate_exact:
  assumes "m_safetensors model = Some sf" "sf_parameters sf \<noteq> []" "\<forall>(d, n)\<in>set (sf_parameters sf). 0 \<le> n"
    and "64 * total_params (sf_parameters sf) < 2 ^ 53" "small_bits cfg"
    and "mset cs = mset (sf_parameters sf)"
  shows "\<exists>est. EstimateModel model cfg ctx = Inr est \<and> EstimateModel (reordered model cs) cfg ctx = Inr est \<and>
    e_param_count est = total_params (sf_parameters sf) \<and>
    e_weight est = floor (total_bytes (quantBytesPerParam (DetectQuantization model cfg) cfg) (sf_parameters sf)) \<and>
    e_context est = context_used cfg ctx \<and>
    (\<bar>e_weight est + kv_exact cfg (e_context est) + 2 * 2 ^ 30\<bar> < 2 ^ 63 \<longrightarrow>
       e_total est = e_weight est + kv_exact cfg (e_context est) + 2 * 2 ^ 30)"
proof -
  let ?sf' = "sf\<lparr>sf_parameters := cs\<rparr>"
  have set: "set cs = set (sf_parameters sf)" using assms(6) by (metis set_mset_mset)
  have r1: "m_safetensors (reordered model cs) = Some ?sf'" by (simp add: assms(1))
  have r2: "sf_parameters ?sf' \<noteq> []" using set assms(2) by auto
  have r3: "\<forall>(d, n)\<in>set (sf_parameters ?sf'). 0 \<le> n" using set assms(3) by simp
  have tp: "total_params (sf_parameters ?sf') = total_params (sf_parameters sf)" using total_params_mset [OF assms(6)] by simp
  have tb: "total_bytes qb (sf_parameters ?sf') = total_bytes qb (sf_parameters sf)" for qb
    using total_bytes_mset [OF assms(6)] by simp
  note e = EstimateModel_exact [OF assms(1-5), of ctx]
  note e' = EstimateModel_exact [OF r1 r2 r3 _ assms(5), unfolded tp tb reordered_simps(1) reordered_quant, OF assms(4), of ctx]
  have w: "\<bar>x\<bar> < 2 ^ 63 \<Longrightarrow> wrap64 x = x" for x by (rule wrap64_id) simp_all
  show ?thesis
    by (intro exI conjI, rule e, rule e') (simp_all add: w fixedOverheadBytes_def)
qed

definition two_shards :: hfmodel where
  "two_shards = zero_model\<lparr>m_safetensors := Some \<lparr>sf_parameters = [(''BF16'', 3), (''F32'', 5)], sf_total = 8\<rparr>\<rparr>"

theorem estimate_exact_witness:
  "\<exists>est. EstimateModel two_shards zero_config 0 = Inr est \<and> e_weight est = 26 \<and> e_param_count est = 8 \<and>
     e_total est = 26 + 2 * 2 ^ 30"
proof -
  have sb: "small_bits zero_config" by (simp add: small_bits_def zero_config_def)
  have q: "DetectQuantization two_shards zero_config = []" by code_simp
  have kv: "kv_exact zero_config c = 0" for c by (simp add: kv_exact_def zero_config_def Let_def)
  have b: "param_bytes 0 ''BF16'' = 2" "param_bytes 0 ''F32'' = 4" by code_simp+
  have s: "m_safetensors two_shards = Some \<lparr>sf_parameters = [(''BF16'', 3), (''F32'', 5)], sf_total = 8\<rparr>"
    by (simp add: two_shards_def)
  show ?thesis
    using estimate_exact [of two_shards "\<lparr>sf_parameters = [(''BF16'', 3), (''F32'', 5)], sf_total = 8\<rparr>" zero_config
      "[(''F32'', 5), (''BF16'', 3)]" 0] sb
    by (auto simp: s q kv b total_params_def total_bytes_def quantBytesPerParam_def)
qed

section \<open>The budget\<close>

lemma exponent_unique:
  assumes "2 powi e \<le> \<bar>q\<bar>" "\<bar>q\<bar> < 2 powi (e + 1)"
  shows "exponent q = e"
proof -
  have "(0 :: rat) < 2 powi e" by simp
  with assms(1) have "q \<noteq> 0" by (metis abs_zero not_le)
  from exponent_bounds [OF this] assms have "(2 :: rat) powi exponent q < 2 powi (e + 1)" "(2 :: rat) powi e < 2 powi (exponent q + 1)"
    by linarith+
  then show ?thesis by (simp add: pow2_less)
qed

lemma c90: "rnd (90 / 100) = 8106479329266893 / 2 ^ 53"
proof -
  have "exponent (90 / 100) = - 1" by (rule exponent_unique) (simp_all add: power_int_minus)
  then have "rnd (90 / 100) = of_int (round_even (90 / 100 / (2 powi (- 53)))) * 2 powi (- 53)"
    by (simp add: rnd_def Let_def)
  moreover have "floor (40532396646334464 / 5 :: rat) = 8106479329266892" by (rule floor_unique) simp_all
  then have "round_even (90 / 100 / (2 powi (- 53))) = 8106479329266893"
    by (simp add: round_even_def Let_def power_int_minus)
  ultimately show ?thesis by (simp add: power_int_minus)
qed

text \<open>The verdict refuses exactly the totals above nine tenths of the memory.\<close>

lemma usable_exact:
  assumes "0 \<le> vram" "vram < 2 ^ 31" "0 \<le> tot" "tot \<le> 2 ^ 53"
  shows "rnd (of_int tot) \<le> usable_bytes vram \<longleftrightarrow> 10 * tot \<le> 9 * 2 ^ 20 * vram"
proof (cases "vram = 0")
  case True
  have "usable_bytes vram = 0" using True by (simp add: usable_bytes_def rnd_sign)
  moreover have "rnd (of_int tot) = of_int tot" using assms by (intro f64.fl_int) simp
  ultimately show ?thesis using True by simp
next
  case False
  define V where "V = vram * 2 ^ 20"
  have V: "0 < V" "V < 2 ^ 51" using assms(1,2) False by (simp_all add: V_def)
  have rv: "rnd (of_int vram) = of_int vram" using assms by (intro f64.fl_int) simp
  have "(of_int vram :: rat) * 2 ^ 20 = of_int V" by (simp add: V_def)
  moreover have "rnd (of_int V) = of_int V" using V by (intro f64.fl_int) simp
  ultimately have u: "usable_bytes vram = rnd (of_int V * (8106479329266893 / 2 ^ 53))"
    by (simp only: usable_bytes_def rv c90)
  have t: "rnd (of_int tot) = of_int tot" using assms by (intro f64.fl_int) simp
  let ?x = "(of_int V :: rat) * (8106479329266893 / 2 ^ 53)"
  have Vr: "(of_int V :: rat) < 2 ^ 51" using V(2) by (metis of_int_less_iff of_int_numeral of_int_power)
  have Vp: "(0 :: rat) < of_int V" using V(1) by simp
  have "?x < of_int V * 1" using Vp by (intro mult_strict_left_mono) simp_all
  then have x: "0 < ?x" "?x < 2 powi 51" using Vr Vp by simp_all
  have err: "\<bar>rnd ?x - ?x\<bar> \<le> 1 / 8" using rnd_error [OF x] by (simp add: power_int_minus)
  show ?thesis
  proof
    assume "10 * tot \<le> 9 * 2 ^ 20 * vram"
    then have "10 * tot \<le> 9 * V" by (simp add: V_def)
    then have "(of_int (10 * tot) :: rat) \<le> of_int (9 * V)" by (simp only: of_int_le_iff)
    then have "of_int tot \<le> (of_int V :: rat) * (9 / 10)" by simp
    also have "\<dots> \<le> ?x" using Vp by (intro mult_left_mono) simp_all
    finally show "rnd (of_int tot) \<le> usable_bytes vram" unfolding u by (rule rnd_monotone)
  next
    assume "rnd (of_int tot) \<le> usable_bytes vram"
    then have "of_int tot \<le> ?x + 1 / 8" using err t u by linarith
    moreover have "?x = of_int V * (9 / 10) + of_int V * (1 / (5 * 2 ^ 53))" by (simp add: algebra_simps)
    moreover have "of_int V * (1 / (5 * 2 ^ 53)) < (2 ^ 51 :: rat) * (1 / (5 * 2 ^ 53))"
      using Vr by (intro mult_strict_right_mono) simp_all
    moreover have "(2 ^ 51 :: rat) * (1 / (5 * 2 ^ 53)) = 1 / 20" by simp
    ultimately have "(of_int tot :: rat) < of_int V * (9 / 10) + 7 / 40" by linarith
    then have "(of_int (10 * tot) :: rat) < of_int (9 * V + 2)" by simp
    then have "10 * tot < 9 * V + 2" by (simp only: of_int_less_iff)
    then show "10 * tot \<le> 9 * 2 ^ 20 * vram" unfolding V_def by simp
  qed
qed

lemma rnd_idem [simp]: "rnd (rnd q) = rnd q"
proof -
  have pos: "rnd (rnd q) = rnd q" if q: "0 < q" for q
  proof -
    let ?u = "(2 :: rat) powi (exponent q - 52)"
    have r: "rnd q = of_int (round_even (q / ?u)) * ?u" using q by (simp add: rnd_def Let_def)
    have "of_int (round_even (q / ?u)) * ?u \<le> of_int (2 ^ 53) * ?u"
      using rnd_range [OF q] r by (simp add: pow2_diff pow2_add)
    then have le: "round_even (q / ?u) \<le> 2 ^ 53" by (simp only: mult_le_cancel_right_pos of_int_le_iff zero_less_power_int zero_less_numeral)
    have "0 < of_int (round_even (q / ?u)) * ?u" using rnd_sign(1) [OF q] r by simp
    moreover have "0 < ?u" by simp
    ultimately have ge: "0 < round_even (q / ?u)" by (metis of_int_0_less_iff zero_less_mult_pos2)
    show ?thesis
    proof (cases "round_even (q / ?u) = 2 ^ 53")
      case True
      then have "rnd q = of_int 1 * 2 powi (exponent q + 1)" unfolding r by (simp add: pow2_diff pow2_add)
      then show ?thesis using rnd_small [of 1 "exponent q + 1"] by simp
    next
      case False
      with le ge have "\<bar>round_even (q / ?u)\<bar> < 2 ^ 53" by simp
      from rnd_small [OF this] show ?thesis unfolding r .
    qed
  qed
  consider "0 < q" | "q = 0" | "0 < - q" by linarith
  then show ?thesis using pos [of q] pos [of "- q"] by cases (simp_all add: rnd_sign rnd_minus)
qed

lemma usable_nonneg: "0 \<le> vram \<Longrightarrow> 0 \<le> usable_bytes vram"
  unfolding usable_bytes_def by (intro f64.fl_nonneg mult_nonneg_nonneg) simp_all

lemma fits_is_usable:
  assumes "0 \<le> vram" "t \<le> rnd (usable_bytes vram * rnd (85 / 100))"
  shows "t \<le> usable_bytes vram"
proof -
  have "rnd (85 / 100) \<le> 1" using f64.fl_mono [of "85 / 100" 1] by simp
  then have "usable_bytes vram * rnd (85 / 100) \<le> usable_bytes vram * 1"
    using usable_nonneg [OF assms(1)] by (intro mult_left_mono)
  then have "rnd (usable_bytes vram * rnd (85 / 100)) \<le> rnd (usable_bytes vram)" by (intro f64.fl_mono) simp
  also have "\<dots> = usable_bytes vram" by (simp add: usable_bytes_def)
  finally show ?thesis using assms(2) by simp
qed

text \<open>
  C16. For every memory size below 2^31 MiB and every total up to 2^53 bytes the verdict is \<open>TOO_BIG\<close>
  exactly when the total exceeds nine tenths of the memory, computed without rounding: the three
  floating-point products of \<open>Assess\<close> and the comparison with the smaller FITS threshold never turn a
  model that fits away, nor let one through.
\<close>

theorem assess_exact:
  assumes "0 \<le> vram" "vram < 2 ^ 31" "0 \<le> e_total est" "e_total est \<le> 2 ^ 53"
  shows "Assess est vram = VerdictTooBig \<longleftrightarrow> 9 * (2 ^ 20 * vram) < 10 * e_total est"
proof -
  have "Assess est vram = VerdictTooBig \<longleftrightarrow> \<not> rnd (of_int (e_total est)) \<le> usable_bytes vram"
    using fits_is_usable [OF assms(1)] by (auto simp: Assess_def Let_def)
  then show ?thesis using usable_exact [OF assms] by (simp add: not_le)
qed

definition sample_estimate :: "int \<Rightarrow> estimate" where
  "sample_estimate t = \<lparr>e_model_id = ''m'', e_param_count = 1, e_quantization = [], e_context = 4096, e_weight = t, e_kv = 0,
     e_overhead = 0, e_total = t, e_architecture = [], e_known = False, e_kv_unknown = True\<rparr>"

theorem assess_exact_witness:
  "Assess (sample_estimate 23192823399) 24576 = VerdictTooBig \<and> Assess (sample_estimate 23192823398) 24576 \<noteq> VerdictTooBig"
  using assess_exact [of 24576 "sample_estimate 23192823399"] assess_exact [of 24576 "sample_estimate 23192823398"]
  by (simp add: sample_estimate_def)

end
