(* ===== verification/Doctor.thy ===== *)
theory Doctor imports SupervisorSpec Numbers begin

text \<open>
  internal/doctor (doctor.go, probes.go) and internal/preflight: the checks of the host. A probe is a
  function of the number of the system call, like the rest of the operating system; \<open>SystemProbes\<close>
  builds the production probes from what nvidia-smi prints, the file system and the network answer. Disk
  sizes are unsigned 64-bit integers.
\<close>

section \<open>Probes\<close>

record gpu =
  g_name :: string
  g_driver :: string
  g_vram :: int
  g_major :: int
  g_minor :: int

record probes =
  GPUs :: "nat \<Rightarrow> gpu list result"
  DiskFreeBytes :: "nat \<Rightarrow> string \<Rightarrow> int result"
  CheckEndpoint :: "nat \<Rightarrow> string \<Rightarrow> goerr option"

text \<open>The error of \<open>strconv.Atoi\<close>, and the value it returns beside it: the bound that was passed, or 0.\<close>

definition atoi_error :: "string \<Rightarrow> goerr" where
  "atoi_error s = Errorf ''strconv.Atoi: parsing %q: invalid syntax'' [ArgS s]"

definition atoi_value :: "string \<Rightarrow> int" where
  "atoi_value s = (case parse_int64 s of
     Some n \<Rightarrow> n
   | None \<Rightarrow>
     (let neg = (s \<noteq> [] \<and> hd s = CHR ''-'');
          ds = (if s \<noteq> [] \<and> (hd s = CHR ''-'' \<or> hd s = CHR ''+'') then tl s else s)
      in if ds = [] \<or> \<not> list_all is_digit ds then 0 else if neg then - (2 ^ 63) else 2 ^ 63 - 1))"

definition smi_line :: "string \<Rightarrow> gpu result" where
  "smi_line line =
     (let cols = split_on CHR '','' line
      in if length cols \<noteq> 4 then Inl (Errorf ''unexpected nvidia-smi line: %q'' [ArgS line])
         else let cols = map trim_space cols in
           case parse_int64 (cols ! 2) of
             None \<Rightarrow> Inl (Errorf ''bad memory.total %q: %w'' [ArgS (cols ! 2), ArgW (atoi_error (cols ! 2))])
           | Some vram \<Rightarrow>
             (case cut_at CHR ''.'' (cols ! 3) of (majorStr, minorStr, found) \<Rightarrow>
                (case parse_int64 majorStr of
                   None \<Rightarrow> Inl (Errorf ''bad compute_cap %q: %w'' [ArgS (cols ! 3), ArgW (atoi_error majorStr)])
                 | Some major \<Rightarrow>
                     Inr \<lparr>g_name = cols ! 0, g_driver = cols ! 1, g_vram = vram, g_major = major,
                          g_minor = atoi_value minorStr\<rparr>)))"

fun smi_lines :: "string list \<Rightarrow> gpu list \<Rightarrow> gpu list result" where
  "smi_lines [] gpus = Inr gpus"
| "smi_lines (line # ls) gpus =
     (if trim_space line = [] then smi_lines ls gpus
      else case smi_line line of Inl e \<Rightarrow> Inl e | Inr g \<Rightarrow> smi_lines ls (gpus @ [g]))"

definition parseNvidiaSMI :: "string \<Rightarrow> gpu list result" where
  "parseNvidiaSMI out = smi_lines (split_on (CHR 0x0A) (trim_space out)) []"

definition system_gpus :: "string result \<Rightarrow> gpu list result" where
  "system_gpus out = (case out of
     Inl e \<Rightarrow> Inl (wrapf ''nvidia-smi failed: %w'' e)
   | Inr text \<Rightarrow> parseNvidiaSMI text)"

text \<open>Why walking up with \<open>filepath.Dir\<close> ends.\<close>

definition bulk :: "string list \<Rightarrow> nat" where
  "bulk ps = sum_list (map (\<lambda>x. length x + 1) ps)"

lemma bulk_simps [simp]: "bulk [] = 0" "bulk (x # xs) = length x + 1 + bulk xs" "bulk (xs @ ys) = bulk xs + bulk ys"
    "bulk (rev xs) = bulk xs"
  by (simp_all add: bulk_def rev_map [symmetric] sum_list_rev)

lemma bulk_split: "bulk (split_on c s) = length s + 1"
  by (induction s) (auto split: list.split)

lemma length_join: "ps \<noteq> [] \<Longrightarrow> length (join_with [c] ps) + 1 = bulk ps"
  by (induction "[c]" ps rule: join_with.induct) auto

lemma bulk_clean_step: "bulk (clean_step r st c) \<le> bulk st + (if c = [] then 0 else length c + 1)"
  by (cases st) (auto simp: clean_step_def)

lemma bulk_clean: "bulk (foldl (clean_step r) st cs) + count_list cs [] \<le> bulk st + bulk cs"
proof (induction cs arbitrary: st)
  case (Cons c cs)
  from Cons.IH [of "clean_step r st c"] bulk_clean_step [of r st c] show ?case by (auto split: if_splits)
qed simp

lemma Clean_length: "length (Clean p) \<le> max 1 (length p + (if IsAbs p then 1 else 0) - count_list (split_on sep p) [])"
proof -
  have b: "bulk (clean_parts p) + count_list (split_on sep p) [] \<le> length p + 1"
    using bulk_clean [of "IsAbs p" "[]" "split_on sep p"] by (simp add: clean_parts_def bulk_split)
  show ?thesis
  proof (cases "clean_parts p = []")
    case True
    then show ?thesis by (simp add: Clean_def unclean_def)
  next
    case False
    from length_join [OF this, of sep] b False show ?thesis by (auto simp: Clean_def unclean_def)
  qed
qed

lemma path_dir_shorter:
  assumes "path_dir p \<noteq> p"
  shows "(if path_dir p = ''.'' then 0 else length (path_dir p) + 1) < (if p = ''.'' then 0 else length p + 1)"
proof -
  define q where "q = rev (dropWhile (\<lambda>c. c \<noteq> sep) (rev p))"
  have split: "p = q @ rev (takeWhile (\<lambda>c. c \<noteq> sep) (rev p))"
    unfolding q_def by (metis rev_append rev_rev_ident takeWhile_dropWhile_id)
  have d: "path_dir p = Clean q" by (simp add: path_dir_def q_def)
  show ?thesis
  proof (cases "q = []")
    case True
    have "Clean [] = ''.''" by code_simp
    with True d assms show ?thesis by simp
  next
    case False
    have "hd (dropWhile (\<lambda>c. c \<noteq> sep) (rev p)) = sep" using False hd_dropWhile [of "\<lambda>c. c \<noteq> sep" "rev p"] by (simp add: q_def)
    with False have "last q = sep" by (simp add: q_def last_rev)
    then obtain u where u: "q = u @ [sep]" using False by (metis append_butlast_last_id)
    have c: "count_list (split_on sep q) [] = count_list (split_on sep u) [] + 1" by (simp add: u split_on_append)
    have abs: "IsAbs q \<Longrightarrow> u \<noteq> [] \<Longrightarrow> 1 \<le> count_list (split_on sep u) []"
      by (cases u) (auto simp: u)
    have len: "length (Clean q) \<le> max 1 (length u)"
    proof (cases "u = []")
      case True
      then show ?thesis using Clean_length [of q] c by (simp add: u split: if_splits)
    next
      case False
      then show ?thesis using Clean_length [of q] c abs by (cases "IsAbs q") (simp_all add: u)
    qed
    have p: "length p = length u + 1 + length (takeWhile (\<lambda>c. c \<noteq> sep) (rev p))"
      using arg_cong [OF split, of length] by (simp add: u)
    have "sep \<in> set p" by (subst split) (simp add: u)
    then have np: "p \<noteq> ''.''" by (auto simp: sep_def)
    have "length (Clean q) < length p"
    proof (cases "u = []")
      case True
      have "Clean [sep] = [sep]" by code_simp
      with True assms d p u split show ?thesis by (cases "takeWhile (\<lambda>c. c \<noteq> sep) (rev p)") auto
    next
      case False
      with len p show ?thesis by (cases u) simp_all
    qed
    with np d show ?thesis by simp
  qed
qed

text \<open>
  \<open>here p\<close> says whether \<open>os.Stat p\<close> succeeds; \<open>statfs\<close> answers the available blocks
  and the block size.
\<close>

function nearest_dir :: "(string \<Rightarrow> bool) \<Rightarrow> string \<Rightarrow> string option" where
  "nearest_dir here d =
     (if here d then Some d
      else if path_dir d = d then None
      else nearest_dir here (path_dir d))"
  by pat_completeness auto
termination
  by (relation "measure (\<lambda>(here, d). if d = ''.'' then 0 else length d + 1)") (simp_all add: path_dir_shorter del: length_greater_0_conv)

declare nearest_dir.simps [simp del]

definition system_disk :: "(string \<Rightarrow> bool) \<Rightarrow> (string \<Rightarrow> (int \<times> int) result) \<Rightarrow> string \<Rightarrow> int result" where
  "system_disk here statfs path =
     (case nearest_dir here path of
        None \<Rightarrow> Inl (Errorf ''no existing ancestor for %s'' [ArgS path])
      | Some d \<Rightarrow> (case statfs d of
          Inl e \<Rightarrow> Inl e
        | Inr (bavail, bsize) \<Rightarrow> Inr ((bavail * bsize) mod 2 ^ 64)))"

definition system_endpoint :: "(string \<Rightarrow> int result) \<Rightarrow> string \<Rightarrow> goerr option" where
  "system_endpoint head_status url = (case head_status url of
     Inl e \<Rightarrow> Some e
   | Inr status \<Rightarrow> (if status \<ge> 500 then Some (Errorf ''status %d'' [ArgD status]) else None))"

definition SystemProbes :: "(nat \<Rightarrow> string result) \<Rightarrow> (nat \<Rightarrow> string \<Rightarrow> bool) \<Rightarrow>
    (nat \<Rightarrow> string \<Rightarrow> (int \<times> int) result) \<Rightarrow> (nat \<Rightarrow> string \<Rightarrow> int result) \<Rightarrow> probes" where
  "SystemProbes smi here statfs head_status =
     \<lparr>GPUs = (\<lambda>n. system_gpus (smi n)), DiskFreeBytes = (\<lambda>n. system_disk (here n) (statfs n)),
      CheckEndpoint = (\<lambda>n. system_endpoint (head_status n))\<rparr>"

section \<open>The doctor\<close>

datatype check_status = StatusPass | StatusWarn | StatusFail

record requirements =
  GPUArchitecture :: string
  ExpectedGPUName :: string
  MinComputeMajor :: int
  MinDriverMajor :: int
  MinVRAMGiB :: int
  MinDiskFreeGiB :: int
  CacheDir :: string
  Endpoints :: "string list"

definition DefaultRequirements :: "string \<Rightarrow> requirements" where
  "DefaultRequirements cacheDir = \<lparr>GPUArchitecture = ''blackwell'', ExpectedGPUName = ''RTX PRO 6000'',
     MinComputeMajor = 10, MinDriverMajor = 570, MinVRAMGiB = 32, MinDiskFreeGiB = 100, CacheDir = cacheDir,
     Endpoints = [''https://huggingface.co'']\<rparr>"

datatype check = Check (c_name: string) (c_status: check_status) (c_detail: string)

definition report_OK :: "check list \<Rightarrow> bool" where
  "report_OK checks = list_all (\<lambda>c. c_status c \<noteq> StatusFail) checks"

definition driverMajor :: "string \<Rightarrow> int result" where
  "driverMajor version = (case cut_at CHR ''.'' version of (before, after, found) \<Rightarrow>
     (case parse_int64 (trim_space before) of
        None \<Rightarrow> Inl (atoi_error (trim_space before)) | Some n \<Rightarrow> Inr n))"

definition driverCheck :: "gpu \<Rightarrow> requirements \<Rightarrow> check" where
  "driverCheck g req =
     (case driverMajor (g_driver g) of
        Inl e \<Rightarrow> Check ''nvidia-driver'' StatusFail (sprintf ''cannot parse driver version %q'' [g_driver g])
      | Inr major \<Rightarrow>
        (if major < MinDriverMajor req
         then Check ''nvidia-driver'' StatusFail (sprintf ''driver %s is below the R%d floor required for %s''
                [g_driver g, itoa (MinDriverMajor req), GPUArchitecture req])
         else Check ''nvidia-driver'' StatusPass (''driver '' @ g_driver g)))"

definition gpuChecks :: "probes \<Rightarrow> requirements \<Rightarrow> os \<Rightarrow> check list \<times> os" where
  "gpuChecks p req o1 =
     (case GPUs p (tick o1) of
        Inl e \<Rightarrow> ([Check ''nvidia-driver'' StatusFail
            (error_text e @ ''; use the supported IOLD RunPod template instead of a generic image'')], step_os o1)
      | Inr [] \<Rightarrow> ([Check ''nvidia-driver'' StatusFail
            (''no NVIDIA GPU detected'' @ ''; use the supported IOLD RunPod template instead of a generic image'')], step_os o1)
      | Inr (g # gs) \<Rightarrow>
        (let model = (if str_contains (g_name g) (ExpectedGPUName req)
               then Check ''gpu-model'' StatusPass (g_name g)
               else Check ''gpu-model'' StatusWarn (sprintf ''expected %s, found %s; deployment is only validated on %s''
                      [ExpectedGPUName req, g_name g, ExpectedGPUName req]));
             arch = (if g_major g \<ge> MinComputeMajor req
               then Check ''gpu-architecture'' StatusPass (sprintf ''%s (compute capability %d.%d)''
                      [GPUArchitecture req, itoa (g_major g), itoa (g_minor g)])
               else Check ''gpu-architecture'' StatusFail
                      (sprintf ''compute capability %d.%d is below %d.0; NVFP4 requires a %s GPU''
                         [itoa (g_major g), itoa (g_minor g), itoa (MinComputeMajor req), GPUArchitecture req]));
             requiredMiB = wrap64 (MinVRAMGiB req * 1024);
             detail = sprintf ''%d MiB available, %d MiB required'' [itoa (g_vram g), itoa requiredMiB];
             vram = (if g_vram g \<ge> requiredMiB then Check ''vram'' StatusPass detail else Check ''vram'' StatusFail detail)
         in ([driverCheck g req, model, arch, vram], step_os o1)))"

definition diskCheck :: "probes \<Rightarrow> requirements \<Rightarrow> os \<Rightarrow> check \<times> os" where
  "diskCheck p req o1 =
     (case DiskFreeBytes p (tick o1) (CacheDir req) of
        Inl e \<Rightarrow> (Check ''disk'' StatusFail (sprintf ''cannot stat model cache %s: %v'' [CacheDir req, error_text e]), step_os o1)
      | Inr free \<Rightarrow>
        (let freeGiB = free div 2 ^ 30;
             detail = sprintf ''%d GiB free at %s, %d GiB required'' [itoa freeGiB, CacheDir req, itoa (MinDiskFreeGiB req)]
         in (if freeGiB < MinDiskFreeGiB req mod 2 ^ 64 then Check ''disk'' StatusFail detail
             else Check ''disk'' StatusPass detail, step_os o1)))"

definition networkCheck :: "probes \<Rightarrow> string \<Rightarrow> os \<Rightarrow> check \<times> os" where
  "networkCheck p endpoint o1 =
     (case CheckEndpoint p (tick o1) endpoint of
        Some e \<Rightarrow> (Check ''network'' StatusFail (sprintf ''%s unreachable: %v'' [endpoint, error_text e]), step_os o1)
      | None \<Rightarrow> (Check ''network'' StatusPass (endpoint @ '' reachable''), step_os o1))"

fun network_checks :: "probes \<Rightarrow> string list \<Rightarrow> os \<Rightarrow> check list \<times> os" where
  "network_checks p [] o1 = ([], o1)"
| "network_checks p (e # es) o1 = (case networkCheck p e o1 of (c, o2) \<Rightarrow>
     (case network_checks p es o2 of (cs, o3) \<Rightarrow> (c # cs, o3)))"

definition doctor_Run :: "probes \<Rightarrow> requirements \<Rightarrow> os \<Rightarrow> check list \<times> os" where
  "doctor_Run p req o1 =
     (case gpuChecks p req o1 of (gs, o2) \<Rightarrow>
        (case diskCheck p req o2 of (d, o3) \<Rightarrow>
           (case network_checks p (Endpoints req) o3 of (ns, o4) \<Rightarrow> (gs @ [d] @ ns, o4))))"

section \<open>Preflight\<close>

record preflight_spec =
  pf_probes :: "probes option"
  pf_binary :: string
  pf_cache :: string
  pf_endpoint :: string
  pf_min_driver :: int
  pf_min_compute :: int
  pf_min_vram :: int
  pf_min_disk :: int
  pf_port :: int
  pf_reserved :: "int list"
  pf_releasable :: "int list"

definition gpu_failures :: "preflight_spec \<Rightarrow> gpu list result \<Rightarrow> string list" where
  "gpu_failures spec r =
     (case r of
        Inl e \<Rightarrow> [sprintf ''NVIDIA GPU detection failed: %v'' [error_text e]]
      | Inr [] \<Rightarrow> [sprintf ''NVIDIA GPU detection failed: %v'' [''<nil>'']]
      | Inr (g # gs) \<Rightarrow>
        (if pf_min_driver spec > 0
         then (case driverMajor (g_driver g) of
                 Inl e \<Rightarrow> [sprintf ''cannot parse NVIDIA driver %q'' [g_driver g]]
               | Inr major \<Rightarrow> (if major < pf_min_driver spec
                   then [sprintf ''NVIDIA driver %s is below required R%d'' [g_driver g, itoa (pf_min_driver spec)]] else []))
         else []) @
        (if g_major g < pf_min_compute spec
         then [sprintf ''compute capability %d.%d is below required %d.0''
                 [itoa (g_major g), itoa (g_minor g), itoa (pf_min_compute spec)]] else []) @
        (if g_vram g < pf_min_vram spec
         then [sprintf ''GPU has %d MiB VRAM; %d MiB required'' [itoa (g_vram g), itoa (pf_min_vram spec)]] else []))"

definition disk_failures :: "preflight_spec \<Rightarrow> probes \<Rightarrow> os \<Rightarrow> string list \<times> os" where
  "disk_failures spec p o1 =
     (if pf_min_disk spec > 0
      then (case DiskFreeBytes p (tick o1) (pf_cache spec) of
              Inl e \<Rightarrow> [sprintf ''cannot inspect model cache %s: %v'' [pf_cache spec, error_text e]]
            | Inr free \<Rightarrow> (if free div 2 ^ 30 < pf_min_disk spec mod 2 ^ 64
                then [sprintf ''model cache %s has %d GiB free; %d GiB required''
                        [pf_cache spec, itoa (free div 2 ^ 30), itoa (pf_min_disk spec)]] else []), step_os o1)
      else ([], o1))"

definition endpoint_failures :: "preflight_spec \<Rightarrow> probes \<Rightarrow> os \<Rightarrow> string list \<times> os" where
  "endpoint_failures spec p o1 =
     (if pf_endpoint spec \<noteq> []
      then (case CheckEndpoint p (tick o1) (pf_endpoint spec) of
              None \<Rightarrow> []
            | Some e \<Rightarrow> [sprintf ''endpoint %s is unreachable: %v'' [pf_endpoint spec, error_text e]], step_os o1)
      else ([], o1))"

text \<open>
  \<open>lookpath n\<close> is \<open>exec.LookPath\<close> (or the function of the specification) and \<open>free n\<close>
  the ports that can be bound, at call \<open>n\<close>.
\<close>

definition binary_failures :: "(nat \<Rightarrow> string \<Rightarrow> string result) \<Rightarrow> preflight_spec \<Rightarrow> os \<Rightarrow> string list \<times> os" where
  "binary_failures lookpath spec o1 =
     (if pf_binary spec = [] then ([''runtime binary is empty''], o1)
      else (case lookpath (tick o1) (pf_binary spec) of
              Inr x \<Rightarrow> []
            | Inl e \<Rightarrow> [sprintf ''runtime %q is unavailable: %v'' [pf_binary spec, error_text e]], step_os o1))"

definition choose_port :: "(nat \<Rightarrow> int \<Rightarrow> bool) \<Rightarrow> preflight_spec \<Rightarrow> os \<Rightarrow> string list \<times> int \<times> os" where
  "choose_port free spec o1 =
     (if pf_port spec \<le> 0 \<or> pf_port spec > 65535
      then ([sprintf ''invalid preferred port %d'' [itoa (pf_port spec)]], 0, o1)
      else if pf_port spec \<in> set (pf_releasable spec) \<and> pf_port spec \<notin> set (pf_reserved spec)
      then ([], pf_port spec, o1)
      else (case AllocatePort (free (tick o1)) (pf_port spec) (pf_reserved spec) of
              Inl e \<Rightarrow> ([error_text e], 0, step_os o1)
            | Inr q \<Rightarrow> ([], q, step_os o1)))"

definition preflight_Run :: "(nat \<Rightarrow> string \<Rightarrow> string result) \<Rightarrow> (nat \<Rightarrow> int \<Rightarrow> bool) \<Rightarrow> preflight_spec \<Rightarrow> os \<Rightarrow>
    int result \<times> os" where
  "preflight_Run lookpath free spec o1 =
     (case pf_probes spec of
        None \<Rightarrow> (Inl (Errorf ''%w: preflight probes are not configured'' [ArgW (Sentinel ErrChecksFailed)]), o1)
      | Some p \<Rightarrow>
        (let f1 = gpu_failures spec (GPUs p (tick o1));
             (f2, o3) = disk_failures spec p (step_os o1);
             (f3, o4) = endpoint_failures spec p o3;
             (f4, o5) = binary_failures lookpath spec o4;
             (f5, port, o6) = choose_port free spec o5;
             failures = f1 @ f2 @ f3 @ f4 @ f5
         in if failures \<noteq> []
            then (Inl (Errorf ''%w: %s'' [ArgW (Sentinel ErrChecksFailed), ArgS (join_with ''; '' failures)]), o6)
            else (Inr port, o6)))"

section \<open>What the checks decide\<close>

definition gpu_ready :: "int \<Rightarrow> int \<Rightarrow> int \<Rightarrow> gpu list result \<Rightarrow> bool" where
  "gpu_ready driver compute vram r = (case r of Inr (g # gs) \<Rightarrow>
       (driver > 0 \<longrightarrow> (case driverMajor (g_driver g) of Inr m \<Rightarrow> driver \<le> m | Inl e \<Rightarrow> False)) \<and>
       compute \<le> g_major g \<and> vram \<le> g_vram g
     | _ \<Rightarrow> False)"

definition disk_ready :: "int \<Rightarrow> int result \<Rightarrow> bool" where
  "disk_ready gib r = (case r of Inr free \<Rightarrow> gib mod 2 ^ 64 \<le> free div 2 ^ 30 | Inl e \<Rightarrow> False)"

lemma gpu_failures_Nil:
  "gpu_failures spec r = [] \<longleftrightarrow> gpu_ready (pf_min_driver spec) (pf_min_compute spec) (pf_min_vram spec) r"
  by (auto simp: gpu_failures_def gpu_ready_def not_less split: sum.splits list.splits)

lemma disk_failures_Nil:
  "fst (disk_failures spec p o1) = [] \<longleftrightarrow>
     (pf_min_disk spec > 0 \<longrightarrow> disk_ready (pf_min_disk spec) (DiskFreeBytes p (tick o1) (pf_cache spec)))"
  "snd (disk_failures spec p o1) = (if pf_min_disk spec > 0 then step_os o1 else o1)"
  by (auto simp: disk_failures_def disk_ready_def not_less split: sum.splits)

lemma endpoint_failures_Nil:
  "fst (endpoint_failures spec p o1) = [] \<longleftrightarrow> (pf_endpoint spec \<noteq> [] \<longrightarrow> CheckEndpoint p (tick o1) (pf_endpoint spec) = None)"
  "snd (endpoint_failures spec p o1) = (if pf_endpoint spec \<noteq> [] then step_os o1 else o1)"
  by (auto simp: endpoint_failures_def split: option.splits)

lemma binary_failures_Nil:
  "fst (binary_failures lookpath spec o1) = [] \<longleftrightarrow> pf_binary spec \<noteq> [] \<and> (\<exists>x. lookpath (tick o1) (pf_binary spec) = Inr x)"
  "snd (binary_failures lookpath spec o1) = (if pf_binary spec \<noteq> [] then step_os o1 else o1)"
  by (auto simp: binary_failures_def split: sum.splits)

lemma quiet_stepI: "quiet o1 o2 \<Longrightarrow> quiet o1 (step_os o2)"
  by (simp add: quiet_def later_def)

definition port_ready :: "(int \<Rightarrow> bool) \<Rightarrow> preflight_spec \<Rightarrow> int \<Rightarrow> bool" where
  "port_ready free spec q = (0 < pf_port spec \<and> pf_port spec \<le> 65535 \<and> q \<notin> set (pf_reserved spec) \<and>
     (if pf_port spec \<in> set (pf_releasable spec) \<and> pf_port spec \<notin> set (pf_reserved spec) then q = pf_port spec
      else pf_port spec \<le> q \<and> q < pf_port spec + 100 \<and> free q \<and>
        (\<forall>x. pf_port spec \<le> x \<and> x < q \<longrightarrow> x \<in> set (pf_reserved spec) \<or> \<not> free x)))"

lemma AllocatePort_iff:
  "AllocatePort free preferred reserved = Inr q \<longleftrightarrow>
     preferred \<le> q \<and> q < preferred + 100 \<and> q \<notin> set reserved \<and> free q \<and>
       (\<forall>x. preferred \<le> x \<and> x < q \<longrightarrow> x \<in> set reserved \<or> \<not> free x)"
proof (cases "scan_ports free reserved preferred (preferred + portScanWindow)")
  case None
  with scan_ports_result [where free = free and reserved = reserved and port = preferred and stop = "preferred + portScanWindow"]
  show ?thesis by (auto simp: AllocatePort_def portScanWindow_def)
next
  case (Some y)
  with scan_ports_result [where free = free and reserved = reserved and port = preferred and stop = "preferred + portScanWindow"]
  have y: "preferred \<le> y" "y < preferred + 100" "y \<notin> set reserved" "free y"
    "\<forall>x. preferred \<le> x \<and> x < y \<longrightarrow> x \<in> set reserved \<or> \<not> free x" by (auto simp: portScanWindow_def)
  have "AllocatePort free preferred reserved = Inr q \<longleftrightarrow> y = q" using Some by (simp add: AllocatePort_def)
  also have "\<dots> \<longleftrightarrow> preferred \<le> q \<and> q < preferred + 100 \<and> q \<notin> set reserved \<and> free q \<and>
       (\<forall>x. preferred \<le> x \<and> x < q \<longrightarrow> x \<in> set reserved \<or> \<not> free x)"
    using y by (metis linorder_neqE)
  finally show ?thesis .
qed

lemma choose_port_ready:
  assumes "choose_port free spec o1 = (f, q, o2)"
  shows "(f = [] \<and> q = x) = (port_ready (free (tick o1)) spec x) \<and> quiet o1 o2"
  using assms AllocatePort_iff [of "free (tick o1)" "pf_port spec" "pf_reserved spec" x]
  by (auto simp: choose_port_def port_ready_def intro: quiet_stepI split: if_splits sum.splits)

lemma preflight_result:
  assumes "pf_probes spec = Some p" "preflight_Run lookpath free spec o1 = (r, o2)"
  shows "(let t1 = tick o1 + 1; t2 = t1 + (if pf_min_disk spec > 0 then 1 else 0);
              t3 = t2 + (if pf_endpoint spec \<noteq> [] then 1 else 0)
      in r = Inr q \<longleftrightarrow>
        gpu_ready (pf_min_driver spec) (pf_min_compute spec) (pf_min_vram spec) (GPUs p (tick o1)) \<and>
        (pf_min_disk spec > 0 \<longrightarrow> disk_ready (pf_min_disk spec) (DiskFreeBytes p t1 (pf_cache spec))) \<and>
        (pf_endpoint spec \<noteq> [] \<longrightarrow> CheckEndpoint p t2 (pf_endpoint spec) = None) \<and>
        pf_binary spec \<noteq> [] \<and> (\<exists>x. lookpath t3 (pf_binary spec) = Inr x) \<and> port_ready (free (t3 + 1)) spec q) \<and>
    (\<forall>e. r = Inl e \<longrightarrow> errors_is ErrChecksFailed e \<and> exit_code (Some e) = 5) \<and> quiet o1 o2"
proof -
  let ?o3 = "snd (disk_failures spec p (step_os o1))"
  let ?o4 = "snd (endpoint_failures spec p ?o3)"
  let ?o5 = "snd (binary_failures lookpath spec ?o4)"
  obtain f5 port o6 where c: "choose_port free spec ?o5 = (f5, port, o6)" by (cases "choose_port free spec ?o5") auto
  let ?f = "gpu_failures spec (GPUs p (tick o1)) @ fst (disk_failures spec p (step_os o1)) @
    fst (endpoint_failures spec p ?o3) @ fst (binary_failures lookpath spec ?o4) @ f5"
  have o2: "o2 = o6" and r: "r = (if ?f \<noteq> [] then Inl (Errorf ''%w: %s'' [ArgW (Sentinel ErrChecksFailed), ArgS (join_with ''; '' ?f)])
      else Inr port)"
    using assms c by (auto simp: preflight_Run_def Let_def case_prod_beta split: if_splits)
  have t: "tick ?o3 = tick o1 + 1 + (if pf_min_disk spec > 0 then 1 else 0)"
    "tick ?o4 = tick ?o3 + (if pf_endpoint spec \<noteq> [] then 1 else 0)"
    "pf_binary spec \<noteq> [] \<Longrightarrow> tick ?o5 = tick ?o4 + 1"
    by (simp_all add: disk_failures_Nil endpoint_failures_Nil binary_failures_Nil)
  have "quiet o1 ?o5" by (auto simp: disk_failures_Nil endpoint_failures_Nil binary_failures_Nil intro!: quiet_stepI)
  with choose_port_ready [OF c] o2 have quiet: "quiet o1 o2" by (blast intro: quiet_trans)
  have "r = Inr q \<longleftrightarrow> ?f = [] \<and> port = q" using r by auto
  also have "\<dots> \<longleftrightarrow> gpu_failures spec (GPUs p (tick o1)) = [] \<and> fst (disk_failures spec p (step_os o1)) = [] \<and>
      fst (endpoint_failures spec p ?o3) = [] \<and> fst (binary_failures lookpath spec ?o4) = [] \<and> port_ready (free (tick ?o5)) spec q"
    using choose_port_ready [OF c, of q] by auto
  finally have "r = Inr q \<longleftrightarrow> \<dots>" .
  moreover have "errors_is ErrChecksFailed e \<and> exit_code (Some e) = 5" if "r = Inl e" for e
  proof -
    have "\<exists>t. e = Errorf ''%w: %s'' [ArgW (Sentinel ErrChecksFailed), ArgS t]" using r that by (cases "?f = []") simp_all
    then show ?thesis by (auto simp: exit_code_def)
  qed
  ultimately show ?thesis
    using t quiet by (auto simp: Let_def gpu_failures_Nil disk_failures_Nil(1) endpoint_failures_Nil(1) binary_failures_Nil(1))
qed

text \<open>
  C17. Preflight succeeds exactly when, at the moments it looks, the first GPU, the disk, the hub, the
  runtime binary and a port all meet the specification; it then returns the wanted port if a deployment to
  be replaced holds it, and otherwise the first free unreserved one of the hundred from there. Every
  failure is ErrChecksFailed, exit code 5; checking signals no process.
\<close>

theorem preflight_exact:
  assumes "pf_probes spec = Some p" "preflight_Run lookpath free spec o1 = (r, o2)"
  shows "(let t1 = tick o1 + 1; t2 = t1 + (if pf_min_disk spec > 0 then 1 else 0);
              t3 = t2 + (if pf_endpoint spec \<noteq> [] then 1 else 0)
      in r = Inr q \<longleftrightarrow>
        gpu_ready (pf_min_driver spec) (pf_min_compute spec) (pf_min_vram spec) (GPUs p (tick o1)) \<and>
        (pf_min_disk spec > 0 \<longrightarrow> disk_ready (pf_min_disk spec) (DiskFreeBytes p t1 (pf_cache spec))) \<and>
        (pf_endpoint spec \<noteq> [] \<longrightarrow> CheckEndpoint p t2 (pf_endpoint spec) = None) \<and>
        pf_binary spec \<noteq> [] \<and> (\<exists>x. lookpath t3 (pf_binary spec) = Inr x) \<and> port_ready (free (t3 + 1)) spec q) \<and>
    (\<forall>e. r = Inl e \<longrightarrow> errors_is ErrChecksFailed e \<and> exit_code (Some e) = 5) \<and> quiet o1 o2"
  using assms by (rule preflight_result)

definition sample_gpu :: gpu where
  "sample_gpu = \<lparr>g_name = ''NVIDIA RTX PRO 6000'', g_driver = ''570.86'', g_vram = 97887, g_major = 12, g_minor = 0\<rparr>"

definition sample_probes :: probes where
  "sample_probes = \<lparr>GPUs = (\<lambda>n. Inr [sample_gpu]), DiskFreeBytes = (\<lambda>n p. Inr (200 * 2 ^ 30)),
     CheckEndpoint = (\<lambda>n e. None)\<rparr>"

definition sample_spec :: preflight_spec where
  "sample_spec = \<lparr>pf_probes = Some sample_probes, pf_binary = ''vllm'', pf_cache = ''/c'', pf_endpoint = ''https://huggingface.co'',
     pf_min_driver = 570, pf_min_compute = 10, pf_min_vram = 32768, pf_min_disk = 100, pf_port = 8000, pf_reserved = [],
     pf_releasable = [8000]\<rparr>"

lemma sample_ready: "gpu_ready 570 10 32768 (Inr [sample_gpu])"
  by code_simp

theorem preflight_exact_witness:
  "fst (preflight_Run (\<lambda>n b. Inr b) (\<lambda>n p. False) sample_spec demo_steady) = Inr 8000"
proof -
  have p: "pf_probes sample_spec = Some sample_probes" by (simp add: sample_spec_def)
  obtain r o2 where r: "preflight_Run (\<lambda>n b. Inr b) (\<lambda>n p. False) sample_spec demo_steady = (r, o2)" by fastforce
  show ?thesis
    using preflight_exact [OF p r, of 8000] sample_ready r
    by (simp add: sample_spec_def sample_probes_def disk_ready_def port_ready_def Let_def)
qed

lemma report_OK_append [simp]: "report_OK (xs @ ys) = (report_OK xs \<and> report_OK ys)"
  by (simp add: report_OK_def)

lemma report_OK_Cons [simp]: "report_OK (c # cs) = (c_status c \<noteq> StatusFail \<and> report_OK cs)" "report_OK []"
  by (simp_all add: report_OK_def)

lemma driverCheck_ok:
  "c_status (driverCheck g req) \<noteq> StatusFail \<longleftrightarrow> (\<exists>m. driverMajor (g_driver g) = Inr m \<and> MinDriverMajor req \<le> m)"
  by (auto simp: driverCheck_def split: sum.splits)

lemma gpuChecks_ok:
  assumes "gpuChecks p req o1 = (cs, o2)"
  shows "o2 = step_os o1 \<and> report_OK cs = (\<exists>g gs. GPUs p (tick o1) = Inr (g # gs) \<and>
      (\<exists>m. driverMajor (g_driver g) = Inr m \<and> MinDriverMajor req \<le> m) \<and> MinComputeMajor req \<le> g_major g \<and>
      wrap64 (MinVRAMGiB req * 1024) \<le> g_vram g) \<and>
    length cs = (case GPUs p (tick o1) of Inr (g # gs) \<Rightarrow> 4 | _ \<Rightarrow> 1)"
proof (cases "GPUs p (tick o1)")
  case (Inl e)
  with assms show ?thesis by (auto simp: gpuChecks_def)
next
  case (Inr gs)
  show ?thesis
  proof (cases gs)
    case Nil
    with assms Inr show ?thesis by (auto simp: gpuChecks_def)
  next
    case (Cons g rest)
    from assms Inr Cons show ?thesis
      by (auto simp: gpuChecks_def Let_def driverCheck_ok split: if_splits)
  qed
qed

lemma network_checks_ok:
  assumes "network_checks p es o1 = (cs, o2)"
  shows "report_OK cs = (\<forall>i<length es. CheckEndpoint p (tick o1 + i) (es ! i) = None) \<and> length cs = length es \<and> quiet o1 o2"
  using assms
proof (induction es arbitrary: o1 o2 cs)
  case (Cons e es)
  obtain ds o3 where r: "network_checks p es (step_os o1) = (ds, o3)" by fastforce
  obtain c where c: "networkCheck p e o1 = (c, step_os o1)" "c_status c \<noteq> StatusFail \<longleftrightarrow> CheckEndpoint p (tick o1) e = None"
    by (cases "CheckEndpoint p (tick o1) e") (auto simp: networkCheck_def)
  have "cs = c # ds" "o2 = o3" using Cons.prems c(1) r by simp_all
  moreover have "(\<forall>i<length (e # es). CheckEndpoint p (tick o1 + i) ((e # es) ! i) = None) \<longleftrightarrow>
      CheckEndpoint p (tick o1) e = None \<and> (\<forall>i<length es. CheckEndpoint p (tick o1 + 1 + i) (es ! i) = None)"
    by (auto simp: less_Suc_eq_0_disj)
  moreover have "quiet o1 o3" using Cons.IH [OF r] by (blast intro: quiet_trans quiet_stepI quiet_refl)
  ultimately show ?case using Cons.IH [OF r] c(2) by simp
qed simp

text \<open>
  The doctor always runs every check and its report is OK exactly when the first GPU's driver, compute
  capability and memory, the free disk space and every endpoint meet the requirements at the moment of each
  probe; an unexpected GPU model only warns. So a report that is OK means that the corresponding
  requirements of preflight would have held there.
\<close>

theorem doctor_report_exact:
  assumes "doctor_Run p req o1 = (cs, o2)"
  shows "(report_OK cs \<longleftrightarrow>
      (\<exists>g gs. GPUs p (tick o1) = Inr (g # gs) \<and>
         (\<exists>m. driverMajor (g_driver g) = Inr m \<and> MinDriverMajor req \<le> m) \<and> MinComputeMajor req \<le> g_major g \<and>
         wrap64 (MinVRAMGiB req * 1024) \<le> g_vram g) \<and>
      disk_ready (MinDiskFreeGiB req) (DiskFreeBytes p (tick o1 + 1) (CacheDir req)) \<and>
      (\<forall>i<length (Endpoints req). CheckEndpoint p (tick o1 + 2 + i) (Endpoints req ! i) = None)) \<and>
    length cs = (case GPUs p (tick o1) of Inr (g # gs) \<Rightarrow> 4 | _ \<Rightarrow> 1) + 1 + length (Endpoints req) \<and>
    (report_OK cs \<longrightarrow> gpu_ready (MinDriverMajor req) (MinComputeMajor req) (wrap64 (MinVRAMGiB req * 1024)) (GPUs p (tick o1))) \<and>
    quiet o1 o2"
proof -
  obtain gs o3 where g: "gpuChecks p req o1 = (gs, o3)" by fastforce
  have o3: "o3 = step_os o1" using gpuChecks_ok [OF g] by blast
  obtain d where d: "diskCheck p req o3 = (d, step_os o3)"
    "c_status d \<noteq> StatusFail \<longleftrightarrow> disk_ready (MinDiskFreeGiB req) (DiskFreeBytes p (tick o3) (CacheDir req))"
    by (cases "DiskFreeBytes p (tick o3) (CacheDir req)") (auto simp: diskCheck_def disk_ready_def Let_def)
  obtain ns o5 where n: "network_checks p (Endpoints req) (step_os o3) = (ns, o5)" by fastforce
  have cs: "cs = gs @ [d] @ ns" "o2 = o5" using assms g d(1) n by (simp_all add: doctor_Run_def)
  have q: "quiet o1 o2" using network_checks_ok [OF n] cs(2) o3 by (blast intro: quiet_trans quiet_stepI quiet_refl)
  have ready: "gpu_ready (MinDriverMajor req) (MinComputeMajor req) (wrap64 (MinVRAMGiB req * 1024)) (GPUs p (tick o1))"
    if "report_OK cs"
    using that gpuChecks_ok [OF g] cs(1) by (auto simp: gpu_ready_def)
  show ?thesis using gpuChecks_ok [OF g] d(2) network_checks_ok [OF n] cs q ready o3 by simp
qed

theorem doctor_report_exact_witness:
  "report_OK (fst (doctor_Run sample_probes (DefaultRequirements ''/c'') demo_steady))"
proof -
  obtain cs o2 where r: "doctor_Run sample_probes (DefaultRequirements ''/c'') demo_steady = (cs, o2)" by fastforce
  have d: "driverMajor ''570.86'' = Inr 570" by code_simp
  show ?thesis
    using doctor_report_exact [OF r] r d
    by (simp add: sample_probes_def DefaultRequirements_def disk_ready_def sample_gpu_def wrap64_id)
qed

section \<open>Reading nvidia-smi\<close>

text \<open>The line nvidia-smi prints for a GPU in the format asked for.\<close>

definition smi_text :: "gpu \<Rightarrow> string" where
  "smi_text g = g_name g @ '', '' @ g_driver g @ '', '' @ itoa (g_vram g) @ '', '' @ itoa (g_major g) @ ''.'' @ itoa (g_minor g)"

definition plain :: "string \<Rightarrow> bool" where
  "plain s = (s \<noteq> [] \<and> \<not> is_space (hd s) \<and> \<not> is_space (last s) \<and> CHR '','' \<notin> set s \<and> CHR 0x0A \<notin> set s)"

definition in_int64 :: "int \<Rightarrow> bool" where
  "in_int64 n = (- (2 ^ 63) \<le> n \<and> n < 2 ^ 63)"

definition printable_gpu :: "gpu \<Rightarrow> bool" where
  "printable_gpu g = (plain (g_name g) \<and> plain (g_driver g) \<and> in_int64 (g_vram g) \<and> in_int64 (g_major g) \<and> in_int64 (g_minor g))"

lemma trim_plain: "s \<noteq> [] \<Longrightarrow> \<not> is_space (hd s) \<Longrightarrow> \<not> is_space (last s) \<Longrightarrow> trim_space s = s"
  by (simp add: trim_space_def trim_id)

lemma trim_space_Cons [simp]: "is_space c \<Longrightarrow> trim_space (c # s) = trim_space s"
  by (simp add: trim_space_def trim_def trim_left_def)

lemma trim_space_snoc: "s \<noteq> [] \<Longrightarrow> \<not> is_space (hd s) \<Longrightarrow> \<not> is_space (last s) \<Longrightarrow> is_space c \<Longrightarrow> trim_space (s @ [c]) = s"
proof -
  assume s: "s \<noteq> []" "\<not> is_space (hd s)" "\<not> is_space (last s)" "is_space c"
  then have "dropWhile is_space (s @ [c]) = s @ [c]" by (simp add: dropWhile_hd)
  moreover have "dropWhile is_space (rev s) = rev s" using s by (simp add: dropWhile_hd hd_rev)
  ultimately show ?thesis using s(4) by (simp add: trim_space_def trim_def trim_left_def trim_right_def)
qed

lemma itoa_chars: "c \<in> set (itoa n) \<Longrightarrow> is_digit c \<or> c = CHR ''-''"
  using show_nat_digits [of "nat n"] show_nat_digits [of "nat (- n)"]
  by (auto simp: itoa_def list_all_iff split: if_splits)

lemma itoa_plain: "plain (itoa n)" and itoa_no_dot: "CHR ''.'' \<notin> set (itoa n)"
proof -
  have ne: "itoa n \<noteq> []" using show_nat_digits by (simp add: itoa_def)
  have sp: "\<not> is_space c \<and> c \<noteq> CHR '','' \<and> c \<noteq> CHR 0x0A \<and> c \<noteq> CHR ''.''" if "c \<in> set (itoa n)" for c
    using itoa_chars [OF that] by (auto simp: is_digit_def is_space_def)
  show "plain (itoa n)" using ne sp [of "hd (itoa n)"] sp [of "last (itoa n)"] sp by (auto simp: plain_def)
  show "CHR ''.'' \<notin> set (itoa n)" using sp by auto
qed

lemma smi_text_plain: "printable_gpu g \<Longrightarrow> smi_text g \<noteq> [] \<and> \<not> is_space (hd (smi_text g)) \<and> \<not> is_space (last (smi_text g)) \<and>
    CHR 0x0A \<notin> set (smi_text g)"
  using itoa_plain by (auto simp: printable_gpu_def smi_text_def plain_def hd_append)

lemma cut_at_append: "c \<notin> set a \<Longrightarrow> cut_at c (a @ c # b) = (a, b, True)"
  by (induction a) (auto simp: cut_at_def)

lemma smi_line_text:
  assumes "printable_gpu g"
  shows "smi_line (smi_text g) = Inr g"
proof -
  let ?cap = "itoa (g_major g) @ CHR ''.'' # itoa (g_minor g)"
  have cap: "plain ?cap" using itoa_plain [of "g_major g"] itoa_plain [of "g_minor g"] by (auto simp: plain_def)
  have no: "CHR '','' \<notin> set (g_name g)" "CHR '','' \<notin> set (CHR '' '' # g_driver g)" "CHR '','' \<notin> set (CHR '' '' # itoa (g_vram g))"
    "CHR '','' \<notin> set (CHR '' '' # ?cap)"
    using assms itoa_plain [of "g_vram g"] cap by (auto simp: printable_gpu_def plain_def)
  have line_eq: "smi_text g = g_name g @ CHR '','' # ((CHR '' '' # g_driver g) @ CHR '','' # ((CHR '' '' # itoa (g_vram g)) @ CHR '','' # (CHR '' '' # ?cap)))"
    by (simp add: smi_text_def)
  have split: "split_on CHR '','' (smi_text g) = [g_name g, CHR '' '' # g_driver g, CHR '' '' # itoa (g_vram g), CHR '' '' # ?cap]"
    unfolding line_eq split_on_append no [THEN split_on_no_sep] by simp
  have trims: "trim_space (g_name g) = g_name g" "trim_space (g_driver g) = g_driver g" "trim_space (itoa (g_vram g)) = itoa (g_vram g)"
    "trim_space ?cap = ?cap"
    using assms itoa_plain [of "g_vram g"] cap by (auto simp: printable_gpu_def plain_def intro!: trim_plain)
  have cut: "cut_at CHR ''.'' ?cap = (itoa (g_major g), itoa (g_minor g), True)" using itoa_no_dot by (rule cut_at_append)
  have nums: "parse_int64 (itoa (g_vram g)) = Some (g_vram g)" "parse_int64 (itoa (g_major g)) = Some (g_major g)"
    "parse_int64 (itoa (g_minor g)) = Some (g_minor g)"
    using assms by (auto simp: printable_gpu_def in_int64_def intro!: parse_int64_itoa)
  show ?thesis by (simp add: smi_line_def split trims cut nums atoi_value_def numeral_2_eq_2 numeral_3_eq_3)
qed

lemma smi_lines_text: "\<forall>g\<in>set gs. printable_gpu g \<Longrightarrow> smi_lines (map smi_text gs) acc = Inr (acc @ gs)"
proof (induction gs arbitrary: acc)
  case (Cons g gs)
  have "trim_space (smi_text g) = smi_text g" "smi_text g \<noteq> []" using smi_text_plain [of g] Cons.prems by (auto intro!: trim_plain)
  with Cons smi_line_text [of g] show ?case by simp
qed simp

lemma lines_join: "gs \<noteq> [] \<Longrightarrow> concat (map (\<lambda>g. f g @ [c]) gs) = join_with [c] (map f gs) @ [c]"
  by (induction gs rule: induct_list012) auto

lemma join_ends: "ws \<noteq> [] \<Longrightarrow> list_all (\<lambda>w. w \<noteq> []) ws \<Longrightarrow>
    join_with s ws \<noteq> [] \<and> hd (join_with s ws) = hd (hd ws) \<and> last (join_with s ws) = last (last ws)"
  by (induction s ws rule: join_with.induct) (auto simp: hd_append)

text \<open>
  What nvidia-smi prints is read back: for every list of GPUs, in order, with names and driver versions
  that hold no comma or line break and no space at their ends, and numbers of 64 bits, parsing the lines it
  prints for them gives the list again.
\<close>

theorem smi_roundtrip:
  assumes "\<forall>g\<in>set gs. printable_gpu g"
  shows "parseNvidiaSMI (concat (map (\<lambda>g. smi_text g @ [CHR 0x0A]) gs)) = Inr gs"
proof (cases "gs = []")
  case True
  then show ?thesis by (simp add: parseNvidiaSMI_def trim_space_def trim_def trim_left_def trim_right_def)
next
  case False
  let ?ls = "map smi_text gs"
  have p: "g \<in> set gs \<Longrightarrow> smi_text g \<noteq> [] \<and> \<not> is_space (hd (smi_text g)) \<and> \<not> is_space (last (smi_text g)) \<and> CHR 0x0A \<notin> set (smi_text g)" for g
    using assms smi_text_plain by blast
  have ls: "?ls \<noteq> []" "list_all (\<lambda>w. w \<noteq> []) ?ls" "list_all (\<lambda>w. CHR 0x0A \<notin> set w) ?ls" using False p by (auto simp: list_all_iff)
  have ends: "hd (hd ?ls) = hd (smi_text (hd gs))" "last (last ?ls) = last (smi_text (last gs))" using False by (simp_all add: hd_map last_map)
  have nl: "is_space (CHR 0x0A)" by (simp add: is_space_def)
  have "trim_space (join_with [CHR 0x0A] ?ls @ [CHR 0x0A]) = join_with [CHR 0x0A] ?ls"
    using join_ends [OF ls(1,2), of "[CHR 0x0A]"] ends p [of "hd gs"] p [of "last gs"] False nl by (intro trim_space_snoc) simp_all
  moreover have "split_on (CHR 0x0A) (join_with [CHR 0x0A] ?ls) = ?ls" using ls(1,3) by (rule split_on_join)
  ultimately show ?thesis using smi_lines_text [OF assms, of "[]"] False by (simp add: parseNvidiaSMI_def lines_join)
qed

theorem smi_roundtrip_witness:
  "parseNvidiaSMI (smi_text sample_gpu @ [CHR 0x0A]) = Inr [sample_gpu]"
proof -
  have "\<forall>g\<in>set [sample_gpu]. printable_gpu g" by code_simp
  from smi_roundtrip [OF this] show ?thesis by simp
qed

end
