(* ===== verification/Deploy.thy ===== *)
theory Deploy imports LifecycleSpec Planner Doctor begin

text \<open>
  The deploy command (internal/cli/deploy.go): resolving a model reference into a specification, the
  preflight, the replacement of existing deployments, and \<open>executeDeploy\<close>, which drives the state
  machine to UNREGISTERED_HEALTHY while it writes the key, claims the cache, launches the runtime and polls
  it. The runtime and the hub are HTTP services. The loops that poll end only if time passes, so they
  answer \<open>None\<close> when they run for ever.
\<close>

section \<open>Specifications and dependencies\<close>

record deploy_spec =
  ds_id :: string
  ds_alias :: string
  ds_artifact :: string
  ds_revision :: string
  ds_port :: int
  ds_max_model_len :: int
  ds_api_key :: string
  ds_cache_dir :: string
  ds_quantization :: string
  ds_min_driver :: int
  ds_min_compute :: int
  ds_min_vram :: int
  ds_min_disk :: int

record deploy_deps =
  dd_probes :: probes
  dd_hub :: hfclient
  dd_http :: service
  dd_vllm_cmd :: "deploy_spec \<Rightarrow> string \<times> string list"
  dd_base_url :: "int \<Rightarrow> string"
  dd_health_timeout :: duration
  dd_ready_timeout :: duration
  dd_poll :: duration
  dd_grace :: duration

text \<open>
  What the operating system answers beside the state of the world: the binaries on the path and the free
  ports at each call, the answers of the launch, and the random bytes of the command.
\<close>

record host =
  h_lookpath :: "nat \<Rightarrow> string \<Rightarrow> string result"
  h_free :: "nat \<Rightarrow> int \<Rightarrow> bool"
  h_launch :: launch
  h_id_bytes :: "8 word list"
  h_key_bytes :: "8 word list"
  h_api_bytes :: "8 word list"

definition vllmCommand :: "environment \<Rightarrow> deploy_spec \<Rightarrow> string \<times> string list" where
  "vllmCommand env spec =
     (let bin = (if getenv env ''IOLD_VLLM_BIN'' = [] then ''vllm'' else getenv env ''IOLD_VLLM_BIN'');
          args = [''serve'', ds_artifact spec, ''--host'', ''0.0.0.0'', ''--port'', itoa (ds_port spec),
                  ''--served-model-name'', ds_id spec];
          args = (if ds_max_model_len spec > 0 then args @ [''--max-model-len'', itoa (ds_max_model_len spec)] else args);
          args = (if ds_revision spec \<noteq> [] then args @ [''--revision'', ds_revision spec] else args);
          args = (if ds_cache_dir spec \<noteq> [] then args @ [''--download-dir'', ds_cache_dir spec] else args)
      in (bin, args))"

definition minute :: duration where
  "minute = 60 * 10 ^ 9"

definition defaultDeployDeps :: "environment \<Rightarrow> probes \<Rightarrow> service \<Rightarrow> service \<Rightarrow> deploy_deps" where
  "defaultDeployDeps env probes hub_service runtime_service =
     \<lparr>dd_probes = probes, dd_hub = NewClient hub_service (getenv env ''HF_TOKEN''), dd_http = runtime_service,
      dd_vllm_cmd = vllmCommand env, dd_base_url = (\<lambda>port. ''http://127.0.0.1:'' @ itoa port),
      dd_health_timeout = 45 * minute, dd_ready_timeout = 5 * minute, dd_poll = 2 * 10 ^ 9, dd_grace = 10 * 10 ^ 9\<rparr>"

definition runtimeCommandString :: "string \<Rightarrow> string list \<Rightarrow> string" where
  "runtimeCommandString command args = join_with '' '' (command # args)"

section \<open>Resolving a reference\<close>

definition primaryVRAMMiB :: "probes \<Rightarrow> os \<Rightarrow> int result \<times> os" where
  "primaryVRAMMiB p o1 =
     (case GPUs p (tick o1) of
        Inl e \<Rightarrow> (Inl (Errorf ''%w: no NVIDIA GPU detected (%v)'' [ArgW (Sentinel ErrChecksFailed), ArgV e]), step_os o1)
      | Inr [] \<Rightarrow> (Inl (Errorf ''%w: no NVIDIA GPU detected (%v)'' [ArgW (Sentinel ErrChecksFailed), ArgS ''<nil>'']), step_os o1)
      | Inr (g # gs) \<Rightarrow> (Inr (g_vram g), step_os o1))"

text \<open>The regular expression \<open>^[a-fA-F0-9]{40,64}$\<close>.\<close>

definition hex_char :: "char \<Rightarrow> bool" where
  "hex_char c = (is_digit c \<or> c \<in> set ''abcdefABCDEF'')"

definition revisionPattern :: "string \<Rightarrow> bool" where
  "revisionPattern s = (40 \<le> length s \<and> length s \<le> 64 \<and> list_all hex_char s)"

definition validateRevision :: "string \<Rightarrow> unit result" where
  "validateRevision revision =
     (if \<not> revisionPattern revision
      then Inl (Errorf ''%w: got %q'' [ArgW (Sentinel ErrNoRevision), ArgS revision]) else Inr ())"

definition minComputeForQuantization :: "string \<Rightarrow> int" where
  "minComputeForQuantization q = (if to_lower q \<in> set [''nvfp4'', ''mxfp4'', ''fp4''] then 10 else 0)"

definition requiredVRAMMiB :: "int \<Rightarrow> int" where
  "requiredVRAMMiB totalBytes =
     go_quot (wrap64 (wrap64 (go_quot (wrap64 (totalBytes * 10)) 9 + 2 ^ 20) - 1)) (2 ^ 20)"

definition requiredDiskGiB :: "int \<Rightarrow> int" where
  "requiredDiskGiB weightBytes =
     (let v = go_quot (wrap64 (wrap64 (go_quot (wrap64 (weightBytes * 6)) 5 + 2 ^ 30) - 1)) (2 ^ 30) + 5
      in if v < 10 then 10 else v)"

text \<open>The verb \<open>%.1f\<close>: the exact value rounded to one digit, half to even.\<close>

definition fixed1 :: "rat \<Rightarrow> string" where
  "fixed1 q = (let n = round_even (\<bar>q\<bar> * 10)
     in (if q < 0 then ''-'' else []) @ itoa (n div 10) @ ''.'' @ itoa (n mod 10))"

definition unknown_reference :: "string \<Rightarrow> goerr" where
  "unknown_reference ref = Errorf ''%w: %s (not a catalog alias; Hugging Face IDs look like org/model)''
     [ArgW (Sentinel ErrUnknownModel), ArgS ref]"

definition catalog_revision :: "deploy_deps \<Rightarrow> catmodel \<Rightarrow> os \<Rightarrow> string result \<times> os" where
  "catalog_revision deps entry o1 =
     (if k_revision entry = [] \<or> has_prefix (k_revision entry) ''MOCK_''
      then (case GetModel (dd_hub deps) (k_artifact entry) o1 of
              (Inl e, o2) \<Rightarrow> (Inl e, o2)
            | (Inr model, o2) \<Rightarrow>
              (case validateRevision (m_sha model) of
                 Inl e \<Rightarrow> (Inl (Errorf ''catalog revision for %s: %w'' [ArgS (k_artifact entry), ArgW e]), o2)
               | Inr u \<Rightarrow> (Inr (m_sha model), o2)))
      else (case validateRevision (k_revision entry) of
              Inl e \<Rightarrow> (Inl (Errorf ''catalog revision for %s: %w'' [ArgS (k_artifact entry), ArgW e]), o1)
            | Inr u \<Rightarrow> (Inr (k_revision entry), o1)))"

definition resolve_catalog :: "environment \<Rightarrow> deploy_deps \<Rightarrow> catmodel \<Rightarrow> os \<Rightarrow> deploy_spec result \<times> os" where
  "resolve_catalog env deps entry o1 =
     (case catalog_revision deps entry o1 of
        (Inl e, o2) \<Rightarrow> (Inl e, o2)
      | (Inr revision, o2) \<Rightarrow>
        (case deploymentModelCacheDir env (k_alias entry) of
           Inl e \<Rightarrow> (Inl e, o2)
         | Inr cacheDir \<Rightarrow>
           (Inr \<lparr>ds_id = k_alias entry, ds_alias = k_alias entry, ds_artifact = k_artifact entry, ds_revision = revision,
                 ds_port = k_default_port entry, ds_max_model_len = k_max_model_len entry, ds_api_key = [],
                 ds_cache_dir = cacheDir, ds_quantization = k_quantization entry, ds_min_driver = 570,
                 ds_min_compute = minComputeForQuantization (k_quantization entry),
                 ds_min_vram = wrap64 (k_min_vram_gib entry * 1024), ds_min_disk = 100\<rparr>, o2)))"

text \<open>The estimate of a hub model, if it passes the planner gate, with the configuration used.\<close>

definition gate_estimate :: "string \<Rightarrow> int \<Rightarrow> hfmodel \<Rightarrow> config \<Rightarrow> (hfmodel \<times> config \<times> estimate) result" where
  "gate_estimate ref vramMiB model cfg =
     (case EstimateModel model cfg DefaultContextTokens of
        Inl e \<Rightarrow> Inl e
      | Inr est \<Rightarrow>
        (if Assess est vramMiB = VerdictTooBig
         then Inl (Errorf ''%w: %s needs ~%s GiB but this GPU has %d MiB; run `iold plan %s` for fitting variants''
                [ArgW (Sentinel ErrChecksFailed), ArgS ref, ArgS (fixed1 (GiB (e_total est))), ArgD vramMiB, ArgS ref])
         else Inr (model, cfg, est)))"

definition gate_model :: "deploy_deps \<Rightarrow> string \<Rightarrow> os \<Rightarrow> (hfmodel \<times> config \<times> estimate) result \<times> os" where
  "gate_model deps ref o1 =
     (case primaryVRAMMiB (dd_probes deps) o1 of
        (Inl e, o2) \<Rightarrow> (Inl e, o2)
      | (Inr vramMiB, o2) \<Rightarrow>
        (case GetModel (dd_hub deps) ref o2 of
           (Inl e, o3) \<Rightarrow> (Inl e, o3)
         | (Inr model, o3) \<Rightarrow>
           (if IsGated (m_gated model) \<and> c_token (dd_hub deps) = []
            then (Inl (Errorf ''%w: %s'' [ArgW (Sentinel ErrAuthRequired), ArgS ref]), o3)
            else case validateRevision (m_sha model) of
              Inl e \<Rightarrow> (Inl (Errorf ''resolve immutable revision for %s: %w'' [ArgS ref, ArgW e]), o3)
            | Inr u \<Rightarrow>
              (case GetConfigAtRevision (dd_hub deps) ref (m_sha model) o3 of
                 (Inl e, o4) \<Rightarrow>
                   (if \<not> errors_is ErrModelNotFound e then (Inl e, o4)
                    else (gate_estimate ref vramMiB model zero_config, o4))
               | (Inr cfg, o4) \<Rightarrow> (gate_estimate ref vramMiB model cfg, o4)))))"

definition resolveSpec :: "environment \<Rightarrow> host \<Rightarrow> deploy_deps \<Rightarrow> string \<Rightarrow> os \<Rightarrow> deploy_spec result \<times> os" where
  "resolveSpec env h deps ref o1 =
     (case catalog_Get ref of
        Inr entry \<Rightarrow> resolve_catalog env deps entry o1
      | Inl e0 \<Rightarrow>
        (if sep \<notin> set ref then (Inl (unknown_reference ref), o1)
         else case gate_model deps ref o1 of
           (Inl e, o2) \<Rightarrow> (Inl e, o2)
         | (Inr (model, cfg, est), o2) \<Rightarrow>
           (let maxLen = (if max_position_embeddings cfg > 0 \<and> max_position_embeddings cfg < DefaultContextTokens
                          then max_position_embeddings cfg else DefaultContextTokens);
                i = deploymentID (h_id_bytes h) ref
            in case deploymentModelCacheDir env i of
                 Inl e \<Rightarrow> (Inl e, o2)
               | Inr cacheDir \<Rightarrow>
                 (let quantization = DetectQuantization model cfg in
                  (Inr \<lparr>ds_id = i, ds_alias = ref, ds_artifact = ref, ds_revision = m_sha model, ds_port = 8000,
                        ds_max_model_len = maxLen, ds_api_key = [], ds_cache_dir = cacheDir, ds_quantization = quantization,
                        ds_min_driver = 570, ds_min_compute = minComputeForQuantization quantization,
                        ds_min_vram = requiredVRAMMiB (e_total est), ds_min_disk = requiredDiskGiB (e_weight est)\<rparr>, o2)))))"

section \<open>Health and readiness\<close>

text \<open>\<open>Duration.String\<close>: hours, minutes and seconds, smaller units below a second.\<close>

definition trim_zeros :: "string \<Rightarrow> string" where
  "trim_zeros s = rev (dropWhile (\<lambda>c. c = CHR ''0'') (rev s))"

definition fraction :: "nat \<Rightarrow> nat \<Rightarrow> string" where
  "fraction digits v =
     (let d = trim_zeros (drop 1 (show_nat (10 ^ digits + v mod 10 ^ digits)))
      in if d = [] then [] else CHR ''.'' # d)"

definition duration_text :: "duration \<Rightarrow> string" where
  "duration_text d =
     (let u = nat \<bar>d\<bar>; sign = (if d < 0 then ''-'' else []); secs = u div 10 ^ 9;
          s = show_nat (secs mod 60) @ fraction 9 u @ ''s''; mins = secs div 60
      in if u = 0 then ''0s''
         else if u < 10 ^ 3 then sign @ show_nat u @ ''ns''
         else if u < 10 ^ 6 then sign @ show_nat (u div 10 ^ 3) @ fraction 3 u @ [CHR 0xC2, CHR 0xB5, CHR ''s'']
         else if u < 10 ^ 9 then sign @ show_nat (u div 10 ^ 6) @ fraction 6 u @ ''ms''
         else if mins = 0 then sign @ s
         else if mins < 60 then sign @ show_nat mins @ ''m'' @ s
         else sign @ show_nat (mins div 60) @ ''h'' @ show_nat (mins mod 60) @ ''m'' @ s)"

definition health_ok :: "response result \<Rightarrow> bool" where
  "health_ok r = (case r of Inl e \<Rightarrow> False | Inr resp \<Rightarrow> s_status resp = 200)"

partial_function (option) health_loop :: "deploy_deps \<Rightarrow> string \<Rightarrow> process \<Rightarrow> gotime \<Rightarrow> os \<Rightarrow> (unit result \<times> os) option" where
  "health_loop deps base p deadline o1 =
     (case Reconcile p o1 of (st, o2) \<Rightarrow>
        if st \<noteq> StatusRunning then Some (Inl (Opaque ''runtime process exited during startup''), o2)
        else case http_do (dd_http deps) (get_request (base @ ''/health'') []) o2 of (resp, o3) \<Rightarrow>
          if health_ok resp then Some (Inr (), o3)
          else if clock o3 > deadline
          then Some (Inl (Errorf ''runtime did not become healthy within %s'' [ArgS (duration_text (dd_health_timeout deps))]), o3)
          else health_loop deps base p deadline (sleep (max 0 (dd_poll deps)) o3))"

declare health_loop.simps [code]

definition waitHealthy :: "deploy_deps \<Rightarrow> string \<Rightarrow> process \<Rightarrow> os \<Rightarrow> (unit result \<times> os) option" where
  "waitHealthy deps base p o1 = health_loop deps base p (clock o1 + dd_health_timeout deps) o1"

definition authedGet :: "service \<Rightarrow> string \<Rightarrow> string \<Rightarrow> os \<Rightarrow> json result result \<times> os" where
  "authedGet srv url apiKey o1 =
     (case http_do srv \<lparr>q_method = ''GET'', q_url = url, q_authorization = ''Bearer '' @ apiKey, q_type = [], q_content = []\<rparr> o1 of
        (Inl e, o2) \<Rightarrow> (Inl e, o2)
      | (Inr resp, o2) \<Rightarrow>
        (if s_status resp \<noteq> 200 then (Inl (Errorf ''status %d'' [ArgD (s_status resp)]), o2)
         else (s_body resp, o2)))"

text \<open>The anonymous structs of the two answers: the ids under data, the contents under choices.\<close>

definition dec_ids :: "json \<Rightarrow> string list result" where
  "dec_ids j = dec_struct [''data'']
     (\<lambda>k v cur. if k = ''data''
        then dec_list (\<lambda>m. dec_struct [''id''] (\<lambda>k v x. if k = ''id'' then dec_string v x else Inr x) m []) v
        else Inr cur) j []"

definition dec_message :: "json \<Rightarrow> string \<Rightarrow> string result" where
  "dec_message j cur = dec_struct [''content''] (\<lambda>k v x. if k = ''content'' then dec_string v x else Inr x) j cur"

definition dec_choices :: "json \<Rightarrow> string list result" where
  "dec_choices j = dec_struct [''choices'']
     (\<lambda>k v cur. if k = ''choices''
        then dec_list (\<lambda>m. dec_struct [''message''] (\<lambda>k v x. if k = ''message'' then dec_message v x else Inr x) m []) v
        else Inr cur) j []"

text \<open>\<open>json.Marshal\<close> of an ASCII string, and of the request: the keys of a map are sorted.\<close>

definition json_char :: "char \<Rightarrow> string" where
  "json_char c =
     (if c = CHR 0x22 \<or> c = CHR 0x5C then [CHR 0x5C, c]
      else if c = CHR 0x08 then [CHR 0x5C, CHR ''b''] else if c = CHR 0x0C then [CHR 0x5C, CHR ''f'']
      else if c = CHR 0x0A then [CHR 0x5C, CHR ''n''] else if c = CHR 0x0D then [CHR 0x5C, CHR ''r'']
      else if c = CHR 0x09 then [CHR 0x5C, CHR ''t'']
      else if of_char c < (32 :: nat) \<or> c = CHR ''<'' \<or> c = CHR ''>'' \<or> c = CHR ''&''
        then [CHR 0x5C] @ ''u00'' @ [hex_digit (of_char c div 16), hex_digit (of_char c mod 16)]
      else [c])"

definition json_string :: "string \<Rightarrow> string" where
  "json_string s = [CHR 0x22] @ concat (map json_char s) @ [CHR 0x22]"

definition json_object :: "(string \<times> string) list \<Rightarrow> string" where
  "json_object kvs = ''{'' @ join_with '','' (map (\<lambda>(k, v). json_string k @ '':'' @ v) kvs) @ ''}''"

definition inference_body :: "string \<Rightarrow> string" where
  "inference_body i = json_object
     [(''max_tokens'', ''8''),
      (''messages'', ''['' @ json_object [(''content'', json_string ''Reply with one word.''), (''role'', json_string ''user'')] @ '']''),
      (''model'', json_string i), (''temperature'', ''0'')]"

definition inference_request :: "string \<Rightarrow> deploy_spec \<Rightarrow> request" where
  "inference_request base spec = \<lparr>q_method = ''POST'', q_url = base @ ''/v1/chat/completions'',
     q_authorization = ''Bearer '' @ ds_api_key spec, q_type = ''application/json'', q_content = inference_body (ds_id spec)\<rparr>"

definition inference_check :: "response result \<Rightarrow> unit result" where
  "inference_check r =
     (case r of
        Inl e \<Rightarrow> Inl (wrapf ''inference check: %w'' e)
      | Inr resp \<Rightarrow>
        (case s_body resp of
           Inl e \<Rightarrow> Inl e
         | Inr payload \<Rightarrow>
           (if s_status resp \<noteq> 200 then Inl (Errorf ''inference check: status %d'' [ArgD (s_status resp)])
            else case payload of
              Inl e \<Rightarrow> Inl (wrapf ''parse inference response: %w'' e)
            | Inr j \<Rightarrow>
              (case dec_choices j of
                 Inl e \<Rightarrow> Inl (wrapf ''parse inference response: %w'' e)
               | Inr [] \<Rightarrow> Inl (Opaque ''inference check returned no content'')
               | Inr (c # cs) \<Rightarrow> (if c = [] then Inl (Opaque ''inference check returned no content'') else Inr ())))))"

definition readinessProbe :: "deploy_deps \<Rightarrow> string \<Rightarrow> deploy_spec \<Rightarrow> os \<Rightarrow> unit result \<times> os" where
  "readinessProbe deps base spec o1 =
     (case authedGet (dd_http deps) (base @ ''/v1/models'') (ds_api_key spec) o1 of
        (Inl e, o2) \<Rightarrow> (Inl (wrapf ''list models: %w'' e), o2)
      | (Inr models, o2) \<Rightarrow>
        (case (case models of Inl e \<Rightarrow> Inl e | Inr j \<Rightarrow> dec_ids j) of
           Inl e \<Rightarrow> (Inl (wrapf ''parse model list: %w'' e), o2)
         | Inr ids \<Rightarrow>
           (if ds_id spec \<notin> set ids
            then (Inl (Errorf ''served model %q missing from /v1/models'' [ArgS (ds_id spec)]), o2)
            else case http_do (dd_http deps) (inference_request base spec) o2 of (r, o3) \<Rightarrow> (inference_check r, o3))))"

partial_function (option) ready_loop :: "deploy_deps \<Rightarrow> string \<Rightarrow> deploy_spec \<Rightarrow> gotime \<Rightarrow> os \<Rightarrow> (unit result \<times> os) option" where
  "ready_loop deps base spec deadline o1 =
     (case readinessProbe deps base spec o1 of (r, o2) \<Rightarrow>
        case r of
          Inr u \<Rightarrow> Some (Inr (), o2)
        | Inl e \<Rightarrow>
          if clock o2 > deadline then Some (Inl (wrapf ''readiness checks failed: %w'' e), o2)
          else ready_loop deps base spec deadline (sleep (max 0 (dd_poll deps)) o2))"

declare ready_loop.simps [code]

definition checkReadiness :: "deploy_deps \<Rightarrow> string \<Rightarrow> deploy_spec \<Rightarrow> os \<Rightarrow> (unit result \<times> os) option" where
  "checkReadiness deps base spec o1 = ready_loop deps base spec (clock o1 + dd_ready_timeout deps) o1"

section \<open>Executing a deployment\<close>

text \<open>The closure \<open>fail\<close>: stop what this run started, record the failure, report it.\<close>

definition fail_deploy :: "deploy_deps \<Rightarrow> process option \<Rightarrow> string \<Rightarrow> phase \<Rightarrow> goerr \<Rightarrow> world \<Rightarrow> 'a result \<times> world" where
  "fail_deploy deps proc i from cause w =
     (let w1 = (case proc of
            None \<Rightarrow> w
          | Some p \<Rightarrow> (case on_os (Stop p (dd_grace deps)) w of
              (Inl e, wa) \<Rightarrow> say (''warning: could not stop runtime pid '' @ itoa (pr_pid p) @ '': '' @ error_text e) wa
            | (Inr u, wa) \<Rightarrow> wa));
          w2 = (case transition i from PhaseFailed (error_text cause) w1 of
              (Inl e, wb) \<Rightarrow> say (''warning: could not record failure: '' @ error_text e) wb
            | (Inr u, wb) \<Rightarrow> wb)
      in (Inl (Errorf ''deploy %s: %w (see `iold logs %s`)'' [ArgS i, ArgW cause, ArgS i]), w2))"

text \<open>VALIDATING: the key and the cache; the specification gets its key.\<close>

definition prepare_files :: "host \<Rightarrow> deploy_deps \<Rightarrow> deployment \<Rightarrow> deploy_spec \<Rightarrow> world \<Rightarrow> deploy_spec result \<times> world" where
  "prepare_files h deps d spec0 w =
     (case transition (d_id d) PhaseRequested PhaseValidating [] w of
        (Inl e, w1) \<Rightarrow> (Inl e, w1)
      | (Inr u, w1) \<Rightarrow>
        (let spec = spec0\<lparr>ds_api_key := ''iold-'' @ randomHex (h_api_bytes h)\<rparr> in
         case on_fs (writeAPIKey (envr w1) (d_id d) (ds_api_key spec)) w1 of
           (Inl e, w2) \<Rightarrow> fail_deploy deps None (d_id d) PhaseValidating e w2
         | (Inr u, w2) \<Rightarrow>
           (case on_fs (prepareModelCache (ds_cache_dir spec) (d_id d) (d_idempotency_key d)) w2 of
              (Inl e, w3) \<Rightarrow> fail_deploy deps None (d_id d) PhaseValidating e w3
            | (Inr u, w3) \<Rightarrow> (Inr spec, w3))))"

text \<open>DOWNLOADING, up to the launch: the intent; the log file.\<close>

definition declare_intent :: "deploy_deps \<Rightarrow> deployment \<Rightarrow> deploy_spec \<Rightarrow> world \<Rightarrow> string result \<times> world" where
  "declare_intent deps d spec w =
     (case transition (d_id d) PhaseValidating PhaseDownloading [] w of
        (Inl e, w1) \<Rightarrow> (Inl e, w1)
      | (Inr u, w1) \<Rightarrow>
        (case logPath (envr w1) (d_id d) of
           Inl e \<Rightarrow> fail_deploy deps None (d_id d) PhaseDownloading e w1
         | Inr logFile \<Rightarrow>
           (case dd_vllm_cmd deps spec of (command, args) \<Rightarrow>
              (case on_db (SetRuntimeIntent (clock (osy w1)) (d_id d) (ds_port spec) (runtimeCommandString command args)) w1 of
                 (Inl e, w2) \<Rightarrow> fail_deploy deps None (d_id d) PhaseDownloading e w2
               | (Inr u, w2) \<Rightarrow>
                 (case transition (d_id d) PhaseDownloading PhaseStarting [] w2 of
                    (Inl e, w3) \<Rightarrow> fail_deploy deps None (d_id d) PhaseDownloading e w3
                  | (Inr u, w3) \<Rightarrow> (Inr logFile, w3))))))"

definition launch_runtime :: "host \<Rightarrow> deploy_deps \<Rightarrow> deployment \<Rightarrow> deploy_spec \<Rightarrow> string \<Rightarrow> world \<Rightarrow> process result \<times> world" where
  "launch_runtime h deps d spec logFile w =
     (case dd_vllm_cmd deps spec of (command, args) \<Rightarrow>
        case on_os (Start (h_launch h)
               \<lparr>sp_command = command, sp_args = args,
                sp_env = [''VLLM_API_KEY='' @ ds_api_key spec, ''HF_HOME='' @ ds_cache_dir spec,
                          ''HUGGINGFACE_HUB_CACHE='' @ Join [ds_cache_dir spec, ''hub'']],
                sp_log_path = logFile\<rparr>) w of
          (Inl e, w1) \<Rightarrow> fail_deploy deps None (d_id d) PhaseStarting e w1
        | (Inr p, w1) \<Rightarrow>
          (case on_db (SetRuntime (clock (osy w1)) (d_id d) (pr_pid p) (ds_port spec) (pr_command p)
                         (pr_started_at p) (pr_start_token p)) w1 of
             (Inl e, w2) \<Rightarrow> fail_deploy deps (Some p) (d_id d) PhaseStarting e w2
           | (Inr u, w2) \<Rightarrow>
             (Inr p, say (d_id d @ '': runtime started (pid '' @ itoa (pr_pid p) @ '', port '' @ itoa (ds_port spec) @
                          ''); waiting for health...'') w2)))"

text \<open>The phases after the launch, once the answers of health and readiness are known.\<close>

definition record_healthy :: "deploy_deps \<Rightarrow> process \<Rightarrow> string \<Rightarrow> unit result \<Rightarrow> world \<Rightarrow> unit result \<times> world" where
  "record_healthy deps p i answer w =
     (case answer of
        Inl e \<Rightarrow> fail_deploy deps (Some p) i PhaseStarting e w
      | Inr u \<Rightarrow>
        (case transition i PhaseStarting PhaseHealthy [] w of
           (Inl e, w1) \<Rightarrow> fail_deploy deps (Some p) i PhaseStarting e w1
         | (Inr u, w1) \<Rightarrow> (Inr (), w1)))"

definition record_ready :: "deploy_deps \<Rightarrow> process \<Rightarrow> string \<Rightarrow> unit result \<Rightarrow> world \<Rightarrow> unit result \<times> world" where
  "record_ready deps p i answer w =
     (case answer of
        Inl e \<Rightarrow> fail_deploy deps (Some p) i PhaseHealthy e w
      | Inr u \<Rightarrow>
        (case transition i PhaseHealthy PhaseRegistering [] w of
           (Inl e, w1) \<Rightarrow> fail_deploy deps (Some p) i PhaseHealthy e w1
         | (Inr u, w1) \<Rightarrow>
           (case transition i PhaseRegistering PhaseUnregisteredHealthy ''gateway registration not implemented yet (M4)'' w1 of
              (Inl e, w2) \<Rightarrow> fail_deploy deps (Some p) i PhaseRegistering e w2
            | (Inr u, w2) \<Rightarrow> (Inr (), w2))))"

definition printDeploySummary :: "string \<Rightarrow> deploy_spec \<Rightarrow> world \<Rightarrow> world" where
  "printDeploySummary i spec w =
     (let endpoint = endpointURL (envr w) (ds_port spec); q = [CHR 0x22]; cont = '' '' @ [CHR 0x5C] in
      say (join_with [CHR 0x0A]
        [i @ '': READY to serve (registration pending, see status)'', [],
         ''  Endpoint:   '' @ endpoint @ ''/v1'',
         ''  Model name: '' @ i,
         ''  API key:    '' @ ds_api_key spec,
         ''  Key file:   '' @ Join [stateDir (envr w), ''deployments'', i, ''api-key''], [],
         ''Test it:'',
         ''  curl '' @ endpoint @ ''/v1/chat/completions'' @ cont,
         ''    -H '' @ q @ ''Authorization: Bearer '' @ ds_api_key spec @ q @ cont,
         ''    -H '' @ q @ ''Content-Type: application/json'' @ q @ cont,
         ''    -d '' @ [CHR 0x27] @ ''{'' @ q @ ''model'' @ q @ '': '' @ q @ i @ q @ '', '' @ q @ ''messages'' @ q @ '': [{'' @
           q @ ''role'' @ q @ '': '' @ q @ ''user'' @ q @ '', '' @ q @ ''content'' @ q @ '': '' @ q @ ''Merhaba'' @ q @ ''}]}'' @ [CHR 0x27], [],
         ''Notes:'',
         ''  - Requests without the API key are rejected by vLLM.'',
         ''  - Gateway registration (Open WebUI/kagent) is not automated yet; add'',
         ''    the endpoint above as an OpenAI-compatible connection manually.'',
         ''  - The RunPod proxy closes connections after ~100 seconds; long'',
         ''    streaming responses may be cut (measurement pending).'']) w)"

definition finish_deploy :: "deploy_deps \<Rightarrow> deployment \<Rightarrow> deploy_spec \<Rightarrow> process \<Rightarrow> world \<Rightarrow> (unit result \<times> world) option" where
  "finish_deploy deps d spec p w =
     (let base = dd_base_url deps (ds_port spec) in
      case waitHealthy deps base p (osy w) of
        None \<Rightarrow> None
      | Some (healthy, oa) \<Rightarrow>
        (case record_healthy deps p (d_id d) healthy (w\<lparr>osy := oa\<rparr>) of
           (Inl e, w1) \<Rightarrow> Some (Inl e, w1)
         | (Inr u, w1) \<Rightarrow>
           (case checkReadiness deps base spec (osy w1) of
              None \<Rightarrow> None
            | Some (ready, ob) \<Rightarrow>
              (case record_ready deps p (d_id d) ready (w1\<lparr>osy := ob\<rparr>) of
                 (Inl e, w2) \<Rightarrow> Some (Inl e, w2)
               | (Inr u, w2) \<Rightarrow> Some (Inr (), printDeploySummary (d_id d) spec w2)))))"

definition executeDeploy :: "host \<Rightarrow> deploy_deps \<Rightarrow> deployment \<Rightarrow> deploy_spec \<Rightarrow> world \<Rightarrow> (unit result \<times> world) option" where
  "executeDeploy h deps d spec0 w =
     (case prepare_files h deps d spec0 w of
        (Inl e, w1) \<Rightarrow> Some (Inl e, w1)
      | (Inr spec, w1) \<Rightarrow>
        (case declare_intent deps d spec w1 of
           (Inl e, w2) \<Rightarrow> Some (Inl e, w2)
         | (Inr logFile, w2) \<Rightarrow>
           (case launch_runtime h deps d spec logFile w2 of
              (Inl e, w3) \<Rightarrow> Some (Inl e, w3)
            | (Inr p, w3) \<Rightarrow> finish_deploy deps d spec p w3)))"

section \<open>The deploy command\<close>

definition deploy_usage :: goerr where
  "deploy_usage = Errorf ''%w: iold deploy <catalog-alias|hf-model> [--replace]'' [ArgW (Sentinel ErrUsage)]"

fun deploy_args :: "bool \<Rightarrow> string \<Rightarrow> string list \<Rightarrow> (bool \<times> string) result" where
  "deploy_args rep ref [] =
     (if ref = [] then Inl deploy_usage
      else case catalog_Get ref of
             Inl e \<Rightarrow> (if sep \<notin> set ref then Inl (unknown_reference ref) else Inr (rep, ref))
           | Inr m \<Rightarrow> Inr (rep, ref))"
| "deploy_args rep ref (a # as) =
     (if a = ''--replace'' then deploy_args True ref as
      else if ref = [] \<and> \<not> has_prefix a ''-'' then deploy_args rep a as
      else Inl deploy_usage)"

text \<open>The deployments the command would replace, or the conflict.\<close>

fun to_replace :: "bool \<Rightarrow> deployment list \<Rightarrow> deployment list result" where
  "to_replace rep [] = Inr []"
| "to_replace rep (old # ds) =
     (if d_phase old = PhaseDestroyed then to_replace rep ds
      else if \<not> rep
      then Inl (Errorf ''%w (existing: %s in phase %s): %w''
             [ArgW (Sentinel ErrWouldReplace), ArgS (d_id old), ArgS (phase_text (d_phase old)), ArgW (Sentinel ErrConflict)])
      else case to_replace rep ds of Inl e \<Rightarrow> Inl e | Inr olds \<Rightarrow> Inr (old # olds))"

fun replace_loop :: "deployment list \<Rightarrow> world \<Rightarrow> unit result \<times> world" where
  "replace_loop [] w = (Inr (), w)"
| "replace_loop (old # olds) w =
     (case destroyOne old True
             (say (''Replacing deployment '' @ d_id old @ '' (downtime until the new model is ready).'') w) of
        (Inl e, w1) \<Rightarrow> (Inl (Errorf ''replace: destroy %s: %w'' [ArgS (d_id old), ArgW e]), w1)
      | (Inr u, w1) \<Rightarrow> replace_loop olds w1)"

definition clear_tombstone :: "string \<Rightarrow> world \<Rightarrow> unit result \<times> world" where
  "clear_tombstone i w =
     (case on_db (Get i) w of
        (Inl e, w1) \<Rightarrow> (Inr (), w1)
      | (Inr old, w1) \<Rightarrow> (if d_phase old = PhaseDestroyed then on_db (Delete i) w1 else (Inr (), w1)))"

definition new_record :: "host \<Rightarrow> deploy_spec \<Rightarrow> deployment" where
  "new_record h spec = \<lparr>d_id = ds_id spec, d_alias = ds_alias spec, d_artifact = ds_artifact spec,
     d_artifact_revision = ds_revision spec, d_model_cache_dir = ds_cache_dir spec, d_port = ds_port spec, d_pid = 0,
     d_command = [], d_started_at = zero_time, d_start_token = [], d_phase = PhaseOther [], d_failure_reason = [],
     d_idempotency_key = randomHex (h_key_bytes h), d_created_at = zero_time, d_updated_at = zero_time\<rparr>"

definition deploy_preflight :: "deploy_deps \<Rightarrow> deploy_spec \<Rightarrow> deployment list \<Rightarrow> preflight_spec" where
  "deploy_preflight deps spec olds = \<lparr>pf_probes = Some (dd_probes deps), pf_binary = fst (dd_vllm_cmd deps spec),
     pf_cache = ds_cache_dir spec, pf_endpoint = c_base (dd_hub deps), pf_min_driver = ds_min_driver spec,
     pf_min_compute = ds_min_compute spec, pf_min_vram = ds_min_vram spec, pf_min_disk = ds_min_disk spec,
     pf_port = ds_port spec, pf_reserved = [], pf_releasable = map d_port olds\<rparr>"

text \<open>Resolution and preflight: the specification to deploy, with the port that was chosen.\<close>

definition validate_deploy :: "host \<Rightarrow> deploy_deps \<Rightarrow> string \<Rightarrow> deployment list \<Rightarrow> world \<Rightarrow> deploy_spec result \<times> world" where
  "validate_deploy h deps ref olds w =
     (case on_os (resolveSpec (envr w) h deps ref) w of
        (Inl e, w1) \<Rightarrow> (Inl e, w1)
      | (Inr spec, w1) \<Rightarrow>
        (case on_os (preflight_Run (h_lookpath h) (h_free h) (deploy_preflight deps spec olds)) w1 of
           (Inl e, w2) \<Rightarrow> (Inl e, w2)
         | (Inr port, w2) \<Rightarrow> (Inr (spec\<lparr>ds_port := port\<rparr>), w2)))"

definition create_and_execute :: "host \<Rightarrow> deploy_deps \<Rightarrow> deploy_spec \<Rightarrow> world \<Rightarrow> (unit result \<times> world) option" where
  "create_and_execute h deps spec w =
     (case clear_tombstone (ds_id spec) w of
        (Inl e, w1) \<Rightarrow> Some (Inl e, w1)
      | (Inr u, w1) \<Rightarrow>
        (case on_db (Create (clock (osy w1)) (new_record h spec)) w1 of
           (Inl e, w2) \<Rightarrow> Some (Inl e, w2)
         | (Inr d, w2) \<Rightarrow> executeDeploy h deps d spec w2))"

definition runDeploy :: "host \<Rightarrow> deploy_deps \<Rightarrow> string list \<Rightarrow> world \<Rightarrow> (unit result \<times> world) option" where
  "runDeploy h deps args w =
     (case deploy_args False [] args of
        Inl e \<Rightarrow> Some (Inl e, w)
      | Inr (rep, ref) \<Rightarrow>
        (case lock_err w of Some e \<Rightarrow> Some (Inl e, w)
         | None \<Rightarrow>
           (case open_state w of
              (Inl e, w1) \<Rightarrow> Some (Inl e, w1)
            | (Inr u, w1) \<Rightarrow>
              (case recoverInterruptedDeployments w1 of
                 (Inl e, w2) \<Rightarrow> Some (Inl e, w2)
               | (Inr u, w2) \<Rightarrow>
                 (case on_db ListAll w2 of
                    (Inl e, w3) \<Rightarrow> Some (Inl e, w3)
                  | (Inr existing, w3) \<Rightarrow>
                    (case to_replace rep existing of
                       Inl e \<Rightarrow> Some (Inl e, w3)
                     | Inr olds \<Rightarrow>
                       (case validate_deploy h deps ref olds w3 of
                          (Inl e, w4) \<Rightarrow> Some (Inl e, w4)
                        | (Inr spec, w4) \<Rightarrow>
                          (case replace_loop olds w4 of
                             (Inl e, w5) \<Rightarrow> Some (Inl e, w5)
                           | (Inr u, w5) \<Rightarrow> create_and_execute h deps spec w5))))))))"

end
