(* ===== verification/DeploySpec.thy ===== *)
theory DeploySpec imports Deploy begin

text \<open>
  What the deploy command promises: a deployment it reports as served was launched, identified, healthy
  and ready; a failure is recorded and only the process of this run is signalled; it returns; and nothing
  is replaced before the new deployment has passed every check.
\<close>

section \<open>Guarded updates as deployments\<close>

lemma guarded_deployments:
  assumes inv: "store_inv s" and g: "guarded P (update_where P f) (res, s') s"
    and Pid: "\<And>r. P r \<Longrightarrow> r_id r = i" and fid: "\<And>r. r_id (f r) = r_id r"
    and scan: "\<And>r d. scanDeployment r = Inr d \<Longrightarrow> P r \<Longrightarrow> scanDeployment (f r) = Inr (change d)"
  shows "(\<forall>j. j \<noteq> i \<longrightarrow> deployments s' j = deployments s j) \<and>
    (res = Inr u \<longrightarrow> (\<exists>r d. P r \<and> scanDeployment r = Inr d \<and> deployments s i = Some d \<and> deployments s' i = Some (change d)))"
  using g
proof (cases rule: guarded_cases)
  case (refused e)
  from same_data_rows(1) [OF refused(2)] have "deployments s' = deployments s" by (simp add: deployments_def fun_eq_iff)
  with refused(1) show ?thesis by simp
next
  case (written r)
  have rows': "rows s' = update_where P f (rows s)" using same_data_rows(1) [OF written(3)] by simp
  have at: "row_at (rows s') j = map_option (\<lambda>r. if P r then f r else r) (row_at (rows s) j)" for j
    unfolding rows' by (rule row_at_update [OF fid])
  have other: "deployments s' j = deployments s j" if "j \<noteq> i" for j
  proof (cases "row_at (rows s) j")
    case None
    with at show ?thesis by (simp add: deployments_def)
  next
    case (Some x)
    from row_at_Some [OF Some] that Pid have "\<not> P x" by blast
    with at [of j] Some show ?thesis by (simp add: deployments_def)
  qed
  have "distinct (map r_id (rows s))" using inv by (simp add: store_inv_def)
  from row_at_unique [OF this written(1)] Pid [OF written(2)] have r: "row_at (rows s) i = Some r" by simp
  with store_inv_row [OF inv] obtain d where d: "scanDeployment r = Inr d" by (blast elim: scan_ok)
  have "deployments s i = Some d" using r d by (simp add: deployments_def)
  moreover have "deployments s' i = Some (change d)" using at [of i] r written(2) scan [OF d written(2)] by (simp add: deployments_def)
  ultimately show ?thesis using other written(2) d by blast
qed

definition moved :: "gotime \<Rightarrow> phase \<Rightarrow> string \<Rightarrow> deployment \<Rightarrow> deployment" where
  "moved now q why d = d\<lparr>d_phase := q, d_failure_reason := (if q = PhaseFailed \<or> q = PhaseCrashed then why else ''''),
     d_updated_at := trunc_second now\<rparr>"

lemma transition_moves:
  assumes "transition i p q why w = (Inr u, w')" "store_inv (db w)"
  shows "\<exists>d. deployments (db w) i = Some d \<and> d_phase d = p \<and> deployments (db w') i = Some (moved (clock (osy w)) q why d)"
proof -
  obtain s where t: "Transition (clock (osy w)) i p q why (db w) = (Inr u, s)" and w': "w' = w\<lparr>db := s\<rparr>"
    using assms(1) by (auto simp: transition_eq)
  have step: "phase_step p q" using Transition_illegal [of p q "clock (osy w)" i why "db w"] t by auto
  then have k: "known p" "known q" by (auto dest: phase_step_known)
  note g = Transition_guarded [OF step, of i "clock (osy w)" why "db w", unfolded t]
  have scan: "scanDeployment (transition_row (clock (osy w)) q why r) = Inr (moved (clock (osy w)) q why d)"
    if "scanDeployment r = Inr d" for r d
    using scan_transition [OF that k(2)] by (simp add: moved_def)
  have "\<exists>r d. in_phase i p r \<and> scanDeployment r = Inr d \<and> deployments (db w) i = Some d \<and>
      deployments s i = Some (moved (clock (osy w)) q why d)"
    using guarded_deployments [OF assms(2) g in_phase_id _ scan] by simp
  then obtain r d where rd: "in_phase i p r" "scanDeployment r = Inr d" "deployments (db w) i = Some d"
    "deployments s i = Some (moved (clock (osy w)) q why d)" by blast
  have "d_phase d = p" using in_phase_scan [OF rd(2) _ k(1)] rd(1) deployments_phase(2) [OF assms(2) rd(3)] by simp
  with rd w' show ?thesis by auto
qed

lemma transition_clean:
  assumes "transition i p q why w = (r, w')" "store_inv (db w)" "faults (db w) = []"
    and "phase_at (db w) i = Some p" "phase_step p q"
  shows "r = Inr () \<and> faults (db w') = [] \<and> phase_at (db w') i = Some q \<and>
    (\<exists>d. deployments (db w) i = Some d \<and> deployments (db w') i = Some (moved (clock (osy w)) q why d))"
proof -
  obtain s where t: "Transition (clock (osy w)) i p q why (db w) = (r, s)" and w': "w' = w\<lparr>db := s\<rparr>"
    using assms(1) by (auto simp: transition_eq)
  obtain d where d: "deployments (db w) i = Some d" "d_phase d = p"
    using assms(4) phase_deployments [OF assms(2)] by auto
  have "reports (err_of r) None"
    using transition_refines [OF assms(2,3), of "clock (osy w)" i p q why] d assms(5) t by (simp add: spec_update_def)
  then have r: "r = Inr ()" by (cases r) (simp_all add: reports_def)
  from transition_moves [OF assms(1) [unfolded r] assms(2)] d(1)
  have "deployments (db w') i = Some (moved (clock (osy w)) q why d)" by auto
  moreover have "faults (db w') = []" using Transition_faults [OF assms(3), of "clock (osy w)" i p q why] t w' by simp
  moreover have "phase_at (db w') i = Some q" using transition_done [OF assms(1) [unfolded r] assms(2)] by simp
  ultimately show ?thesis using r d(1) by blast
qed

section \<open>Frames\<close>

text \<open>Only the record of this deployment changes, and only the process of this run is signalled.\<close>

definition launch_target :: "host \<Rightarrow> sent_signal \<Rightarrow> bool" where
  "launch_target h s = (\<exists>pid. l_start (h_launch h) = Inr pid \<and> (s_target s = pid \<or> s_target s = - pid))"

definition launch_signals :: "host \<Rightarrow> os \<Rightarrow> os \<Rightarrow> bool" where
  "launch_signals h o1 o2 = (\<exists>new. signals o2 = signals o1 @ new \<and> list_all (launch_target h) new)"

definition deploy_frame :: "host \<Rightarrow> string \<Rightarrow> world \<Rightarrow> world \<Rightarrow> bool" where
  "deploy_frame h i w w' = (later (osy w) (osy w') \<and> envr w' = envr w \<and> store_inv (db w') \<and>
     (\<forall>j. j \<noteq> i \<longrightarrow> deployments (db w') j = deployments (db w) j) \<and> launch_signals h (osy w) (osy w'))"

lemma launch_signals_trans: "launch_signals h o1 o2 \<Longrightarrow> launch_signals h o2 o3 \<Longrightarrow> launch_signals h o1 o3"
proof -
  assume "launch_signals h o1 o2" "launch_signals h o2 o3"
  then obtain n1 n2 where "signals o2 = signals o1 @ n1" "list_all (launch_target h) n1"
    "signals o3 = signals o2 @ n2" "list_all (launch_target h) n2" unfolding launch_signals_def by blast
  then show ?thesis unfolding launch_signals_def by (intro exI [of _ "n1 @ n2"]) simp
qed

lemma launch_signals_same: "signals o2 = signals o1 \<Longrightarrow> launch_signals h o1 o2"
  unfolding launch_signals_def by (intro exI [of _ "[]"]) simp

lemma deploy_frameD:
  assumes "deploy_frame h i w w'"
  shows "later (osy w) (osy w')" "envr w' = envr w" "store_inv (db w')" "j \<noteq> i \<Longrightarrow> deployments (db w') j = deployments (db w) j"
    "launch_signals h (osy w) (osy w')"
  using assms unfolding deploy_frame_def by blast+

lemma deploy_frame_trans:
  assumes "deploy_frame h i w w1" "deploy_frame h i w1 w2"
  shows "deploy_frame h i w w2"
proof -
  note a = deploy_frameD [OF assms(1)] and b = deploy_frameD [OF assms(2)]
  have "later (osy w) (osy w2)" using a(1) b(1) by (rule later_trans)
  moreover have "envr w2 = envr w" using a(2) b(2) by (rule trans [rotated])
  moreover have "deployments (db w2) j = deployments (db w) j" if "j \<noteq> i" for j
    using b(4) [OF that] a(4) [OF that] by (rule trans)
  moreover have "launch_signals h (osy w) (osy w2)" using a(5) b(5) by (rule launch_signals_trans)
  ultimately show ?thesis using b(3) unfolding deploy_frame_def by blast
qed

lemma deploy_frame_quiet:
  assumes "quiet (osy w) (osy w')" "envr w' = envr w" "store_inv (db w')"
    "\<forall>j. j \<noteq> i \<longrightarrow> deployments (db w') j = deployments (db w) j"
  shows "deploy_frame h i w w'"
proof -
  have "launch_signals h (osy w) (osy w')" using assms(1) by (intro launch_signals_same) (simp add: quiet_def)
  with quiet_later [OF assms(1)] assms(2-4) show ?thesis unfolding deploy_frame_def by blast
qed

lemma deploy_frame_say [simp]: "deploy_frame h i w (say m w') = deploy_frame h i w w'" "deploy_frame h i (say m w) w' = deploy_frame h i w w'"
  by (simp_all add: deploy_frame_def)

lemma transition_deploy_frame:
  "transition i p q why w = (r, w') \<Longrightarrow> store_inv (db w) \<Longrightarrow> deploy_frame h i w w' \<and> osy w' = osy w \<and> fsys w' = fsys w"
  using transition_observing [of i p q why w r w'] by (auto simp: observing_def intro: deploy_frame_quiet)

text \<open>The failure the command reports, as the record shows it.\<close>

definition failed_with :: "string \<Rightarrow> goerr \<Rightarrow> world \<Rightarrow> bool" where
  "failed_with i e w = (\<exists>cause d. e = Errorf ''deploy %s: %w (see `iold logs %s`)'' [ArgS i, ArgW cause, ArgS i] \<and>
     deployments (db w) i = Some d \<and> d_phase d = PhaseFailed \<and> d_failure_reason d = error_text cause)"

definition launched :: "host \<Rightarrow> process \<Rightarrow> bool" where
  "launched h p = (l_start (h_launch h) = Inr (pr_pid p) \<and> 0 < pr_pid p)"

lemma stop_launched:
  assumes "on_os (Stop p g) w = (r, w')" "launched h p" "store_inv (db w)"
  shows "deploy_frame h i w w' \<and> db w' = db w"
proof -
  obtain o2 where s: "Stop p g (osy w) = (r, o2)" and w': "w' = w\<lparr>osy := o2\<rparr>" using assms(1) by (auto simp: on_os_eq)
  have pos: "0 < pr_pid p" using assms(2) by (simp add: launched_def)
  from s pos show ?thesis
  proof (cases rule: Stop_effect)
    case kept
    with assms(3) w' show ?thesis by (auto intro: deploy_frame_quiet)
  next
    case (signalled new oa)
    have "list_all (launch_target h) new"
      using signalled(3) assms(2) by (auto simp: orderly_def launched_def launch_target_def list_all_iff)
    with signalled(2) w' have "launch_signals h (osy w) (osy w')" by (auto simp: launch_signals_def)
    with signalled(1) w' assms(3) show ?thesis by (simp add: deploy_frame_def)
  qed
qed

lemma fail_effect:
  assumes "fail_deploy deps proc i from cause w = (r, w')" "store_inv (db w)"
    and "\<forall>p. proc = Some p \<longrightarrow> launched h p"
  shows "deploy_frame h i w w' \<and> (\<exists>e. r = Inl e \<and>
    (faults (db w) = [] \<and> phase_at (db w) i = Some from \<and> phase_step from PhaseFailed \<longrightarrow> failed_with i e w'))"
proof -
  define w1 where "w1 = (case proc of
            None \<Rightarrow> w
          | Some p \<Rightarrow> (case on_os (Stop p (dd_grace deps)) w of
              (Inl e, wa) \<Rightarrow> say (''warning: could not stop runtime pid '' @ itoa (pr_pid p) @ '': '' @ error_text e) wa
            | (Inr u, wa) \<Rightarrow> wa))"
  have f1: "deploy_frame h i w w1 \<and> db w1 = db w"
  proof (cases proc)
    case None
    with assms(2) show ?thesis by (auto simp: w1_def intro: deploy_frame_quiet)
  next
    case (Some p)
    obtain x wa where s: "on_os (Stop p (dd_grace deps)) w = (x, wa)" by fastforce
    from stop_launched [OF s _ assms(2), of h i] assms(3) Some
    have fa: "deploy_frame h i w wa \<and> db wa = db w" by simp
    show ?thesis
    proof (cases x)
      case (Inl e)
      with Some s fa show ?thesis by (simp add: w1_def)
    next
      case (Inr u)
      with Some s fa show ?thesis by (simp add: w1_def)
    qed
  qed
  then have inv1: "store_inv (db w1)" using assms(2) by simp
  obtain y wb where t: "transition i from PhaseFailed (error_text cause) w1 = (y, wb)" by fastforce
  let ?e = "Errorf ''deploy %s: %w (see `iold logs %s`)'' [ArgS i, ArgW cause, ArgS i]"
  have fb: "deploy_frame h i w1 wb" using transition_deploy_frame [OF t inv1] by blast
  have rw: "r = Inl ?e \<and> (w' = wb \<or> (\<exists>m. w' = say m wb))"
    using assms(1) t by (auto simp: fail_deploy_def Let_def w1_def [symmetric] split: sum.splits)
  have frame: "deploy_frame h i w w'" using f1 fb rw deploy_frame_trans by auto
  have "failed_with i ?e w'" if clean: "faults (db w) = []" "phase_at (db w) i = Some from" "phase_step from PhaseFailed"
  proof -
    obtain d where "deployments (db wb) i = Some (moved (clock (osy w1)) PhaseFailed (error_text cause) d)"
      using transition_clean [OF t inv1] f1 clean by auto
    moreover have "db w' = db wb" using rw by auto
    ultimately show ?thesis unfolding failed_with_def by (intro exI [of _ cause]) (simp add: moved_def)
  qed
  with frame rw show ?thesis by blast
qed

section \<open>Up to the launch\<close>

text \<open>The driver answers every call, and the record is in the phase the command expects.\<close>

definition clean :: "string \<Rightarrow> phase \<Rightarrow> world \<Rightarrow> bool" where
  "clean i p w = (faults (db w) = [] \<and> phase_at (db w) i = Some p)"

lemma clean_db: "db w' = db w \<Longrightarrow> clean i p w' = clean i p w"
  by (simp add: clean_def)

lemma transition_keeps_clean:
  assumes "transition i p q why w = (r, w')" "store_inv (db w)" "clean i p w" "phase_step p q"
  shows "r = Inr () \<and> clean i q w'"
  using transition_clean [OF assms(1,2) _ _ assms(4)] assms(3) by (simp add: clean_def)

lemma SetRuntimeIntent_frame:
  assumes "SetRuntimeIntent now i port cmd s = (res, s')" "store_inv s"
  shows "store_inv s' \<and> phase_at s' = phase_at s \<and> (j \<noteq> i \<longrightarrow> deployments s' j = deployments s j)"
proof -
  have inv: "store_inv s'" using intent_step [OF assms] by blast
  note g = SetRuntimeIntent_guarded [of i now port cmd s, unfolded assms(1)]
  have rid: "r_id (intent_row now port cmd x) = r_id x" for x by (simp add: intent_row_def)
  have rph: "r_phase (intent_row now port cmd x) = r_phase x" for x by (simp add: intent_row_def)
  have "phase_at s' = phase_at s"
    using g
  proof (cases rule: guarded_cases)
    case (refused e)
    from same_data_rows(1) [OF refused(2)] show ?thesis by (simp add: phase_at_def fun_eq_iff)
  next
    case (written r)
    show ?thesis by (rule phase_at_update_same [OF written(3) rid rph])
  qed
  moreover have "\<forall>j. j \<noteq> i \<longrightarrow> deployments s' j = deployments s j"
    by (rule guarded_deployments [OF assms(2) g, THEN conjunct1]) (auto simp: rid dest: in_phase_id intro: scan_intent)
  ultimately show ?thesis using inv by blast
qed

lemma runtime_writes_faults:
  "faults s = [] \<Longrightarrow> faults (snd (SetRuntimeIntent now i port cmd s)) = []"
  "faults s = [] \<Longrightarrow> faults (snd (SetRuntime now i pid port cmd st tok s)) = []"
  by (auto simp: SetRuntimeIntent_def SetRuntime_def expectOneRuntimeRow_def sql_update_def rows_affected_def Get_def
      sql_select_def sql_call_no_faults split: sum.split list.split)

lemma intent_world:
  assumes "on_db (SetRuntimeIntent now i port cmd) w = (r, w')" "store_inv (db w)"
  shows "deploy_frame h i w w' \<and> osy w' = osy w \<and> (clean i p w \<longrightarrow> clean i p w') \<and> phase_at (db w') = phase_at (db w)"
proof -
  obtain s where s: "SetRuntimeIntent now i port cmd (db w) = (r, s)" and w': "w' = w\<lparr>db := s\<rparr>"
    using assms(1) by (auto simp: on_db_eq)
  note f = SetRuntimeIntent_frame [OF s assms(2)]
  have "deploy_frame h i w w'" using f w' by (intro deploy_frame_quiet) simp_all
  moreover have "faults (db w) = [] \<Longrightarrow> faults s = []" using runtime_writes_faults(1) [of "db w" now i port cmd] s by simp
  ultimately show ?thesis using f w' by (simp add: clean_def)
qed

text \<open>
  The outcome of a stage that starts in phase \<open>p\<close> and reaches \<open>q\<close>: the frame, and for a clean
  start either the next phase or a recorded failure.
\<close>

definition outcome :: "host \<Rightarrow> string \<Rightarrow> phase \<Rightarrow> phase \<Rightarrow> world \<Rightarrow> 'a result \<Rightarrow> world \<Rightarrow> bool" where
  "outcome h i p q w r w' = (deploy_frame h i w w' \<and>
     (clean i p w \<longrightarrow> (case r of Inl e \<Rightarrow> failed_with i e w' | Inr x \<Rightarrow> clean i q w')))"

lemma outcome_fail:
  assumes "fail_deploy deps proc i p cause w = (r, w')" "store_inv (db w)" "\<forall>x. proc = Some x \<longrightarrow> launched h x" "phase_step p PhaseFailed"
  shows "outcome h i p q w r w' \<and> (\<exists>e. r = Inl e)"
  using fail_effect [OF assms(1-3)] assms(4) by (auto simp: outcome_def clean_def)

lemma outcome_after:
  assumes "deploy_frame h i w w1" "clean i p w \<longrightarrow> clean i p1 w1" "outcome h i p1 q w1 r w'"
  shows "outcome h i p q w r w'"
  using assms deploy_frame_trans [of h i w w1 w'] by (simp add: outcome_def)

lemma fs_frame: "on_fs f w = (r, w') \<Longrightarrow> store_inv (db w) \<Longrightarrow> deploy_frame h i w w' \<and> db w' = db w \<and> osy w' = osy w \<and> (clean i p w \<longrightarrow> clean i p w')"
  by (auto simp: on_fs_eq clean_def intro: deploy_frame_quiet)

lemma steps_to_failed [simp]:
  "phase_step PhaseValidating PhaseFailed" "phase_step PhaseDownloading PhaseFailed" "phase_step PhaseStarting PhaseFailed"
  "phase_step PhaseHealthy PhaseFailed" "phase_step PhaseRegistering PhaseFailed"
  "phase_step PhaseRequested PhaseValidating" "phase_step PhaseValidating PhaseDownloading"
  "phase_step PhaseDownloading PhaseStarting" "phase_step PhaseStarting PhaseHealthy"
  "phase_step PhaseHealthy PhaseRegistering" "phase_step PhaseRegistering PhaseUnregisteredHealthy"
  by (simp_all add: checkTransition_step [symmetric]) code_simp+

text \<open>
  One guarded call of a stage: it keeps the frame; on an error the stage fails in phase \<open>p\<close>,
  otherwise it goes on.
\<close>

lemma outcome_try:
  assumes step: "deploy_frame h i w w1" "clean i p w \<longrightarrow> clean i p w1"
    and inl: "\<And>e. x = Inl e \<Longrightarrow> fail_deploy deps None i p e w1 = (r, w')"
    and inr: "\<And>y. x = Inr y \<Longrightarrow> outcome h i p q w1 r w'"
    and p: "phase_step p PhaseFailed"
  shows "outcome h i p q w r w'"
proof -
  have "outcome h i p q w1 r w'"
  proof (cases x)
    case (Inl e)
    from outcome_fail [OF inl [OF Inl] deploy_frameD(3) [OF step(1)] _ p] show ?thesis by simp
  next
    case (Inr y)
    then show ?thesis by (rule inr)
  qed
  with step show ?thesis by (rule outcome_after)
qed

lemma outcome_advance:
  assumes "transition i p p1 [] w = (x, w1)" "store_inv (db w)" "phase_step p p1"
    and inl: "\<And>e. x = Inl e \<Longrightarrow> r = Inl e \<and> w' = w1"
    and inr: "x = Inr () \<Longrightarrow> outcome h i p1 q w1 r w'"
  shows "outcome h i p q w r w'"
proof -
  note f = transition_deploy_frame [OF assms(1,2), of h] and c = transition_keeps_clean [OF assms(1,2) _ assms(3)]
  show ?thesis
  proof (cases x)
    case (Inl e)
    with f c inl [OF Inl] show ?thesis by (auto simp: outcome_def)
  next
    case (Inr u)
    with f c inr show ?thesis by (auto intro: outcome_after)
  qed
qed

lemma outcome_done: "store_inv (db w) \<Longrightarrow> outcome h i p p w (Inr x) w"
  by (auto simp: outcome_def intro: deploy_frame_quiet)

lemma fail_None_osy:
  assumes "fail_deploy deps None i p cause w = (r, w')"
  shows "osy w' = osy w"
proof -
  obtain y wb where t: "transition i p PhaseFailed (error_text cause) w = (y, wb)" by fastforce
  have "osy wb = osy w" using t by (auto simp: transition_eq)
  with assms t show ?thesis by (auto simp: fail_deploy_def split: sum.splits)
qed

lemma prepare_files_outcome:
  assumes "prepare_files h deps d spec0 w = (r, w')" "store_inv (db w)"
  shows "outcome h (d_id d) PhaseRequested PhaseValidating w r w'"
proof -
  let ?i = "d_id d" and ?key = "''iold-'' @ randomHex (h_api_bytes h)"
  obtain r1 w1 where t1: "transition ?i PhaseRequested PhaseValidating [] w = (r1, w1)" by fastforce
  have inv1: "store_inv (db w1)" using transition_deploy_frame [OF t1 assms(2)] deploy_frameD(3) by blast
  obtain r2 w2 where t2: "on_fs (writeAPIKey (envr w1) ?i ?key) w1 = (r2, w2)" by fastforce
  note f2 = fs_frame [OF t2 inv1, of h ?i PhaseValidating]
  have inv2: "store_inv (db w2)" using f2 inv1 by simp
  obtain r3 w3 where t3: "on_fs (prepareModelCache (ds_cache_dir spec0) ?i (d_idempotency_key d)) w2 = (r3, w3)" by fastforce
  note f3 = fs_frame [OF t3 inv2, of h ?i PhaseValidating]
  note def = assms(1) [unfolded prepare_files_def Let_def t1]
  show ?thesis
  proof (rule outcome_advance [OF t1 assms(2)], simp)
    show "r = Inl e \<and> w' = w1" if "r1 = Inl e" for e using def that by simp
    assume r1: "r1 = Inr ()"
    show "outcome h ?i PhaseValidating PhaseValidating w1 r w'"
    proof (rule outcome_try [where deps = deps and x = r2 and ?w1.0 = w2])
      show "fail_deploy deps None ?i PhaseValidating e w2 = (r, w')" if "r2 = Inl e" for e using def that r1 t2 by simp
      show "outcome h ?i PhaseValidating PhaseValidating w2 r w'" if "r2 = Inr y" for y
      proof (rule outcome_try [where deps = deps and x = r3 and ?w1.0 = w3])
        show "fail_deploy deps None ?i PhaseValidating e w3 = (r, w')" if "r3 = Inl e" for e
          using def that r1 t2 \<open>r2 = Inr y\<close> t3 by simp
        show "outcome h ?i PhaseValidating PhaseValidating w3 r w'" if "r3 = Inr z" for z
          using def that r1 t2 \<open>r2 = Inr y\<close> t3 f3 inv2 by (auto intro: outcome_done)
      qed (use f3 in simp_all)
    qed (use f2 in simp_all)
  qed
qed

lemma declare_intent_outcome:
  assumes "declare_intent deps d spec w = (r, w')" "store_inv (db w)"
  shows "outcome h (d_id d) PhaseValidating PhaseStarting w r w'"
proof -
  let ?i = "d_id d"
  obtain r1 w1 where t1: "transition ?i PhaseValidating PhaseDownloading [] w = (r1, w1)" by fastforce
  have inv1: "store_inv (db w1)" using transition_deploy_frame [OF t1 assms(2)] deploy_frameD(3) by blast
  obtain command args where cmd: "dd_vllm_cmd deps spec = (command, args)" by fastforce
  obtain r2 w2 where t2: "on_db (SetRuntimeIntent (clock (osy w1)) ?i (ds_port spec) (runtimeCommandString command args)) w1 = (r2, w2)"
    by fastforce
  note f2 = intent_world [OF t2 inv1, of h PhaseDownloading]
  have inv2: "store_inv (db w2)" using f2 deploy_frameD(3) by blast
  obtain r3 w3 where t3: "transition ?i PhaseDownloading PhaseStarting [] w2 = (r3, w3)" by fastforce
  note f3 = transition_deploy_frame [OF t3 inv2, of h] and c3 = transition_keeps_clean [OF t3 inv2]
  have inv3: "store_inv (db w3)" using f3 deploy_frameD(3) by blast
  note def = assms(1) [unfolded declare_intent_def t1]
  show ?thesis
  proof (rule outcome_advance [OF t1 assms(2)], simp)
    show "r = Inl e \<and> w' = w1" if "r1 = Inl e" for e using def that by simp
    assume r1: "r1 = Inr ()"
    show "outcome h ?i PhaseDownloading PhaseStarting w1 r w'"
    proof (rule outcome_try [where deps = deps and x = "logPath (envr w1) ?i" and ?w1.0 = w1])
      show "fail_deploy deps None ?i PhaseDownloading e w1 = (r, w')" if "logPath (envr w1) ?i = Inl e" for e
        using def that r1 by simp
      show "outcome h ?i PhaseDownloading PhaseStarting w1 r w'" if lf: "logPath (envr w1) ?i = Inr lf" for lf
      proof (rule outcome_try [where deps = deps and x = r2 and ?w1.0 = w2])
        show "fail_deploy deps None ?i PhaseDownloading e w2 = (r, w')" if "r2 = Inl e" for e
          using def that r1 lf cmd t2 by simp
        show "outcome h ?i PhaseDownloading PhaseStarting w2 r w'" if r2: "r2 = Inr y" for y
        proof (cases r3)
          case (Inl e)
          then have f: "fail_deploy deps None ?i PhaseDownloading e w3 = (r, w')" using def r1 lf cmd t2 r2 t3 by simp
          have "\<not> clean ?i PhaseDownloading w2" using c3 Inl by auto
          then show ?thesis
            using outcome_fail [OF f inv3, of h PhaseStarting] f3 deploy_frame_trans [of h ?i w2 w3 w'] by (simp add: outcome_def)
        next
          case (Inr z)
          then have "r = Inr lf" "w' = w3" using def r1 lf cmd t2 r2 t3 by simp_all
          with f3 c3 show ?thesis by (auto simp: outcome_def)
        qed
      qed (use f2 in simp_all)
    qed (use inv1 in \<open>auto intro: deploy_frame_quiet\<close>)
  qed
qed

section \<open>The launch\<close>

lemma Start_later:
  assumes "Start l sp o1 = (r, o2)"
  shows "later o1 o2"
proof (cases "\<exists>pid. l_start l = Inr pid \<and> o2 \<noteq> o1")
  case False
  with assms show ?thesis
    by (cases "o2 = o1") (auto simp: Start_def Let_def split: option.splits sum.splits prod.splits if_splits)
next
  case True
  then obtain pid where l: "l_start l = Inr pid" "o2 \<noteq> o1" by blast
  let ?p = "\<lparr>pr_pid = pid, pr_command = commandString (sp_command sp) (sp_args sp),
       pr_log_path = sp_log_path sp, pr_started_at = zero_time, pr_start_token = []\<rparr>"
  obtain p err oa where c: "capture 20 ?p None o1 = (p, err, oa)" by (metis prod_cases3)
  have q: "later o1 oa" using capture_result [OF c] by (simp add: quiet_def)
  have "o2 = oa \<or> o2 = snd (kill pid SIGKILL (snd (kill (- pid) SIGKILL oa)))"
    using assms l c
    by (auto simp: Start_def Let_def simp del: capture.simps split: option.splits sum.splits prod.splits if_splits)
  then show ?thesis using q later_kill later_trans by metis
qed

lemma start_world:
  assumes "on_os (Start (h_launch h) sp) w = (r, w')" "store_inv (db w)"
  shows "deploy_frame h i w w' \<and> db w' = db w \<and> (clean i p w \<longrightarrow> clean i p w') \<and>
    (\<forall>x. r = Inr x \<longrightarrow> l_start (h_launch h) = Inr (pr_pid x) \<and> signals (osy w') = signals (osy w))"
proof -
  obtain o2 where s: "Start (h_launch h) sp (osy w) = (r, o2)" and w': "w' = w\<lparr>osy := o2\<rparr>" using assms(1) by (auto simp: on_os_eq)
  note e = Start_effect [OF s] and l = Start_later [OF s]
  have "launch_signals h (osy w) o2"
  proof (cases r)
    case (Inr x)
    with e show ?thesis by (intro launch_signals_same) simp
  next
    case (Inl x)
    with e show ?thesis by (fastforce simp: launch_signals_def launch_target_def list_all_iff)
  qed
  with l w' assms(2) have "deploy_frame h i w w'" by (simp add: deploy_frame_def)
  with e w' show ?thesis by (auto simp: clean_def)
qed

definition with_process :: "process \<Rightarrow> int \<Rightarrow> gotime \<Rightarrow> deployment \<Rightarrow> deployment" where
  "with_process p port now d = d\<lparr>d_pid := pr_pid p, d_port := port, d_command := pr_command p, d_started_at := pr_started_at p,
     d_start_token := pr_start_token p, d_updated_at := now\<rparr>"

definition runs_process :: "process \<Rightarrow> int \<Rightarrow> string \<Rightarrow> phase \<Rightarrow> world \<Rightarrow> bool" where
  "runs_process p port i q w = (\<exists>d. deployments (db w) i = Some d \<and> d_phase d = q \<and> d_port d = port \<and>
     deploymentProcess d = p\<lparr>pr_log_path := []\<rparr>)"

lemma SetRuntime_world:
  assumes "on_db (SetRuntime now i (pr_pid p) port (pr_command p) (pr_started_at p) (pr_start_token p)) w = (r, w')"
    and "store_inv (db w)"
  shows "deploy_frame h i w w' \<and> osy w' = osy w \<and> (clean i q w \<longrightarrow> clean i q w') \<and>
    (r = Inr () \<longrightarrow> runs_process p port i PhaseStarting w')"
proof -
  obtain s where s: "SetRuntime now i (pr_pid p) port (pr_command p) (pr_started_at p) (pr_start_token p) (db w) = (r, s)"
    and w': "w' = w\<lparr>db := s\<rparr>" using assms(1) by (auto simp: on_db_eq)
  note f = SetRuntime_frame [OF s assms(2)]
  have fr: "deploy_frame h i w w'" using f w' by (intro deploy_frame_quiet) simp_all
  have "faults (db w) = [] \<Longrightarrow> faults s = []"
    using runtime_writes_faults(2) [of "db w" now i "pr_pid p" port "pr_command p" "pr_started_at p" "pr_start_token p"] s by simp
  then have cl: "clean i q w \<Longrightarrow> clean i q w'" using f w' by (simp add: clean_def)
  have "runs_process p port i PhaseStarting w'" if res: "r = Inr ()"
  proof -
    note g = SetRuntime_guarded [of i now "pr_pid p" port "pr_command p" "pr_started_at p" "pr_start_token p" "db w", unfolded s]
    have "r = Inr () \<longrightarrow> (\<exists>x d. (in_phase i PhaseStarting x \<and> r_pid x = 0) \<and> scanDeployment x = Inr d \<and> deployments (db w) i = Some d \<and>
        deployments s i = Some (with_process p port now d))"
      by (rule guarded_deployments [OF assms(2) g, THEN conjunct2])
        (auto simp: with_process_def scan_runtime dest: in_phase_id)
    then obtain x d where d: "in_phase i PhaseStarting x" "scanDeployment x = Inr d" "deployments (db w) i = Some d"
        "deployments s i = Some (with_process p port now d)" using res by blast
    have "d_phase d = PhaseStarting" using in_phase_scan [OF d(2), of i PhaseStarting] d(1) deployments_phase(2) [OF assms(2) d(3)] by simp
    with d(4) w' show ?thesis by (simp add: runs_process_def with_process_def deploymentProcess_def)
  qed
  with fr cl w' show ?thesis by simp
qed

lemma runs_process_moves:
  assumes "transition i q q' why w = (Inr u, w')" "store_inv (db w)" "runs_process p port i q w"
  shows "runs_process p port i q' w'"
proof -
  obtain d where d: "deployments (db w) i = Some d" "deployments (db w') i = Some (moved (clock (osy w)) q' why d)"
    using transition_moves [OF assms(1,2)] by blast
  with assms(3) show ?thesis by (auto simp: runs_process_def moved_def deploymentProcess_def)
qed

lemma launch_outcome:
  assumes "launch_runtime h deps d spec lf w = (r, w')" "store_inv (db w)"
    and pid: "\<forall>pid. l_start (h_launch h) = Inr pid \<longrightarrow> 0 < pid"
  shows "outcome h (d_id d) PhaseStarting PhaseStarting w r w' \<and>
    (\<forall>p. r = Inr p \<longrightarrow> launched h p \<and> runs_process p (ds_port spec) (d_id d) PhaseStarting w' \<and> signals (osy w') = signals (osy w))"
proof -
  let ?i = "d_id d"
  obtain command args where cmd: "dd_vllm_cmd deps spec = (command, args)" by fastforce
  let ?sp = "\<lparr>sp_command = command, sp_args = args,
      sp_env = [''VLLM_API_KEY='' @ ds_api_key spec, ''HF_HOME='' @ ds_cache_dir spec,
                ''HUGGINGFACE_HUB_CACHE='' @ Join [ds_cache_dir spec, ''hub'']], sp_log_path = lf\<rparr>"
  obtain r1 w1 where t1: "on_os (Start (h_launch h) ?sp) w = (r1, w1)" by fastforce
  note f1 = start_world [OF t1 assms(2), of ?i PhaseStarting]
  have inv1: "store_inv (db w1)" using f1 assms(2) by simp
  note def = assms(1) [unfolded launch_runtime_def cmd prod.case t1]
  show ?thesis
  proof (cases r1)
    case (Inl e)
    then have "fail_deploy deps None ?i PhaseStarting e w1 = (r, w')" using def by simp
    from outcome_fail [OF this inv1, of h PhaseStarting] f1 show ?thesis
      using outcome_after [of h ?i w w1 PhaseStarting PhaseStarting PhaseStarting r w'] by auto
  next
    case (Inr p)
    obtain r2 w2 where t2: "on_db (SetRuntime (clock (osy w1)) ?i (pr_pid p) (ds_port spec) (pr_command p) (pr_started_at p) (pr_start_token p)) w1 = (r2, w2)"
      by fastforce
    note f2 = SetRuntime_world [OF t2 inv1, of h PhaseStarting]
    have inv2: "store_inv (db w2)" using f2 deploy_frameD(3) by blast
    have l: "launched h p" using f1 Inr pid by (simp add: launched_def)
    have fr: "deploy_frame h ?i w w2" using f1 f2 deploy_frame_trans [of h ?i w w1 w2] by simp
    have cl: "clean ?i PhaseStarting w \<longrightarrow> clean ?i PhaseStarting w2" using f1 f2 by simp
    show ?thesis
    proof (cases r2)
      case (Inl e)
      then have "fail_deploy deps (Some p) ?i PhaseStarting e w2 = (r, w')" using def \<open>r1 = Inr p\<close> t2 by simp
      from outcome_fail [OF this inv2, of h PhaseStarting] l outcome_after [OF fr cl, of PhaseStarting r w'] show ?thesis by auto
    next
      case r2: (Inr u)
      then have res: "r = Inr p" "\<exists>m. w' = say m w2" using def Inr t2 by auto
      moreover have "deploy_frame h ?i w w'" using res(2) fr by auto
      moreover have "runs_process p (ds_port spec) ?i PhaseStarting w'" using f2 r2 res(2) by (auto simp: runs_process_def)
      ultimately show ?thesis using cl l f1 f2 Inr by (auto simp: outcome_def clean_def)
    qed
  qed
qed

section \<open>The polling loops\<close>

text \<open>The answers that count as healthy and as ready, at two calls of the system.\<close>

definition healthy_at :: "deploy_deps \<Rightarrow> string \<Rightarrow> nat \<Rightarrow> bool" where
  "healthy_at deps base n = health_ok (dd_http deps n (get_request (base @ ''/health'') []))"

definition lists_model :: "deploy_deps \<Rightarrow> string \<Rightarrow> deploy_spec \<Rightarrow> nat \<Rightarrow> bool" where
  "lists_model deps base spec n = (\<exists>resp j ids.
     dd_http deps n \<lparr>q_method = ''GET'', q_url = base @ ''/v1/models'', q_authorization = ''Bearer '' @ ds_api_key spec,
       q_type = [], q_content = []\<rparr> = Inr resp \<and> s_status resp = 200 \<and> s_body resp = Inr (Inr j) \<and>
     dec_ids j = Inr ids \<and> ds_id spec \<in> set ids)"

definition infers :: "deploy_deps \<Rightarrow> string \<Rightarrow> deploy_spec \<Rightarrow> nat \<Rightarrow> bool" where
  "infers deps base spec n = (\<exists>resp j c cs. dd_http deps n (inference_request base spec) = Inr resp \<and> s_status resp = 200 \<and>
     s_body resp = Inr (Inr j) \<and> dec_choices j = Inr (c # cs) \<and> c \<noteq> [])"

lemma http_do_eq [simp]: "http_do srv q o1 = (srv (tick o1) q, step_os o1)"
  by (simp add: http_do_def)

lemma health_loop_effect:
  assumes "health_loop deps base p deadline o1 = Some (r, o2)"
  shows "quiet o1 o2 \<and> (r = Inr () \<longrightarrow> (\<exists>n. tick o1 \<le> n \<and> n < tick o2 \<and> identity_seen p o1 n \<and> healthy_at deps base n))"
proof -
  let ?P = "\<lambda>(deps :: deploy_deps) base p (deadline :: gotime) o1 (y :: unit result \<times> os). quiet o1 (snd y) \<and>
    (fst y = Inr () \<longrightarrow> (\<exists>n. tick o1 \<le> n \<and> n < tick (snd y) \<and> identity_seen p o1 n \<and> healthy_at deps base n))"
  have "?P deps base p deadline o1 (r, o2)"
  proof (rule health_loop.raw_induct [of ?P, OF _ assms])
    fix f :: "deploy_deps \<Rightarrow> string \<Rightarrow> process \<Rightarrow> gotime \<Rightarrow> os \<Rightarrow> (unit result \<times> os) option"
      and deps base p deadline o1 y
    assume IH: "\<And>deps base p deadline o1 y. f deps base p deadline o1 = Some y \<Longrightarrow> ?P deps base p deadline o1 y"
      and body: "(case Reconcile p o1 of (st, o2) \<Rightarrow>
        if st \<noteq> StatusRunning then Some (Inl (Opaque ''runtime process exited during startup''), o2)
        else case http_do (dd_http deps) (get_request (base @ ''/health'') []) o2 of (resp, o3) \<Rightarrow>
          if health_ok resp then Some (Inr (), o3)
          else if clock o3 > deadline
          then Some (Inl (Errorf ''runtime did not become healthy within %s'' [ArgS (duration_text (dd_health_timeout deps))]), o3)
          else f deps base p deadline (sleep (max 0 (dd_poll deps)) o3)) = Some y"
    obtain st oa where R: "Reconcile p o1 = (st, oa)" by fastforce
    note q = Reconcile_cases(1) [OF R]
    have qa: "quiet o1 (step_os oa)" using q by (rule quiet_stepI)
    let ?ob = "sleep (max 0 (dd_poll deps)) (step_os oa)"
    have qb: "quiet o1 ?ob" using qa quiet_sleep [of "max 0 (dd_poll deps)" "step_os oa"] by (auto intro: quiet_trans)
    show "?P deps base p deadline o1 y"
    proof (cases "st = StatusRunning \<and> \<not> health_ok (dd_http deps (tick oa) (get_request (base @ ''/health'') [])) \<and> \<not> clock (step_os oa) > deadline")
      case True
      with body R have "f deps base p deadline ?ob = Some y" by simp
      note I = IH [OF this]
      have "quiet o1 (snd y)" using qb I quiet_trans by blast
      moreover have "\<exists>n. tick o1 \<le> n \<and> n < tick (snd y) \<and> identity_seen p o1 n \<and> healthy_at deps base n" if res: "fst y = Inr ()"
      proof -
        from I res obtain n where n: "tick ?ob \<le> n" "n < tick (snd y)" "identity_seen p ?ob n" "healthy_at deps base n" by blast
        moreover have "tick o1 \<le> n" using n(1) qb by (simp add: quiet_def later_def)
        moreover have "identity_seen p o1 n" using identity_seen_later [OF quiet_later [OF qb] n(3)] .
        ultimately show ?thesis by blast
      qed
      ultimately show ?thesis by blast
    next
      case False
      show ?thesis
      proof (cases "st = StatusRunning")
        case True
        have "tick o1 \<le> tick oa" "tick oa < tick (step_os oa)" using q by (simp_all add: quiet_def later_def)
        with False True body R qa Reconcile_cases(2) [OF R] show ?thesis by (auto simp: healthy_at_def split: if_splits)
      next
        case False
        with body R q show ?thesis by auto
      qed
    qed
  qed
  then show ?thesis by simp
qed

lemma health_loop_returns:
  assumes "0 < dd_poll deps"
  shows "\<exists>y. health_loop deps base p deadline o1 = Some y"
proof (induction "nat (deadline + 1 - clock o1)" arbitrary: o1 rule: less_induct)
  case less
  obtain st oa where R: "Reconcile p o1 = (st, oa)" by fastforce
  let ?ob = "sleep (max 0 (dd_poll deps)) (step_os oa)"
  have c: "clock o1 \<le> clock (step_os oa)" using Reconcile_cases(1) [OF R] by (simp add: quiet_def later_def)
  have "clock (step_os oa) < clock ?ob" using assms by (simp add: sleep_def)
  with c have "\<not> clock (step_os oa) > deadline \<Longrightarrow> \<exists>y. health_loop deps base p deadline ?ob = Some y" by (intro less) linarith
  then show ?case by (subst health_loop.simps) (auto simp: R simp del: step_os_fields)
qed

lemma authedGet_ok:
  assumes "authedGet srv url key o1 = (Inr body, o2)"
  shows "\<exists>resp. srv (tick o1) \<lparr>q_method = ''GET'', q_url = url, q_authorization = ''Bearer '' @ key, q_type = [], q_content = []\<rparr> = Inr resp \<and>
    s_status resp = 200 \<and> s_body resp = Inr body"
  using assms by (auto simp: authedGet_def split: sum.splits if_splits)

lemma authedGet_step: "snd (authedGet srv url key o1) = step_os o1"
  by (auto simp: authedGet_def split: sum.splits)

lemma readinessProbe_effect:
  assumes "readinessProbe deps base spec o1 = (r, o2)"
  shows "quiet o1 o2 \<and> clock o1 \<le> clock o2 \<and>
    (r = Inr () \<longrightarrow> tick o2 = tick o1 + 2 \<and> lists_model deps base spec (tick o1) \<and> infers deps base spec (tick o1 + 1))"
proof -
  obtain x oa where A: "authedGet (dd_http deps) (base @ ''/v1/models'') (ds_api_key spec) o1 = (x, oa)" by fastforce
  have oa: "oa = step_os o1" using authedGet_step [of "dd_http deps" "base @ ''/v1/models''" "ds_api_key spec" o1] A by simp
  have "o2 = step_os o1 \<or> o2 = step_os (step_os o1)"
    using assms A oa by (auto simp: readinessProbe_def split: sum.splits if_splits)
  then have q: "quiet o1 o2" by (auto intro!: quiet_stepI)
  have "tick o2 = tick o1 + 2 \<and> lists_model deps base spec (tick o1) \<and> infers deps base spec (tick o1 + 1)" if res: "r = Inr ()"
  proof -
    obtain m where x: "x = Inr m" using assms A res by (cases x) (auto simp: readinessProbe_def)
    obtain j ids where m: "m = Inr j" "dec_ids j = Inr ids" "ds_id spec \<in> set ids"
      using assms A res x by (auto simp: readinessProbe_def split: sum.splits if_splits)
    have o2: "o2 = step_os (step_os o1)" and i: "inference_check (dd_http deps (tick o1 + 1) (inference_request base spec)) = Inr ()"
      using assms A res x m oa by (auto simp: readinessProbe_def)
    have "lists_model deps base spec (tick o1)" using authedGet_ok [OF A [unfolded x]] m by (auto simp: lists_model_def)
    moreover have "infers deps base spec (tick o1 + 1)"
      using i by (auto simp: inference_check_def infers_def split: sum.splits if_splits list.splits)
    ultimately show ?thesis using o2 by simp
  qed
  moreover have "clock o1 \<le> clock o2" using q by (simp add: quiet_def later_def)
  ultimately show ?thesis using q by blast
qed

lemma ready_loop_effect:
  assumes "ready_loop deps base spec deadline o1 = Some (r, o2)"
  shows "quiet o1 o2 \<and> (r = Inr () \<longrightarrow> (\<exists>n. tick o1 \<le> n \<and> n + 1 < tick o2 \<and> lists_model deps base spec n \<and> infers deps base spec (n + 1)))"
proof -
  let ?P = "\<lambda>(deps :: deploy_deps) base spec (deadline :: gotime) o1 (y :: unit result \<times> os). quiet o1 (snd y) \<and>
    (fst y = Inr () \<longrightarrow> (\<exists>n. tick o1 \<le> n \<and> n + 1 < tick (snd y) \<and> lists_model deps base spec n \<and> infers deps base spec (n + 1)))"
  have "?P deps base spec deadline o1 (r, o2)"
  proof (rule ready_loop.raw_induct [of ?P, OF _ assms])
    fix f :: "deploy_deps \<Rightarrow> string \<Rightarrow> deploy_spec \<Rightarrow> gotime \<Rightarrow> os \<Rightarrow> (unit result \<times> os) option"
      and deps base spec deadline o1 y
    assume IH: "\<And>deps base spec deadline o1 y. f deps base spec deadline o1 = Some y \<Longrightarrow> ?P deps base spec deadline o1 y"
      and body: "(case readinessProbe deps base spec o1 of (r, o2) \<Rightarrow>
        case r of
          Inl e \<Rightarrow>
          if clock o2 > deadline then Some (Inl (wrapf ''readiness checks failed: %w'' e), o2)
          else f deps base spec deadline (sleep (max 0 (dd_poll deps)) o2)
        | Inr u \<Rightarrow> Some (Inr (), o2)) = Some y"
    obtain x oa where R: "readinessProbe deps base spec o1 = (x, oa)" by fastforce
    note e = readinessProbe_effect [OF R]
    let ?ob = "sleep (max 0 (dd_poll deps)) oa"
    have qb: "quiet o1 ?ob" using e quiet_sleep [of "max 0 (dd_poll deps)" oa] by (auto intro: quiet_trans)
    show "?P deps base spec deadline o1 y"
    proof (cases x)
      case (Inr u)
      with body R have "y = (Inr (), oa)" by simp
      with e Inr show ?thesis by (auto intro!: exI [of _ "tick o1"])
    next
      case (Inl er)
      show ?thesis
      proof (cases "clock oa > deadline")
        case True
        with body R Inl have "y = (Inl (wrapf ''readiness checks failed: %w'' er), oa)" by simp
        with e show ?thesis by simp
      next
        case False
        with body R Inl have "f deps base spec deadline ?ob = Some y" by simp
        note I = IH [OF this]
        have "tick o1 \<le> tick ?ob" using qb by (simp add: quiet_def later_def)
        with I qb quiet_trans show ?thesis by (meson order_trans)
      qed
    qed
  qed
  then show ?thesis by simp
qed

lemma ready_loop_returns:
  assumes "0 < dd_poll deps"
  shows "\<exists>y. ready_loop deps base spec deadline o1 = Some y"
proof (induction "nat (deadline + 1 - clock o1)" arbitrary: o1 rule: less_induct)
  case less
  obtain x oa where R: "readinessProbe deps base spec o1 = (x, oa)" by fastforce
  let ?ob = "sleep (max 0 (dd_poll deps)) oa"
  have c: "clock o1 \<le> clock oa" using readinessProbe_effect [OF R] by blast
  have "clock oa < clock ?ob" using assms by (simp add: sleep_def)
  with c have "\<not> clock oa > deadline \<Longrightarrow> \<exists>y. ready_loop deps base spec deadline ?ob = Some y" by (intro less) linarith
  then show ?case by (subst ready_loop.simps) (auto simp: R split: sum.split)
qed

section \<open>After the launch\<close>

lemma outcome_advance_or_fail:
  assumes "transition i p p1 why w = (x, w1)" "store_inv (db w)" "phase_step p p1" "phase_step p PhaseFailed" "launched h pr"
    and inl: "\<And>e. x = Inl e \<Longrightarrow> fail_deploy deps (Some pr) i p e w1 = (r, w')"
    and inr: "x = Inr () \<Longrightarrow> outcome h i p1 q w1 r w'"
  shows "outcome h i p q w r w'"
proof -
  note f = transition_deploy_frame [OF assms(1,2), of h] and c = transition_keeps_clean [OF assms(1,2) _ assms(3)]
  show ?thesis
  proof (cases x)
    case (Inl e)
    have "store_inv (db w1)" using f deploy_frameD(3) by blast
    from outcome_fail [OF inl [OF Inl] this _ assms(4), of h q] assms(5) have "deploy_frame h i w1 w'" by (simp add: outcome_def)
    with f have "deploy_frame h i w w'" using deploy_frame_trans by blast
    with c Inl show ?thesis by (auto simp: outcome_def)
  next
    case (Inr u)
    with f c inr show ?thesis by (auto intro: outcome_after)
  qed
qed

lemma outcome_inv: "outcome h i p q w r w' \<Longrightarrow> store_inv (db w')"
  using deploy_frameD(3) by (auto simp: outcome_def)

lemma record_healthy_outcome:
  assumes "record_healthy deps p i answer w = (r, w')" "store_inv (db w)" "launched h p"
  shows "outcome h i PhaseStarting PhaseHealthy w r w' \<and>
    (r = Inr () \<longrightarrow> answer = Inr () \<and> osy w' = osy w \<and>
      (runs_process p port i PhaseStarting w \<longrightarrow> runs_process p port i PhaseHealthy w'))"
proof (cases answer)
  case (Inl e)
  then have f: "fail_deploy deps (Some p) i PhaseStarting e w = (r, w')" using assms(1) by (simp add: record_healthy_def)
  from outcome_fail [OF f assms(2), of h PhaseHealthy] assms(3) show ?thesis by auto
next
  case (Inr u)
  obtain x w1 where t: "transition i PhaseStarting PhaseHealthy [] w = (x, w1)" by fastforce
  have def: "(case x of Inl e \<Rightarrow> fail_deploy deps (Some p) i PhaseStarting e w1 | Inr u \<Rightarrow> (Inr (), w1)) = (r, w')"
    using assms(1) Inr t by (simp add: record_healthy_def)
  have "store_inv (db w1)" using transition_deploy_frame [OF t assms(2)] deploy_frameD(3) by blast
  then have "outcome h i PhaseStarting PhaseHealthy w r w'"
    by (intro outcome_advance_or_fail [OF t assms(2) _ _ assms(3)]) (use def in \<open>auto intro: outcome_done\<close>)
  moreover have "osy w' = osy w \<and> (runs_process p port i PhaseStarting w \<longrightarrow> runs_process p port i PhaseHealthy w')" if res: "r = Inr ()"
  proof -
    have x: "x = Inr ()" "w' = w1" using def res by (auto simp: fail_deploy_def Let_def split: sum.splits)
    then show ?thesis using runs_process_moves [OF t [unfolded x(1)] assms(2)] transition_deploy_frame [OF t assms(2)] by simp
  qed
  ultimately show ?thesis using Inr by simp
qed

lemma record_ready_outcome:
  assumes "record_ready deps p i answer w = (r, w')" "store_inv (db w)" "launched h p"
  shows "outcome h i PhaseHealthy PhaseUnregisteredHealthy w r w' \<and>
    (r = Inr () \<longrightarrow> answer = Inr () \<and> osy w' = osy w \<and>
      (runs_process p port i PhaseHealthy w \<longrightarrow> runs_process p port i PhaseUnregisteredHealthy w'))"
proof (cases answer)
  case (Inl e)
  then have f: "fail_deploy deps (Some p) i PhaseHealthy e w = (r, w')" using assms(1) by (simp add: record_ready_def)
  from outcome_fail [OF f assms(2), of h PhaseUnregisteredHealthy] assms(3) show ?thesis by auto
next
  case (Inr u)
  let ?why = "''gateway registration not implemented yet (M4)''"
  obtain x w1 where t: "transition i PhaseHealthy PhaseRegistering [] w = (x, w1)" by fastforce
  obtain y w2 where t2: "transition i PhaseRegistering PhaseUnregisteredHealthy ?why w1 = (y, w2)" by fastforce
  have def: "(case x of Inl e \<Rightarrow> fail_deploy deps (Some p) i PhaseHealthy e w1 | Inr u \<Rightarrow>
      (case y of Inl e \<Rightarrow> fail_deploy deps (Some p) i PhaseRegistering e w2 | Inr u \<Rightarrow> (Inr (), w2))) = (r, w')"
    using assms(1) Inr t t2 by (cases x) (simp_all add: record_ready_def)
  have inv1: "store_inv (db w1)" using transition_deploy_frame [OF t assms(2)] deploy_frameD(3) by blast
  have inv2: "store_inv (db w2)" using transition_deploy_frame [OF t2 inv1] deploy_frameD(3) by blast
  have "outcome h i PhaseRegistering PhaseUnregisteredHealthy w1 r w'" if "x = Inr ()"
    by (intro outcome_advance_or_fail [OF t2 inv1 _ _ assms(3)]) (use def that inv2 in \<open>auto intro: outcome_done\<close>)
  then have "outcome h i PhaseHealthy PhaseUnregisteredHealthy w r w'"
    by (intro outcome_advance_or_fail [OF t assms(2) _ _ assms(3)]) (use def in auto)
  moreover have "osy w' = osy w \<and> (runs_process p port i PhaseHealthy w \<longrightarrow> runs_process p port i PhaseUnregisteredHealthy w')" if res: "r = Inr ()"
  proof -
    have x: "x = Inr ()" "y = Inr ()" "w' = w2" using def res by (auto simp: fail_deploy_def Let_def split: sum.splits)
    then show ?thesis using runs_process_moves [OF t [unfolded x(1)] assms(2)] runs_process_moves [OF t2 [unfolded x(2)] inv1]
        transition_deploy_frame [OF t assms(2)] transition_deploy_frame [OF t2 inv1] by simp
  qed
  ultimately show ?thesis using Inr by simp
qed

lemma poll_frame:
  "quiet (osy w) o2 \<Longrightarrow> store_inv (db w) \<Longrightarrow> deploy_frame h i w (w\<lparr>osy := o2\<rparr>)"
  by (intro deploy_frame_quiet) simp_all

text \<open>What a served deployment rests on: the identity, then health, then readiness were observed.\<close>

definition observed_serving :: "deploy_deps \<Rightarrow> deploy_spec \<Rightarrow> process \<Rightarrow> os \<Rightarrow> os \<Rightarrow> bool" where
  "observed_serving deps spec p o1 o2 = (\<exists>n m. tick o1 \<le> n \<and> n < m \<and> m + 1 < tick o2 \<and>
     identity_seen p o1 n \<and> healthy_at deps (dd_base_url deps (ds_port spec)) n \<and>
     lists_model deps (dd_base_url deps (ds_port spec)) spec m \<and> infers deps (dd_base_url deps (ds_port spec)) spec (m + 1))"

lemma finish_outcome:
  assumes "finish_deploy deps d spec p w = Some (r, w')" "store_inv (db w)" "launched h p"
    and run: "runs_process p port (d_id d) PhaseStarting w"
  shows "outcome h (d_id d) PhaseStarting PhaseUnregisteredHealthy w r w' \<and>
    (r = Inr () \<longrightarrow> runs_process p port (d_id d) PhaseUnregisteredHealthy w' \<and> signals (osy w') = signals (osy w) \<and>
       observed_serving deps spec p (osy w) (osy w'))"
proof -
  let ?i = "d_id d" and ?base = "dd_base_url deps (ds_port spec)"
  obtain healthy oa where H: "waitHealthy deps ?base p (osy w) = Some (healthy, oa)"
    using assms(1) by (auto simp: finish_deploy_def Let_def split: option.splits)
  note h = health_loop_effect [OF H [unfolded waitHealthy_def]]
  let ?wa = "w\<lparr>osy := oa\<rparr>"
  have fa: "deploy_frame h ?i w ?wa" using h assms(2) by (intro poll_frame) blast+
  obtain r1 w1 where R1: "record_healthy deps p ?i healthy ?wa = (r1, w1)" by fastforce
  note e1 = record_healthy_outcome [OF R1 _ assms(3), of port]
  have inva: "store_inv (db ?wa)" using assms(2) by simp
  have o1: "outcome h ?i PhaseStarting PhaseHealthy w r1 w1"
    using e1 [OF inva] outcome_after [OF fa, of PhaseStarting PhaseStarting PhaseHealthy r1 w1] by (simp add: clean_def)
  show ?thesis
  proof (cases r1)
    case (Inl e)
    then have "r = Inl e" "w' = w1" using assms(1) H R1 by (auto simp: finish_deploy_def Let_def)
    with o1 Inl show ?thesis by (simp add: outcome_def)
  next
    case r1: (Inr u)
    obtain ready ob where S: "checkReadiness deps ?base spec (osy w1) = Some (ready, ob)"
      using assms(1) H R1 r1 by (auto simp: finish_deploy_def Let_def split: option.splits)
    note s = ready_loop_effect [OF S [unfolded checkReadiness_def]]
    let ?wb = "w1\<lparr>osy := ob\<rparr>"
    have inv1: "store_inv (db w1)" using o1 by (rule outcome_inv)
    have fb: "deploy_frame h ?i w1 ?wb" using s inv1 by (intro poll_frame) blast+
    obtain r2 w2 where R2: "record_ready deps p ?i ready ?wb = (r2, w2)" by fastforce
    have invb: "store_inv (db ?wb)" using inv1 by simp
    note e2 = record_ready_outcome [OF R2 invb assms(3), of port]
    have o2: "outcome h ?i PhaseHealthy PhaseUnregisteredHealthy w1 r2 w2"
      using e2 outcome_after [OF fb, of PhaseHealthy PhaseHealthy PhaseUnregisteredHealthy r2 w2] by (simp add: clean_def)
    have both: "outcome h ?i PhaseStarting PhaseUnregisteredHealthy w r2 w2"
      using o1 o2 r1 outcome_after [of h ?i w w1 PhaseStarting PhaseHealthy PhaseUnregisteredHealthy r2 w2] by (simp add: outcome_def)
    have res: "r = r2 \<and> (w' = w2 \<or> w' = printDeploySummary ?i spec w2)"
      using assms(1) H R1 r1 S R2 by (auto simp: finish_deploy_def Let_def split: sum.splits)
    have sum: "db w' = db w2" "osy w' = osy w2" "deploy_frame h ?i w w' = deploy_frame h ?i w w2"
      using res by (auto simp: printDeploySummary_def Let_def)
    have served: "runs_process p port ?i PhaseUnregisteredHealthy w' \<and> signals (osy w') = signals (osy w) \<and>
        observed_serving deps spec p (osy w) (osy w')" if ok: "r = Inr ()"
    proof -
      have k: "ready = Inr ()" "osy w2 = ob" "healthy = Inr ()" "osy w1 = oa"
        using e2 e1 [OF inva] res ok r1 by auto
      obtain n where n: "tick (osy w) \<le> n" "n < tick oa" "identity_seen p (osy w) n" "healthy_at deps ?base n" using h k(3) by blast
      obtain m where m: "tick oa \<le> m" "m + 1 < tick ob" "lists_model deps ?base spec m" "infers deps ?base spec (m + 1)" using s k by auto
      have "observed_serving deps spec p (osy w) (osy w')"
        unfolding observed_serving_def using n m k(2) sum(2) by (intro exI [of _ n] exI [of _ m]) simp
      moreover have "signals (osy w') = signals (osy w)" using h s k sum(2) by (simp add: quiet_def)
      moreover have "runs_process p port ?i PhaseStarting ?wa" using run by (simp add: runs_process_def)
      then have "runs_process p port ?i PhaseHealthy w1" using e1 [OF inva] r1 by simp
      then have "runs_process p port ?i PhaseHealthy ?wb" by (simp add: runs_process_def)
      then have "runs_process p port ?i PhaseUnregisteredHealthy w2" using e2 res ok by simp
      ultimately show ?thesis using sum(1) by (simp add: runs_process_def)
    qed
    have "outcome h ?i PhaseStarting PhaseUnregisteredHealthy w r w'"
      using both res sum by (cases r2) (simp_all add: outcome_def clean_def failed_with_def)
    with served show ?thesis by blast
  qed
qed

section \<open>The whole deployment\<close>

definition launch_pids_ok :: "host \<Rightarrow> bool" where
  "launch_pids_ok h = (case l_start (h_launch h) of Inr pid \<Rightarrow> 0 < pid | Inl e \<Rightarrow> True)"

definition keyed :: "host \<Rightarrow> deploy_spec \<Rightarrow> deploy_spec" where
  "keyed h spec = spec\<lparr>ds_api_key := ''iold-'' @ randomHex (h_api_bytes h)\<rparr>"

lemma fail_is_error: "fail_deploy deps pr i p cause w = (r, w') \<Longrightarrow> \<exists>e. r = Inl e"
  by (auto simp: fail_deploy_def Let_def)

lemma prepare_files_done:
  assumes "prepare_files h deps d spec0 w = (Inr spec, w')"
  shows "spec = keyed h spec0 \<and> osy w' = osy w"
  using assms fail_is_error [where ?'a = deploy_spec]
  by (fastforce simp: prepare_files_def Let_def keyed_def lift_eqs split: sum.splits prod.splits)

lemma declare_intent_done:
  assumes "declare_intent deps d spec w = (Inr lf, w')"
  shows "osy w' = osy w"
  using assms fail_is_error [where ?'a = string]
  by (fastforce simp: declare_intent_def Let_def lift_eqs split: sum.splits prod.splits)

lemma execute_outcome:
  assumes "executeDeploy h deps d spec0 w = Some (r, w')" "store_inv (db w)" "launch_pids_ok h"
  shows "outcome h (d_id d) PhaseRequested PhaseUnregisteredHealthy w r w' \<and>
    (r = Inr () \<longrightarrow> (\<exists>p. launched h p \<and> runs_process p (ds_port spec0) (d_id d) PhaseUnregisteredHealthy w' \<and>
       signals (osy w') = signals (osy w) \<and> observed_serving deps (keyed h spec0) p (osy w) (osy w')))"
proof -
  let ?i = "d_id d"
  obtain r1 w1 where t1: "prepare_files h deps d spec0 w = (r1, w1)" by fastforce
  note o1 = prepare_files_outcome [OF t1 assms(2)]
  have inv1: "store_inv (db w1)" using o1 by (rule outcome_inv)
  show ?thesis
  proof (cases r1)
    case (Inl e)
    with assms(1) t1 have "r = Inl e" "w' = w1" by (simp_all add: executeDeploy_def)
    with o1 Inl show ?thesis by (simp add: outcome_def)
  next
    case r1: (Inr spec)
    have sp: "spec = keyed h spec0" "osy w1 = osy w" using prepare_files_done [OF t1 [unfolded r1]] by simp_all
    obtain r2 w2 where t2: "declare_intent deps d spec w1 = (r2, w2)" by fastforce
    note o2 = declare_intent_outcome [OF t2 inv1, of h]
    have inv2: "store_inv (db w2)" using o2 by (rule outcome_inv)
    have c2: "outcome h ?i PhaseRequested PhaseStarting w r2 w2"
      using outcome_after [OF _ _ o2, of w PhaseRequested] o1 r1 by (simp add: outcome_def)
    show ?thesis
    proof (cases r2)
      case (Inl e)
      with assms(1) t1 r1 t2 have "r = Inl e" "w' = w2" by (simp_all add: executeDeploy_def)
      with c2 Inl show ?thesis by (simp add: outcome_def)
    next
      case r2: (Inr lf)
      have os2: "osy w2 = osy w" using declare_intent_done [OF t2 [unfolded r2]] sp by simp
      obtain r3 w3 where t3: "launch_runtime h deps d spec lf w2 = (r3, w3)" by fastforce
      have pid: "\<forall>pid. l_start (h_launch h) = Inr pid \<longrightarrow> 0 < pid" using assms(3) by (auto simp: launch_pids_ok_def)
      note l = launch_outcome [OF t3 inv2 pid]
      have inv3: "store_inv (db w3)" using l outcome_inv by blast
      have c3: "outcome h ?i PhaseRequested PhaseStarting w r3 w3"
        using outcome_after [OF _ _ l [THEN conjunct1], of w PhaseRequested] c2 r2 by (simp add: outcome_def)
      show ?thesis
      proof (cases r3)
        case (Inl e)
        with assms(1) t1 r1 t2 r2 t3 have "r = Inl e" "w' = w3" by (simp_all add: executeDeploy_def)
        with c3 Inl show ?thesis by (simp add: outcome_def)
      next
        case r3: (Inr p)
        have p: "launched h p" "runs_process p (ds_port spec) ?i PhaseStarting w3" "signals (osy w3) = signals (osy w)"
          using l r3 os2 by simp_all
        have fin: "finish_deploy deps d spec p w3 = Some (r, w')" using assms(1) t1 r1 t2 r2 t3 r3 by (simp add: executeDeploy_def)
        note f = finish_outcome [OF fin inv3 p(1,2)]
        have "outcome h ?i PhaseRequested PhaseUnregisteredHealthy w r w'"
          using outcome_after [OF _ _ f [THEN conjunct1], of w PhaseRequested] c3 r3 by (simp add: outcome_def)
        moreover have "observed_serving deps spec p (osy w) (osy w')" if "observed_serving deps spec p (osy w3) (osy w')"
        proof -
          have lt: "later (osy w) (osy w3)" using c3 deploy_frameD(1) by (auto simp: outcome_def)
          then have "tick (osy w) \<le> tick (osy w3)" by (simp add: later_def)
          with that identity_seen_later [OF lt] show ?thesis unfolding observed_serving_def by (meson order_trans)
        qed
        ultimately show ?thesis using f p sp by (auto simp: keyed_def)
      qed
    qed
  qed
qed

lemma execute_returns: "0 < dd_poll deps \<Longrightarrow> \<exists>y. executeDeploy h deps d spec0 w = Some y"
proof -
  assume p: "0 < dd_poll deps"
  have "\<exists>y. finish_deploy deps d spec pr v = Some y" for spec pr v
  proof -
    obtain r1 oa where H: "waitHealthy deps (dd_base_url deps (ds_port spec)) pr (osy v) = Some (r1, oa)"
      using health_loop_returns [OF p] by (fastforce simp: waitHealthy_def)
    obtain r2 w1 where R: "record_healthy deps pr (d_id d) r1 (v\<lparr>osy := oa\<rparr>) = (r2, w1)" by fastforce
    obtain r3 ob where S: "checkReadiness deps (dd_base_url deps (ds_port spec)) spec (osy w1) = Some (r3, ob)"
      using ready_loop_returns [OF p] by (fastforce simp: checkReadiness_def)
    show ?thesis using H R S by (auto simp: finish_deploy_def Let_def split: sum.split prod.split)
  qed
  then show ?thesis by (auto simp: executeDeploy_def split: sum.split prod.split)
qed

lemma run_returns: "0 < dd_poll deps \<Longrightarrow> \<exists>y. runDeploy h deps args w = Some y"
  using execute_returns [of deps h]
  by (auto simp: runDeploy_def create_and_execute_def split: sum.split prod.split option.split)

end
