(* ===== verification/DeployTheorems.thy ===== *)
theory DeployTheorems imports DeploySpec begin

text \<open>
  The properties of the deploy command as a whole: what a successful and a failed deployment leave behind,
  that the command returns, and that an existing deployment is replaced only after the new one has been
  resolved and checked.
\<close>

section \<open>Nothing is replaced before the checks\<close>

lemma GetModel_step: "snd (GetModel c i o1) = step_os o1"
proof -
  obtain x o2 where g: "getJSON c (''/api/models/'' @ i) dec_model o1 = (x, o2)" by fastforce
  with getJSON_cases [OF g] show ?thesis by (simp add: GetModel_def split: sum.split)
qed

lemma GetConfig_quiet: "quiet o1 (snd (GetConfigAtRevision c i rv o1))"
proof -
  let ?path = "''/'' @ i @ ''/raw/'' @ PathEscape rv @ ''/config.json''"
  obtain x o2 where g: "getJSON c ?path (\<lambda>j. dec_config j zero_config) o1 = (x, o2)" by fastforce
  have "o2 = step_os o1" using getJSON_cases [OF g] by simp
  with g quiet_step [of o1] show ?thesis by (simp add: GetConfigAtRevision_def split: sum.split)
qed

lemma gate_quiet:
  assumes "gate_model deps ref o1 = (r, o2)"
  shows "quiet o1 o2"
proof -
  obtain v oa where V: "primaryVRAMMiB (dd_probes deps) o1 = (v, oa)" by fastforce
  have oa: "oa = step_os o1" using V by (auto simp: primaryVRAMMiB_def split: sum.splits list.splits)
  obtain m ob where M: "GetModel (dd_hub deps) ref oa = (m, ob)" by fastforce
  have ob: "ob = step_os oa" using GetModel_step [of "dd_hub deps" ref oa] M by simp
  have q: "quiet o1 oa" "quiet o1 ob" using oa ob by (auto intro!: quiet_stepI)
  show ?thesis
  proof (cases "\<exists>model. m = Inr model \<and> o2 = snd (GetConfigAtRevision (dd_hub deps) ref (m_sha model) ob)")
    case True
    then show ?thesis using q GetConfig_quiet quiet_trans by blast
  next
    case False
    with assms V M have "o2 = oa \<or> o2 = ob" by (auto simp: gate_model_def split: sum.splits if_splits prod.splits)
    with q show ?thesis by blast
  qed
qed

lemma resolve_quiet:
  assumes "resolveSpec env h deps ref o1 = (r, o2)"
  shows "quiet o1 o2"
proof (cases "catalog_Get ref")
  case (Inr entry)
  obtain x oa where C: "catalog_revision deps entry o1 = (x, oa)" by fastforce
  have "oa = o1 \<or> oa = snd (GetModel (dd_hub deps) (k_artifact entry) o1)"
    using C by (auto simp: catalog_revision_def split: sum.splits if_splits prod.splits)
  then have "quiet o1 oa" by (auto simp: GetModel_step intro!: quiet_stepI)
  moreover have "o2 = oa" using assms Inr C by (auto simp: resolveSpec_def resolve_catalog_def split: sum.splits)
  ultimately show ?thesis by simp
next
  case (Inl e)
  obtain x oa where G: "gate_model deps ref o1 = (x, oa)" by fastforce
  with assms Inl have "o2 = o1 \<or> o2 = oa" by (auto simp: resolveSpec_def Let_def split: sum.splits if_splits prod.splits)
  with gate_quiet [OF G] show ?thesis by auto
qed

text \<open>
  The specification to deploy is the resolved one with the port preflight chose, and preflight found
  everything it needs.
\<close>

definition checked :: "environment \<Rightarrow> host \<Rightarrow> deploy_deps \<Rightarrow> string \<Rightarrow> deployment list \<Rightarrow> deploy_spec \<Rightarrow> bool" where
  "checked env h deps ref olds spec = (\<exists>s o1 o2 o3. resolveSpec env h deps ref o1 = (Inr s, o2) \<and>
     spec = s\<lparr>ds_port := ds_port spec\<rparr> \<and>
     preflight_Run (h_lookpath h) (h_free h) (deploy_preflight deps s olds) o2 = (Inr (ds_port spec), o3))"

lemma checked_gpu:
  assumes "checked env h deps ref olds spec"
  shows "\<exists>n. gpu_ready (ds_min_driver spec) (ds_min_compute spec) (ds_min_vram spec) (GPUs (dd_probes deps) n)"
proof -
  obtain s o2 o3 where s: "spec = s\<lparr>ds_port := ds_port spec\<rparr>"
    and P: "preflight_Run (h_lookpath h) (h_free h) (deploy_preflight deps s olds) o2 = (Inr (ds_port spec), o3)"
    using assms by (auto simp: checked_def)
  have pr: "pf_probes (deploy_preflight deps s olds) = Some (dd_probes deps)" by (simp add: deploy_preflight_def)
  have "ds_min_driver spec = ds_min_driver s" "ds_min_compute spec = ds_min_compute s" "ds_min_vram spec = ds_min_vram s"
    by (subst s, simp)+
  with preflight_result [OF pr P, of "ds_port spec"] show ?thesis
    by (intro exI [of _ "tick o2"]) (simp add: Let_def deploy_preflight_def)
qed

lemma validate_effect:
  assumes "validate_deploy h deps ref olds w = (r, w')" "store_inv (db w)"
  shows "observing w w' \<and> db w' = db w \<and> (\<forall>spec. r = Inr spec \<longrightarrow> checked (envr w) h deps ref olds spec)"
proof -
  obtain x oa where R: "resolveSpec (envr w) h deps ref (osy w) = (x, oa)" by fastforce
  have qa: "quiet (osy w) oa" using resolve_quiet [OF R] .
  show ?thesis
  proof (cases x)
    case (Inl e)
    with assms R qa show ?thesis by (auto simp: validate_deploy_def on_os_def observing_def)
  next
    case (Inr s)
    obtain y ob where P: "preflight_Run (h_lookpath h) (h_free h) (deploy_preflight deps s olds) oa = (y, ob)" by fastforce
    have pr: "pf_probes (deploy_preflight deps s olds) = Some (dd_probes deps)" by (simp add: deploy_preflight_def)
    note p = preflight_result [OF pr P]
    have "quiet (osy w) ob" using qa p quiet_trans by blast
    moreover have w': "w' = w\<lparr>osy := ob\<rparr>" "\<And>spec. r = Inr spec \<Longrightarrow> \<exists>q. y = Inr q \<and> spec = s\<lparr>ds_port := q\<rparr>"
      using assms(1) R Inr P by (auto simp: validate_deploy_def on_os_def split: sum.splits)
    moreover have "checked (envr w) h deps ref olds spec" if res: "r = Inr spec" for spec
    proof -
      obtain q where q: "y = Inr q" "spec = s\<lparr>ds_port := q\<rparr>" using w'(2) [OF res] by blast
      show ?thesis unfolding checked_def
        by (rule exI [of _ s], rule exI [of _ "osy w"], rule exI [of _ oa], rule exI [of _ ob]) (use q P R Inr in simp)
    qed
    ultimately show ?thesis using assms(2) by (simp add: observing_def)
  qed
qed

lemma to_replace_Inr:
  "to_replace rep ds = Inr olds \<Longrightarrow> olds = filter (\<lambda>d. d_phase d \<noteq> PhaseDestroyed) ds \<and> (rep \<or> olds = [])"
  by (induction rep ds arbitrary: olds rule: to_replace.induct) (auto split: if_splits sum.splits)

lemma to_replace_Inl:
  "to_replace rep ds = Inl e \<Longrightarrow> \<not> rep \<and> errors_is ErrConflict e \<and> exit_code (Some e) = 4 \<and> (\<exists>d\<in>set ds. d_phase d \<noteq> PhaseDestroyed)"
  by (induction rep ds rule: to_replace.induct) (auto simp: exit_code_def split: if_splits sum.splits)

text \<open>
  The run up to the replacement only observes: it either ends there with an error, or hands the checked
  specification and the deployments to be replaced to the rest.
\<close>

definition hands_over :: "environment \<Rightarrow> host \<Rightarrow> deploy_deps \<Rightarrow> bool \<Rightarrow> string \<Rightarrow> unit result \<Rightarrow> world \<Rightarrow> world \<Rightarrow>
    deployment list \<Rightarrow> deploy_spec \<Rightarrow> bool" where
  "hands_over env h deps rep ref r w' w1 olds spec =
     ((\<forall>d. d \<in> set olds \<longleftrightarrow> deployments (db w1) (d_id d) = Some d \<and> d_phase d \<noteq> PhaseDestroyed) \<and>
     (olds \<noteq> [] \<longrightarrow> rep) \<and> checked env h deps ref olds spec \<and>
     (case replace_loop olds w1 of
        (Inl e, w2) \<Rightarrow> r = Inl e \<and> w' = w2
      | (Inr u, w2) \<Rightarrow> create_and_execute h deps spec w2 = Some (r, w')))"

definition goes_on :: "host \<Rightarrow> deploy_deps \<Rightarrow> bool \<Rightarrow> string \<Rightarrow> world \<Rightarrow> unit result \<Rightarrow> world \<Rightarrow> bool" where
  "goes_on h deps rep ref w r w' =
     (\<exists>w1 olds spec. observing w w1 \<and> hands_over (envr w) h deps rep ref r w' w1 olds spec)"

lemma goes_on_observing:
  assumes "observing w w1" "goes_on h deps rep ref w1 r w'"
  shows "goes_on h deps rep ref w r w'"
proof -
  have "envr w1 = envr w" using assms(1) by (simp add: observing_def)
  with assms(2) obtain w2 olds spec where o2: "observing w1 w2" and g: "hands_over (envr w) h deps rep ref r w' w2 olds spec"
    unfolding goes_on_def by auto
  have "observing w w2" using assms(1) o2 by (rule observing_trans)
  with g show ?thesis unfolding goes_on_def by blast
qed

lemma open_observing:
  assumes "open_state w = (x, w1)" "store_inv (db w)"
  shows "observing w w1"
  using open_state_effect [OF assms] by (simp add: observing_def)

lemma list_observing:
  assumes "on_db ListAll w = (x, w1)" "store_inv (db w)"
  shows "observing w w1 \<and> (\<forall>ds. x = Inr ds \<longrightarrow> (\<forall>d. d \<in> set ds \<longleftrightarrow> deployments (db w1) (d_id d) = Some d))"
proof -
  obtain s where L: "ListAll (db w) = (x, s)" and w1: "w1 = w\<lparr>db := s\<rparr>" using assms(1) by (auto simp: on_db_eq)
  have d: "same_data (db w) s" using ListAll_effect [OF L] .
  then have inv: "store_inv s" using assms(2) store_inv_data by blast
  have dep: "deployments s = deployments (db w)" using same_data_rows(1) [OF d] by (simp add: deployments_def fun_eq_iff)
  have "\<forall>e. e \<in> set ds \<longleftrightarrow> deployments s (d_id e) = Some e" if "x = Inr ds" for ds
    using ListAll_result [OF assms(2) L [unfolded that]] dep by simp
  with inv w1 show ?thesis by (simp add: observing_def)
qed

lemma after_list:
  assumes "(case to_replace rep ds of
              Inl e \<Rightarrow> Some (Inl e, w)
            | Inr olds \<Rightarrow>
              (case validate_deploy h deps ref olds w of
                 (Inl e, w1) \<Rightarrow> Some (Inl e, w1)
               | (Inr spec, w1) \<Rightarrow>
                 (case replace_loop olds w1 of
                    (Inl e, w2) \<Rightarrow> Some (Inl e, w2)
                  | (Inr u, w2) \<Rightarrow> create_and_execute h deps spec w2))) = Some (r, w')"
    and "store_inv (db w)" "\<forall>d. d \<in> set ds \<longleftrightarrow> deployments (db w) (d_id d) = Some d"
  shows "(observing w w' \<and> (\<exists>e. r = Inl e)) \<or> goes_on h deps rep ref w r w'"
proof (cases "to_replace rep ds")
  case (Inl e)
  with assms(1,2) have "observing w w'" "r = Inl e" by (simp_all add: observing_def)
  then show ?thesis by blast
next
  case (Inr olds)
  note t = to_replace_Inr [OF Inr]
  obtain v w1 where V: "validate_deploy h deps ref olds w = (v, w1)" by fastforce
  note e = validate_effect [OF V assms(2)]
  show ?thesis
  proof (cases v)
    case (Inl e)
    with assms(1) Inr V e show ?thesis by auto
  next
    case v: (Inr spec)
    have olds: "d \<in> set olds \<longleftrightarrow> deployments (db w1) (d_id d) = Some d \<and> d_phase d \<noteq> PhaseDestroyed" for d
      using t assms(3) e by simp
    have run: "case replace_loop olds w1 of (Inl e, w2) \<Rightarrow> r = Inl e \<and> w' = w2
        | (Inr u, w2) \<Rightarrow> create_and_execute h deps spec w2 = Some (r, w')"
      using assms(1) Inr V v by (auto split: prod.splits sum.splits)
    have rep: "olds \<noteq> [] \<longrightarrow> rep" using t by blast
    have chk: "checked (envr w) h deps ref olds spec" using e v by blast
    have "hands_over (envr w) h deps rep ref r w' w1 olds spec"
      unfolding hands_over_def using olds rep chk run by (intro conjI allI)
    then have "goes_on h deps rep ref w r w'" unfolding goes_on_def using e by blast
    then show ?thesis ..
  qed
qed

lemma run_effect:
  assumes "runDeploy h deps args w = Some (r, w')" "store_inv (db w)"
  shows "(observing w w' \<and> (\<exists>e. r = Inl e)) \<or>
    (\<exists>rep ref. deploy_args False [] args = Inr (rep, ref) \<and> goes_on h deps rep ref w r w')"
proof (cases "\<exists>rep ref. deploy_args False [] args = Inr (rep, ref) \<and> lock_err w = None")
  case False
  then have "\<exists>e. r = Inl e \<and> w' = w" using assms(1) by (auto simp: runDeploy_def split: sum.splits option.splits)
  with assms(2) show ?thesis by (auto simp: observing_def)
next
  case True
  then obtain rep ref where A: "deploy_args False [] args = Inr (rep, ref)" "lock_err w = None" by blast
  obtain x w1 where O: "open_state w = (x, w1)" by fastforce
  note o1 = open_observing [OF O assms(2)]
  have inv1: "store_inv (db w1)" using o1 by (simp add: observing_def)
  obtain y w2 where R: "recoverInterruptedDeployments w1 = (y, w2)" by fastforce
  have o2: "observing w w2" using observing_trans [OF o1] recover_effect [OF R inv1] by blast
  have inv2: "store_inv (db w2)" using o2 by (simp add: observing_def)
  obtain z w3 where L: "on_db ListAll w2 = (z, w3)" by fastforce
  note l = list_observing [OF L inv2]
  have o3: "observing w w3" using observing_trans [OF o2] l by blast
  have inv3: "store_inv (db w3)" using o3 by (simp add: observing_def)
  consider e where "x = Inl e" | e where "x = Inr ()" "y = Inl e" | e where "x = Inr ()" "y = Inr ()" "z = Inl e"
    | ds where "x = Inr ()" "y = Inr ()" "z = Inr ds"
    by (cases x; cases y; cases z) auto
  then show ?thesis
  proof cases
    case 1
    with assms(1) A O R L have "r = Inl e" "w' = w1" by (simp_all add: runDeploy_def)
    with o1 show ?thesis by blast
  next
    case 2
    with assms(1) A O R L have "r = Inl e" "w' = w2" by (simp_all add: runDeploy_def)
    with o2 show ?thesis by blast
  next
    case 3
    with assms(1) A O R L have "r = Inl e" "w' = w3" by (simp_all add: runDeploy_def)
    with o3 show ?thesis by blast
  next
    case 4
    have "(observing w3 w' \<and> (\<exists>e. r = Inl e)) \<or> goes_on h deps rep ref w3 r w'"
      by (rule after_list [where ds = ds]) (use assms(1) A O R L 4 inv3 l in \<open>simp_all add: runDeploy_def\<close>)
    then show ?thesis using observing_trans [OF o3] goes_on_observing [OF o3] A(1) by blast
  qed
qed

section \<open>A world to deploy in\<close>

text \<open>A runtime that serves one deployment, a host that launches process 7, and a requested record.\<close>

definition demo_runtime :: "string \<Rightarrow> string \<Rightarrow> service" where
  "demo_runtime base i n q =
     (let ok = (\<lambda>b. Inr \<lparr>s_status = 200, s_body = b\<rparr>) in
      if q_url q = base @ ''/health'' then ok (Inl (Opaque ''EOF''))
      else if q_url q = base @ ''/v1/models''
      then ok (Inr (Inr (JObj [(''data'', JArr [JObj [(''id'', JStr i)]])])))
      else ok (Inr (Inr (JObj [(''choices'', JArr [JObj [(''message'', JObj [(''content'', JStr ''pong'')])]])]))))"

definition demo_hub :: service where
  "demo_hub n q = Inr \<lparr>s_status = 200, s_body = Inr (Inr (JObj
     [(''id'', JStr ''o/m''), (''sha'', JStr ''0123456789abcdef0123456789abcdef01234567'')]))\<rparr>"

definition demo_catalog :: string where
  "demo_catalog = ''qwen3.6-35b-a3b''"

definition demo_deps :: "string \<Rightarrow> string \<Rightarrow> deploy_deps" where
  "demo_deps base i = (defaultDeployDeps demo_env sample_probes demo_hub (demo_runtime base i))
     \<lparr>dd_vllm_cmd := (\<lambda>spec. (''vllm'', [''serve'']))\<rparr>"

definition demo_host :: "int result \<Rightarrow> host" where
  "demo_host started = \<lparr>h_lookpath = (\<lambda>n b. Inr b), h_free = (\<lambda>n p. True),
     h_launch = \<lparr>l_mkdir = None, l_chmod = None, l_pipe = None, l_executable = None, l_helper = None, l_start = started\<rparr>,
     h_id_bytes = [1], h_key_bytes = [2], h_api_bytes = [3]\<rparr>"

definition demo_spec :: deploy_spec where
  "demo_spec = \<lparr>ds_id = ''m-1'', ds_alias = ''m'', ds_artifact = ''o/m'', ds_revision = ''sha'', ds_port = 9,
     ds_max_model_len = 0, ds_api_key = [], ds_cache_dir = ''/h/.iold/models/m-1'', ds_quantization = [],
     ds_min_driver = 0, ds_min_compute = 0, ds_min_vram = 0, ds_min_disk = 0\<rparr>"

definition demo_requested :: deployment where
  "demo_requested = demo_owner\<lparr>d_phase := PhaseRequested, d_created_at := 10 ^ 9, d_updated_at := 10 ^ 9\<rparr>"

definition demo_start :: world where
  "demo_start = demo_world [demo_requested] demo_steady"

lemma demo_start_inv: "store_inv (db demo_start)"
  by code_simp

lemma demo_clean: "faults (db demo_start) = []" "phase_at (db demo_start) ''m-1'' = Some PhaseRequested" "d_id demo_requested = ''m-1''"
  by code_simp+

lemma demo_served: "\<exists>w'. executeDeploy (demo_host (Inr 7)) (demo_deps ''http://127.0.0.1:9'' ''m-1'') demo_requested demo_spec demo_start = Some (Inr (), w')"
proof -
  have "case executeDeploy (demo_host (Inr 7)) (demo_deps ''http://127.0.0.1:9'' ''m-1'') demo_requested demo_spec demo_start of Some (Inr u, w) \<Rightarrow> True | _ \<Rightarrow> False"
    by code_simp
  then show ?thesis by (auto split: option.splits prod.splits sum.splits)
qed

lemma demo_refused: "\<exists>e w'. executeDeploy (demo_host (Inl (Opaque ''fork''))) (demo_deps ''http://127.0.0.1:9'' ''m-1'') demo_requested demo_spec demo_start = Some (Inl e, w')"
proof -
  have "case executeDeploy (demo_host (Inl (Opaque ''fork''))) (demo_deps ''http://127.0.0.1:9'' ''m-1'') demo_requested demo_spec demo_start of Some (Inl e, w) \<Rightarrow> True | _ \<Rightarrow> False"
    by code_simp
  then show ?thesis by (auto split: option.splits prod.splits sum.splits)
qed

section \<open>The properties of the command\<close>

text \<open>
  C2. A deployment is reported as served only when it was observed to serve: the record then names, in phase
  UNREGISTERED_HEALTHY, the process this run launched, with its port, command line and start identity; no
  process was signalled; and during the run the process was seen with that identity, then the health check
  was answered, then the model list contained the deployment's name under the key that was written for it
  and an inference returned content.
\<close>

theorem deploy_success_observed:
  assumes "executeDeploy h deps d spec w = Some (Inr (), w')" "store_inv (db w)" "launch_pids_ok h"
  shows "\<exists>p rec n m. l_start (h_launch h) = Inr (pr_pid p) \<and> deployments (db w') (d_id d) = Some rec \<and>
     d_phase rec = PhaseUnregisteredHealthy \<and> d_port rec = ds_port spec \<and> deploymentProcess rec = p\<lparr>pr_log_path := []\<rparr> \<and>
     signals (osy w') = signals (osy w) \<and> tick (osy w) \<le> n \<and> n < m \<and> m + 1 < tick (osy w') \<and>
     identity_seen p (osy w) n \<and> healthy_at deps (dd_base_url deps (ds_port spec)) n \<and>
     lists_model deps (dd_base_url deps (ds_port spec)) (keyed h spec) m \<and>
     infers deps (dd_base_url deps (ds_port spec)) (keyed h spec) (m + 1)"
proof -
  obtain p where p: "launched h p" "runs_process p (ds_port spec) (d_id d) PhaseUnregisteredHealthy w'"
    "signals (osy w') = signals (osy w)" "observed_serving deps (keyed h spec) p (osy w) (osy w')"
    using execute_outcome [OF assms] by blast
  have port: "ds_port (keyed h spec) = ds_port spec" by (simp add: keyed_def)
  obtain rec where rec: "deployments (db w') (d_id d) = Some rec" "d_phase rec = PhaseUnregisteredHealthy"
    "d_port rec = ds_port spec" "deploymentProcess rec = p\<lparr>pr_log_path := []\<rparr>"
    using p(2) unfolding runs_process_def by blast
  have start: "l_start (h_launch h) = Inr (pr_pid p)" using p(1) by (simp add: launched_def)
  obtain n m where o: "tick (osy w) \<le> n" "n < m" "m + 1 < tick (osy w')" "identity_seen p (osy w) n"
    "healthy_at deps (dd_base_url deps (ds_port spec)) n"
    "lists_model deps (dd_base_url deps (ds_port spec)) (keyed h spec) m"
    "infers deps (dd_base_url deps (ds_port spec)) (keyed h spec) (m + 1)"
    using p(4) unfolding observed_serving_def port by blast
  show ?thesis
    by (rule exI [of _ p], rule exI [of _ rec], rule exI [of _ n], rule exI [of _ m]) (use start rec p(3) o in \<open>intro conjI\<close>)
qed

theorem deploy_success_observed_witness:
  "\<exists>w' p n. executeDeploy (demo_host (Inr 7)) (demo_deps ''http://127.0.0.1:9'' ''m-1'') demo_requested demo_spec demo_start = Some (Inr (), w') \<and>
     phase_at (db w') ''m-1'' = Some PhaseUnregisteredHealthy \<and> pr_pid p = 7 \<and> identity_seen p demo_steady n"
proof -
  obtain w' where run: "executeDeploy (demo_host (Inr 7)) (demo_deps ''http://127.0.0.1:9'' ''m-1'') demo_requested demo_spec demo_start = Some (Inr (), w')"
    using demo_served by blast
  have ok: "launch_pids_ok (demo_host (Inr 7))" by (simp add: launch_pids_ok_def demo_host_def)
  have inv: "store_inv (db w')" using execute_outcome [OF run demo_start_inv ok] outcome_inv by blast
  from deploy_success_observed [OF run demo_start_inv ok]
  obtain p rec n where p: "l_start (h_launch (demo_host (Inr 7))) = Inr (pr_pid p)" "identity_seen p (osy demo_start) n"
    and rec: "deployments (db w') (d_id demo_requested) = Some rec" "d_phase rec = PhaseUnregisteredHealthy" by blast
  have "phase_at (db w') ''m-1'' = Some PhaseUnregisteredHealthy"
    using deployments_phase(1) [OF inv rec(1)] rec(2) demo_clean(3) by simp
  moreover have "pr_pid p = 7" using p(1) by (simp add: demo_host_def)
  moreover have "identity_seen p demo_steady n" using p(2) by (simp add: demo_start_def demo_world_def)
  ultimately show ?thesis using run by blast
qed



text \<open>
  C18. The command returns: with a positive polling interval, as the defaults have it, the waits for health and
  readiness end by their deadlines, whatever the services and the system answer.
\<close>

theorem deploy_returns:
  assumes "0 < dd_poll deps"
  shows "\<exists>r w'. runDeploy h deps args w = Some (r, w')"
  using run_returns [OF assms, of h args w] by force

theorem deploy_returns_witness:
  "\<exists>r w'. runDeploy (demo_host (Inr 7)) (defaultDeployDeps demo_env sample_probes demo_hub (demo_runtime [] [])) [''m''] demo_start = Some (r, w')"
  by (rule deploy_returns) (simp add: defaultDeployDeps_def)


lemma demo_replaces:
  "\<exists>w'. runDeploy (demo_host (Inr 7)) (demo_deps ''http://127.0.0.1:8000'' demo_catalog) [demo_catalog, ''--replace''] demo_start =
     Some (Inr (), w')"
proof -
  have "case runDeploy (demo_host (Inr 7)) (demo_deps ''http://127.0.0.1:8000'' demo_catalog) [demo_catalog, ''--replace''] demo_start
    of Some (Inr u, w) \<Rightarrow> True | _ \<Rightarrow> False" by code_simp
  then show ?thesis by (auto split: option.splits prod.splits sum.splits)
qed


section \<open>What a resolved specification is\<close>

lemma revision_shape: "validateRevision v = Inr u \<Longrightarrow> 40 \<le> length v \<and> length v \<le> 64 \<and> list_all hex_char v"
  by (simp add: validateRevision_def revisionPattern_def split: if_splits)

lemma gate_revision: "gate_model deps ref o1 = (Inr (model, cfg, est), o2) \<Longrightarrow> validateRevision (m_sha model) = Inr ()"
  by (auto simp: gate_model_def gate_estimate_def split: sum.splits prod.splits if_splits)

lemma catalog_revision_valid: "catalog_revision deps entry o1 = (Inr v, o2) \<Longrightarrow> validateRevision v = Inr ()"
  by (auto simp: catalog_revision_def split: sum.splits prod.splits if_splits)

lemma catalog_entry: "catalog_Get ref = Inr m \<Longrightarrow> k_alias m = ref \<and> k_artifact m \<noteq> [] \<and> k_default_port m = 8000 \<and> k_max_model_len m = 4096"
  by (auto simp: catalog_Get_def catalog_models_def split: if_splits)

text \<open>
  C12. A specification is well-formed however hostile the reference and the hub: it has a valid id, an immutable
  revision (40 to 64 hexadecimal digits, no branch or tag), the alias the user typed, a port and a context
  length in range, and a model cache that is the directory of its id directly below the cache root; and no
  specification exists for a reference that is neither in the catalog nor of the form of a hub id.
\<close>

theorem resolved_spec_typed:
  assumes "resolveSpec env h deps ref o1 = (Inr spec, o2)" "env_ok env"
  shows "validateID (ds_id spec) = Inr () \<and> ds_alias spec = ref \<and>
    40 \<le> length (ds_revision spec) \<and> length (ds_revision spec) \<le> 64 \<and> list_all hex_char (ds_revision spec) \<and>
    0 < ds_port spec \<and> ds_port spec < 65536 \<and> 0 < ds_max_model_len spec \<and> ds_max_model_len spec \<le> 4096 \<and>
    (\<exists>root. Abs env (modelCacheDir env) = Inr root \<and> clean_parts (ds_cache_dir spec) = clean_parts root @ [ds_id spec]) \<and>
    ((\<exists>m. catalog_Get ref = Inr m \<and> ds_id spec = ref \<and> ds_artifact spec = k_artifact m) \<or> CHR ''/'' \<in> set ref \<and> ds_artifact spec = ref)"
proof -
  have cache: "validateID i = Inr () \<and> (\<exists>root. Abs env (modelCacheDir env) = Inr root \<and> clean_parts p = clean_parts root @ [i])"
    if "deploymentModelCacheDir env i = Inr p" for i p
    using cache_dir_cases [OF assms(2) that] by metis
  show ?thesis
  proof (cases "catalog_Get ref")
    case (Inr m)
    then have R: "resolve_catalog env deps m o1 = (Inr spec, o2)" using assms(1) by (simp add: resolveSpec_def)
    then obtain v oa p where v: "catalog_revision deps m o1 = (Inr v, oa)" "deploymentModelCacheDir env (k_alias m) = Inr p"
      by (auto simp: resolve_catalog_def split: sum.splits prod.splits)
    with R have "ds_id spec = k_alias m \<and> ds_alias spec = k_alias m \<and> ds_artifact spec = k_artifact m \<and> ds_revision spec = v \<and>
        ds_port spec = k_default_port m \<and> ds_max_model_len spec = k_max_model_len m \<and> ds_cache_dir spec = p"
      by (auto simp: resolve_catalog_def)
    then show ?thesis
      using Inr catalog_entry [OF Inr] cache [OF v(2)] revision_shape [OF catalog_revision_valid [OF v(1)]] by simp
  next
    case (Inl e)
    then obtain model cfg est oa p where g: "gate_model deps ref o1 = (Inr (model, cfg, est), oa)" "sep \<in> set ref"
        "deploymentModelCacheDir env (deploymentID (h_id_bytes h) ref) = Inr p"
      and s: "ds_id spec = deploymentID (h_id_bytes h) ref" "ds_alias spec = ref" "ds_artifact spec = ref" "ds_revision spec = m_sha model"
        "ds_port spec = 8000" "ds_cache_dir spec = p" "ds_max_model_len spec =
          (if max_position_embeddings cfg > 0 \<and> max_position_embeddings cfg < DefaultContextTokens then max_position_embeddings cfg else DefaultContextTokens)"
      using assms(1) by (auto simp: resolveSpec_def Let_def split: sum.splits prod.splits if_splits)
    have "0 < ds_max_model_len spec \<and> ds_max_model_len spec \<le> 4096" using s(7) by (simp add: DefaultContextTokens_def)
    then show ?thesis using s(1-6) g(2) cache [OF g(3)] revision_shape [OF gate_revision [OF g(1)]] by (simp add: sep_def)
  qed
qed

theorem resolved_spec_typed_witness:
  "\<exists>spec o2. resolveSpec demo_env (demo_host (Inr 7)) (demo_deps ''http://127.0.0.1:8000'' demo_catalog) demo_catalog demo_steady = (Inr spec, o2) \<and>
     validateID (ds_id spec) = Inr () \<and> list_all hex_char (ds_revision spec)"
proof -
  let ?r = "resolveSpec demo_env (demo_host (Inr 7)) (demo_deps ''http://127.0.0.1:8000'' demo_catalog) demo_catalog demo_steady"
  have "case fst ?r of Inr s \<Rightarrow> True | Inl e \<Rightarrow> False" by code_simp
  then obtain spec o2 where r: "?r = (Inr spec, o2)" by (cases ?r) (auto split: sum.splits)
  have "env_ok demo_env" by code_simp
  from resolved_spec_typed [OF r this] r show ?thesis by blast
qed

end
