(* ===== verification/Report.thy ===== *)
theory Report imports DeployTheorems begin

text \<open>
  What \<open>iold status\<close> prints (the end of \<open>runStatus\<close>, internal/cli/cli.go): a table laid
  out by \<open>text/tabwriter\<close>, or the records as indented JSON. Texts are UTF-8; an escape byte (255)
  is never part of one.
\<close>

section \<open>Calendar time\<close>

text \<open>
  The first day of a year and the year of a day, counted from 1970-01-01 in the Gregorian calendar. The first
  guess divides by the mean length of a year and is off by one year at most.
\<close>

definition leaps :: "int \<Rightarrow> int" where
  "leaps y = y div 4 - y div 100 + y div 400"

definition year_start :: "int \<Rightarrow> int" where
  "year_start y = 365 * (y - 1970) + (leaps (y - 1) - leaps 1969)"

definition year_of :: "int \<Rightarrow> int" where
  "year_of day = (let y = 1970 + day * 400 div 146097 in
     if day < year_start y then y - 1 else if day \<ge> year_start (y + 1) then y + 1 else y)"

lemma div_bounds:
  fixes x b :: int
  assumes "0 < b"
  shows "b * (x div b) \<le> x \<and> x < b * (x div b) + b"
proof -
  have "x = b * (x div b) + x mod b" by simp
  moreover have "0 \<le> x mod b" "x mod b < b" using assms by simp_all
  ultimately show ?thesis by linarith
qed

lemma year_start_bounds: "400 * year_start y \<le> 146097 * (y - 1970) + 800" "146097 * (y - 1970) - 800 \<le> 400 * year_start y"
proof -
  define x where "x = y - 1"
  have "4 * (x div 4) \<le> x" "x \<le> 4 * (x div 4) + 3" "100 * (x div 100) \<le> x" "x \<le> 100 * (x div 100) + 99"
    "400 * (x div 400) \<le> x" "x \<le> 400 * (x div 400) + 399"
    using div_bounds [of 4 x] div_bounds [of 100 x] div_bounds [of 400 x] by simp_all
  moreover have "leaps 1969 = 477" by (simp add: leaps_def)
  moreover have "y = x + 1" by (simp add: x_def)
  ultimately show "400 * year_start y \<le> 146097 * (y - 1970) + 800" "146097 * (y - 1970) - 800 \<le> 400 * year_start y"
    unfolding year_start_def leaps_def by simp_all
qed

lemma year_of_correct: "year_start (year_of day) \<le> day \<and> day < year_start (year_of day + 1)"
proof -
  define e where "e = day * 400 div 146097"
  have e: "146097 * e \<le> day * 400" "day * 400 < 146097 * e + 146097"
    using div_bounds [of 146097 "day * 400"] unfolding e_def by simp_all
  have "year_start (1969 + e) \<le> day" using e(1) year_start_bounds(1) [of "1969 + e"] by simp
  moreover have "day < year_start (1972 + e)" using e(2) year_start_bounds(2) [of "1972 + e"] by simp
  ultimately show ?thesis unfolding year_of_def Let_def e_def [symmetric] by (auto simp: algebra_simps)
qed

definition month_lengths :: "int \<Rightarrow> int list" where
  "month_lengths y = [31, year_start (y + 1) - year_start y - 337, 31, 30, 31, 30, 31, 31, 30, 31, 30, 31]"

fun month_day :: "int \<Rightarrow> int list \<Rightarrow> int \<Rightarrow> int \<times> int" where
  "month_day m (n # ns) d = (if d < n then (m, d + 1) else month_day (m + 1) ns (d - n))"
| "month_day m [] d = (m, d + 1)"

text \<open>The month and day of a day of the year: the months before it and the days of its month make it up.\<close>

lemma month_day_correct:
  assumes "month_day m ns d = (m', k)" "0 \<le> d" "d < sum_list ns"
  shows "\<exists>j < length ns. m' = m + int j \<and> 1 \<le> k \<and> k \<le> ns ! j \<and> d = sum_list (take j ns) + k - 1"
  using assms
proof (induction m ns d rule: month_day.induct)
  case (1 m n ns d)
  show ?case
  proof (cases "d < n")
    case True
    with 1 show ?thesis by (intro exI [of _ 0]) auto
  next
    case False
    with 1 obtain j where "j < length ns" "m' = m + 1 + int j" "1 \<le> k" "k \<le> ns ! j" "d - n = sum_list (take j ns) + k - 1"
      by auto
    then show ?thesis by (intro exI [of _ "Suc j"]) auto
  qed
qed simp

lemma month_lengths_sum: "sum_list (month_lengths y) = year_start (y + 1) - year_start y"
  by (simp add: month_lengths_def)

definition zeros :: "nat \<Rightarrow> int \<Rightarrow> string" where
  "zeros n i = (let t = itoa \<bar>i\<bar> in (if i < 0 then ''-'' else []) @ replicate (n - length t) CHR ''0'' @ t)"

definition date_text :: "int \<Rightarrow> string" where
  "date_text day = (let y = year_of day; md = month_day 1 (month_lengths y) (day - year_start y)
     in zeros 4 y @ ''-'' @ zeros 2 (fst md) @ ''-'' @ zeros 2 (snd md))"

text \<open>The fraction of RFC3339Nano, without its trailing zeros.\<close>

definition fraction_text :: "int \<Rightarrow> string" where
  "fraction_text ns = (if ns = 0 then [] else CHR ''.'' # trim_right (\<lambda>c. c = CHR ''0'') (zeros 9 ns))"

definition clock_text :: "int \<Rightarrow> string" where
  "clock_text s = zeros 2 (s div 3600) @ '':'' @ zeros 2 (s div 60 mod 60) @ '':'' @ zeros 2 (s mod 60)"

text \<open>\<open>Format\<close> of a time in UTC: without the fraction for RFC3339, with it for RFC3339Nano.\<close>

definition time_text :: "bool \<Rightarrow> gotime \<Rightarrow> string" where
  "time_text nano t = (let s = t div 10 ^ 9
     in date_text (s div 86400) @ ''T'' @ clock_text (s mod 86400) @
        (if nano then fraction_text (t mod 10 ^ 9) else []) @ ''Z'')"

section \<open>text/tabwriter\<close>

text \<open>\<open>utf8.RuneCount\<close> of a UTF-8 text: the bytes that do not continue a character.\<close>

definition rune_count :: "string \<Rightarrow> nat" where
  "rune_count s = length (filter (\<lambda>c. of_char c < (128 :: nat) \<or> of_char c \<ge> (192 :: nat)) s)"

text \<open>
  The cells of a line end at each tab; what follows the last tab is in no column. A column block is a run of
  lines that have a cell in the column; it is as wide as its widest cell and the padding.
\<close>

definition line_cells :: "string \<Rightarrow> string list" where
  "line_cells l = split_on CHR 0x09 (map (\<lambda>c. if c = CHR 0x0B then CHR 0x09 else c) l)"

fun put_cells :: "nat list \<Rightarrow> string list \<Rightarrow> string" where
  "put_cells (w # ws) (c # cs) = c @ replicate (w - rune_count c) CHR '' '' @ put_cells ws cs"
| "put_cells [] (c # cs) = c @ put_cells [] cs"
| "put_cells ws [] = []"

definition column_width :: "nat \<Rightarrow> nat \<Rightarrow> string list list \<Rightarrow> nat" where
  "column_width padding k ls = foldr (\<lambda>l w. max (rune_count (l ! k) + padding) w) ls 0"

function tab_format :: "nat \<Rightarrow> nat list \<Rightarrow> string list list \<Rightarrow> string list" where
  "tab_format padding ws [] = []"
| "tab_format padding ws (l # ls) =
     (if length l \<le> length ws + 1 then put_cells ws l # tab_format padding ws ls
      else (let more = (\<lambda>x. length x > length ws + 1); block = l # takeWhile more ls
            in tab_format padding (ws @ [column_width padding (length ws) block]) block @
               tab_format padding ws (dropWhile more ls)))"
  by pat_completeness auto

lemma block_measure: "list_all (\<lambda>x. length x > Suc n) b \<Longrightarrow> b \<noteq> [] \<Longrightarrow>
    (\<Sum>l\<leftarrow>b. Suc (length l - Suc n)) < (\<Sum>l\<leftarrow>b. Suc (length l - n))"
proof (induction b)
  case (Cons x b)
  then show ?case by (cases b) auto
qed simp

lemma take_measure: "(\<Sum>l\<leftarrow>takeWhile P ls. f l) \<le> (\<Sum>l\<leftarrow>ls. f l :: nat)"
  by (induction ls) auto

lemma drop_measure: "(\<Sum>l\<leftarrow>dropWhile P ls. f l) \<le> (\<Sum>l\<leftarrow>ls. f l :: nat)"
  by (induction ls) auto

termination tab_format
proof (relation "measure (\<lambda>(p, ws, ls). \<Sum>l\<leftarrow>ls. Suc (length l - length ws))", goal_cases)
  case (3 p ws l ls more block)
  have "list_all (\<lambda>x. length x > Suc (length ws)) block"
    using 3 by (auto simp: list_all_iff dest: set_takeWhileD)
  then have "(\<Sum>l\<leftarrow>block. Suc (length l - Suc (length ws))) < (\<Sum>l\<leftarrow>block. Suc (length l - length ws))"
    using 3 by (intro block_measure) auto
  also have "\<dots> \<le> (\<Sum>l\<leftarrow>l # ls. Suc (length l - length ws))"
    using 3 take_measure [of "\<lambda>l. Suc (length l - length ws)" more ls] by simp
  finally show ?case by simp
next
  case (4 p ws l ls more block)
  then show ?case using drop_measure [of "\<lambda>l. Suc (length l - length ws)" more ls] by simp
qed auto

text \<open>What \<open>Flush\<close> writes: a form feed ends a table, and the next one starts after it.\<close>

definition tab_lines :: "nat \<Rightarrow> string \<Rightarrow> string list" where
  "tab_lines padding text = concat (map (\<lambda>chunk. tab_format padding [] (map line_cells (split_on CHR 0x0A chunk)))
     (split_on CHR 0x0C text))"

section \<open>JSON\<close>

text \<open>
  A JSON string as \<open>encoding/json\<close> writes it: the escapes of \<open>json_char\<close>, and the two Unicode line
  separators, three bytes each, escaped as well.
\<close>

fun json_bytes :: "string \<Rightarrow> string" where
  "json_bytes [] = []"
| "json_bytes [c] = json_char c"
| "json_bytes [b, c] = json_char b @ json_char c"
| "json_bytes (a # b # c # s) =
     (if a = CHR 0xE2 \<and> b = CHR 0x80 \<and> (c = CHR 0xA8 \<or> c = CHR 0xA9)
      then [CHR 0x5C, CHR ''u'', CHR ''2'', CHR ''0'', CHR ''2'', (if c = CHR 0xA8 then CHR ''8'' else CHR ''9'')] @ json_bytes s
      else json_char a @ json_bytes (b # c # s))"

definition json_text :: "string \<Rightarrow> string" where
  "json_text s = [CHR 0x22] @ json_bytes s @ [CHR 0x22]"

text \<open>\<open>Time.MarshalJSON\<close> refuses a year that four digits cannot hold.\<close>

definition json_time :: "gotime \<Rightarrow> string result" where
  "json_time t = (let y = year_of (t div 10 ^ 9 div 86400) in
     if y < 0 \<or> y > 9999
     then Inl (Opaque ''json: error calling MarshalJSON for type time.Time: Time.MarshalJSON: year outside of range [0,9999]'')
     else Inr ([CHR 0x22] @ time_text True t @ [CHR 0x22]))"

text \<open>The members of a record, in the order of the struct's fields, which have no tags.\<close>

definition member :: "string \<Rightarrow> string \<Rightarrow> string" where
  "member name v = json_text name @ '': '' @ v"

definition json_members :: "deployment \<Rightarrow> string list result" where
  "json_members d =
     (case json_time (d_started_at d) of Inl e \<Rightarrow> Inl e
      | Inr started \<Rightarrow>
        (case json_time (d_created_at d) of Inl e \<Rightarrow> Inl e
         | Inr created \<Rightarrow>
           (case json_time (d_updated_at d) of Inl e \<Rightarrow> Inl e
            | Inr updated \<Rightarrow>
              Inr [member ''ID'' (json_text (d_id d)),
                   member ''Alias'' (json_text (d_alias d)),
                   member ''Artifact'' (json_text (d_artifact d)),
                   member ''ArtifactRevision'' (json_text (d_artifact_revision d)),
                   member ''ModelCacheDir'' (json_text (d_model_cache_dir d)),
                   member ''Port'' (itoa (d_port d)),
                   member ''PID'' (itoa (d_pid d)),
                   member ''Command'' (json_text (d_command d)),
                   member ''StartedAt'' started,
                   member ''StartToken'' (json_text (d_start_token d)),
                   member ''Phase'' (json_text (phase_text (d_phase d))),
                   member ''FailureReason'' (json_text (d_failure_reason d)),
                   member ''IdempotencyKey'' (json_text (d_idempotency_key d)),
                   member ''CreatedAt'' created,
                   member ''UpdatedAt'' updated])))"

fun all_members :: "deployment list \<Rightarrow> string list list result" where
  "all_members [] = Inr []"
| "all_members (d # ds) = (case json_members d of Inl e \<Rightarrow> Inl e
     | Inr m \<Rightarrow> (case all_members ds of Inl e \<Rightarrow> Inl e | Inr ms \<Rightarrow> Inr (m # ms)))"

text \<open>The lines between brackets, each but the last followed by a comma, indented by two blanks.\<close>

fun commas :: "string list \<Rightarrow> string list" where
  "commas [] = []"
| "commas [l] = [l]"
| "commas (l # m # ls) = (l @ '','') # commas (m # ls)"

definition object_lines :: "bool \<Rightarrow> string list \<Rightarrow> string list" where
  "object_lines last_one ms = [''  {''] @ map ((@) ''    '') (commas ms) @ [if last_one then ''  }'' else ''  },'']"

fun object_list :: "string list list \<Rightarrow> string list" where
  "object_list [] = []"
| "object_list [m] = object_lines True m"
| "object_list (m # n # ms) = object_lines False m @ object_list (n # ms)"

text \<open>\<open>Encode\<close> with the indent of two blanks; an empty slice has no line between its brackets.\<close>

definition json_lines :: "deployment list \<Rightarrow> string list result" where
  "json_lines ds = (case all_members ds of Inl e \<Rightarrow> Inl e
     | Inr [] \<Rightarrow> Inr [''[]'']
     | Inr (m # ms) \<Rightarrow> Inr ([''[''] @ object_list (m # ms) @ ['']'']))"

section \<open>Printing the status\<close>

definition status_header :: string where
  "status_header = join_with [CHR 0x09] [''ID'', ''ALIAS'', ''PHASE'', ''PORT'', ''PID'', ''UPDATED''] @ [CHR 0x0A]"

definition status_detail :: "deployment \<Rightarrow> string" where
  "status_detail d = phase_text (d_phase d) @
     (if d_failure_reason d \<noteq> [] then '' ('' @ d_failure_reason d @ '')'' else [])"

definition status_cells :: "deployment \<Rightarrow> string list" where
  "status_cells d = [d_id d, d_alias d, status_detail d, itoa (d_port d), itoa (d_pid d), time_text False (d_updated_at d)]"

definition status_table :: "deployment list \<Rightarrow> string list" where
  "status_table ds = butlast (tab_lines 2 (status_header @
     concat (map (\<lambda>d. join_with [CHR 0x09] (status_cells d) @ [CHR 0x0A]) ds)))"

text \<open>
  Lines written to standard output one after the other: \<open>broken\<close> is the error of a write after so
  many lines.
\<close>

fun write_lines :: "(nat \<Rightarrow> goerr option) \<Rightarrow> string list \<Rightarrow> world \<Rightarrow> unit result \<times> world" where
  "write_lines broken [] w = (Inr (), w)"
| "write_lines broken (l # ls) w = (case broken (length (out w)) of
     Some e \<Rightarrow> (Inl e, w) | None \<Rightarrow> write_lines broken ls (say l w))"

definition print_status :: "(nat \<Rightarrow> goerr option) \<Rightarrow> bool \<Rightarrow> deployment list \<Rightarrow> world \<Rightarrow> unit result \<times> world" where
  "print_status broken asJSON ds w =
     (if asJSON then (case json_lines ds of Inl e \<Rightarrow> (Inl e, w) | Inr ls \<Rightarrow> write_lines broken ls w)
      else if ds = [] then (Inr (), say ''No deployments. Run `iold deploy <catalog-model>` to create one.'' w)
      else write_lines broken (status_table ds) w)"

definition status_command :: "(nat \<Rightarrow> goerr option) \<Rightarrow> string list \<Rightarrow> world \<Rightarrow> unit result \<times> world" where
  "status_command broken args w =
     (case runStatus args w of
        (Inl e, w1) \<Rightarrow> (Inl e, w1)
      | (Inr ds, w1) \<Rightarrow> print_status broken (case status_args [] False args of Inr (i, j) \<Rightarrow> j | Inl e \<Rightarrow> False) ds w1)"

section \<open>The table reads back\<close>

lemma uniform_table:
  assumes "\<forall>l\<in>set ls. length l = Suc n" "length ws \<le> n"
  shows "tab_format p ws ls = map (put_cells (ws @ map (\<lambda>k. column_width p k ls) [length ws..<n])) ls"
  using assms
proof (induction "n - length ws" arbitrary: ws ls)
  case 0
  then have "length ws = n" by simp
  with 0(2) show ?case by (induction ls) simp_all
next
  case (Suc m)
  show ?case
  proof (cases ls)
    case (Cons l r)
    have lt: "length ws < n" using Suc by simp
    have all: "takeWhile (\<lambda>x. length ws + 1 < length x) r = r" "dropWhile (\<lambda>x. length ws + 1 < length x) r = []"
      using Suc.prems(1) lt Cons by simp_all
    have "tab_format p ws ls = tab_format p (ws @ [column_width p (length ws) ls]) ls"
      using Suc.prems(1) lt all unfolding Cons
      by (subst tab_format.simps) (simp only: all Let_def tab_format.simps(1), simp)
    also have "\<dots> = map (put_cells ((ws @ [column_width p (length ws) ls]) @
        map (\<lambda>k. column_width p k ls) [length (ws @ [column_width p (length ws) ls])..<n])) ls"
      using Suc lt by (intro Suc.hyps(1)) simp_all
    finally show ?thesis using lt by (simp add: upt_conv_Cons)
  qed simp
qed

text \<open>Reading a line by the widths of the columns.\<close>

fun read_cells :: "nat list \<Rightarrow> string \<Rightarrow> string list" where
  "read_cells [] t = [t]"
| "read_cells (w # ws) t = trim_right (\<lambda>c. c = CHR '' '') (take w t) # read_cells ws (drop w t)"

definition cell_ok :: "string \<Rightarrow> bool" where
  "cell_ok t = (list_all (\<lambda>c. 32 \<le> (of_char c :: nat) \<and> of_char c < (127 :: nat)) t \<and> (t = [] \<or> last t \<noteq> CHR '' ''))"

lemma cell_runes: "cell_ok t \<Longrightarrow> rune_count t = length t"
proof -
  assume "cell_ok t"
  then have "filter (\<lambda>c. of_char c < (128 :: nat) \<or> of_char c \<ge> (192 :: nat)) t = t"
    by (intro filter_True) (auto simp: cell_ok_def list_all_iff dest!: bspec)
  then show ?thesis by (simp add: rune_count_def)
qed

lemma trim_blanks: "cell_ok t \<Longrightarrow> trim_right (\<lambda>c. c = CHR '' '') (t @ replicate n CHR '' '') = t"
proof -
  assume t: "cell_ok t"
  have "dropWhile (\<lambda>c. c = CHR '' '') (rev t) = rev t"
    using t by (cases t rule: rev_cases) (auto simp: cell_ok_def)
  moreover have "dropWhile P (replicate n x @ r) = dropWhile P r" if "P x" for P and x :: char and r
    using that by (induction n) simp_all
  ultimately show ?thesis by (simp add: trim_right_def)
qed

lemma read_put:
  assumes "length cs = Suc (length ws)" "list_all cell_ok cs" "\<forall>k<length ws. rune_count (cs ! k) \<le> ws ! k"
  shows "read_cells ws (put_cells ws cs) = cs"
  using assms
proof (induction ws arbitrary: cs)
  case Nil
  then show ?case by (cases cs) (auto simp: length_Suc_conv)
next
  case (Cons w ws)
  then obtain c r where cs: "cs = c # r" by (cases cs) auto
  have c: "cell_ok c" "length c \<le> w" using Cons.prems cs cell_runes [of c] by (auto dest: spec [of _ 0])
  have "read_cells ws (put_cells ws r) = r"
    using Cons.prems cs by (intro Cons.IH) (auto dest: spec [of _ "Suc _"])
  then show ?case using c by (simp add: cs cell_runes trim_blanks)
qed

lemma column_width_ge: "l \<in> set ls \<Longrightarrow> rune_count (l ! k) + p \<le> column_width p k ls"
  by (induction ls) (auto simp: column_width_def)

text \<open>A cell has no byte that ends a cell, a line or a table.\<close>

lemma cell_bytes: "cell_ok t \<Longrightarrow> c \<in> set t \<Longrightarrow> c \<noteq> CHR 0x09 \<and> c \<noteq> CHR 0x0A \<and> c \<noteq> CHR 0x0B \<and> c \<noteq> CHR 0x0C"
proof -
  assume "cell_ok t" "c \<in> set t"
  then have "(32 :: nat) \<le> of_char c" by (auto simp: cell_ok_def list_all_iff)
  then show ?thesis by auto
qed

lemma join_bytes: "c \<in> set (join_with s ts) \<Longrightarrow> c \<in> set s \<or> (\<exists>t\<in>set ts. c \<in> set t)"
  by (induction s ts rule: join_with.induct) auto

lemma line_bytes:
  assumes "list_all cell_ok cs" "c \<in> set (join_with [CHR 0x09] cs)"
  shows "c \<noteq> CHR 0x0A \<and> c \<noteq> CHR 0x0B \<and> c \<noteq> CHR 0x0C"
  using join_bytes [OF assms(2)] assms(1) cell_bytes by (auto simp: list_all_iff)

lemma line_cells_join:
  assumes "cs \<noteq> []" "list_all cell_ok cs"
  shows "line_cells (join_with [CHR 0x09] cs) = cs"
proof -
  have "map (\<lambda>c. if c = CHR 0x0B then CHR 0x09 else c) (join_with [CHR 0x09] cs) = join_with [CHR 0x09] cs"
    using line_bytes [OF assms(2)] by (intro map_idI) auto
  moreover have "list_all (\<lambda>w. CHR 0x09 \<notin> set w) cs" using assms(2) cell_bytes by (auto simp: list_all_iff)
  ultimately show ?thesis using split_on_join [OF assms(1)] by (simp add: line_cells_def)
qed

lemma tab_lines_cells:
  assumes "\<forall>cs\<in>set ls. cs \<noteq> [] \<and> list_all cell_ok cs"
  shows "tab_lines p (concat (map (\<lambda>cs. join_with [CHR 0x09] cs @ [CHR 0x0A]) ls)) = tab_format p [] (ls @ [[[]]])"
proof -
  define whole where "whole = concat (map (\<lambda>cs. join_with [CHR 0x09] cs @ [CHR 0x0A]) ls)"
  have ff: "CHR 0x0C \<notin> set whole"
    using assms line_bytes by (auto simp: whole_def)
  have "split_on CHR 0x0A whole = map (join_with [CHR 0x09]) ls @ [[]]"
    unfolding whole_def using assms
  proof (induction ls)
    case (Cons cs ls)
    have "CHR 0x0A \<notin> set (join_with [CHR 0x09] cs)" using Cons.prems line_bytes by auto
    with Cons show ?case by (simp add: split_on_append split_on_no_sep)
  qed simp
  moreover have "map (line_cells \<circ> join_with [CHR 0x09]) ls = ls"
    using assms by (intro map_idI) (auto simp: line_cells_join)
  moreover have "line_cells [] = [[]]" by (simp add: line_cells_def)
  ultimately show ?thesis using split_on_no_sep [OF ff] by (simp add: tab_lines_def whole_def)
qed

lemma tab_format_last:
  assumes "\<forall>l\<in>set ls. length l = Suc n" "0 < n"
  shows "tab_format p [] (ls @ [[[]]]) = tab_format p [] ls @ [[]]"
proof (cases ls)
  case (Cons l r)
  have all: "takeWhile (\<lambda>x. 0 + 1 < length x) (r @ [[[]]]) = r" "dropWhile (\<lambda>x. 0 + 1 < length x) (r @ [[[]]]) = [[[]]]"
    "takeWhile (\<lambda>x. 0 + 1 < length x) r = r" "dropWhile (\<lambda>x. 0 + 1 < length x) r = []"
    using assms Cons by (simp_all add: takeWhile_append2 dropWhile_append2 takeWhile_tail dropWhile_append)
  have l: "\<not> length l \<le> 0 + 1" using assms Cons by simp
  have "tab_format p [] ((l # r) @ [[[]]]) = tab_format p [column_width p 0 (l # r)] (l # r) @ tab_format p [] [[[]]]"
    unfolding append.simps by (subst tab_format.simps) (simp only: all l Let_def if_False list.size(3) append_Nil)
  moreover have "tab_format p [] (l # r) = tab_format p [column_width p 0 (l # r)] (l # r)"
    by (subst (1) tab_format.simps) (simp only: all l Let_def if_False list.size(3) append_Nil append_Nil2 tab_format.simps(1))
  ultimately show ?thesis by (simp add: Cons)
qed simp

lemma aligned_table:
  fixes p :: nat
  assumes "\<forall>cs\<in>set ls. length cs = Suc n \<and> list_all cell_ok cs" "0 < n"
  defines "ws \<equiv> map (\<lambda>k. column_width p k ls) [0..<n]"
  shows "butlast (tab_lines p (concat (map (\<lambda>cs. join_with [CHR 0x09] cs @ [CHR 0x0A]) ls))) = map (put_cells ws) ls"
    and "map (read_cells ws) (map (put_cells ws) ls) = ls"
proof -
  have "\<forall>cs\<in>set ls. cs \<noteq> [] \<and> list_all cell_ok cs" using assms(1) by auto
  from tab_lines_cells [OF this, of p] show "butlast (tab_lines p (concat (map (\<lambda>cs. join_with [CHR 0x09] cs @ [CHR 0x0A]) ls))) = map (put_cells ws) ls"
    using assms(1) uniform_table [of ls n "[]" p] tab_format_last [OF _ assms(2), of ls p] by (simp add: ws_def)
  have "read_cells ws (put_cells ws cs) = cs" if "cs \<in> set ls" for cs
    using that assms(1) column_width_ge [OF that, of _ p]
    by (intro read_put) (auto simp: ws_def intro: add_leD1)
  then show "map (read_cells ws) (map (put_cells ws) ls) = ls" by (simp add: map_idI)
qed

section \<open>What status reports\<close>

text \<open>Recovery prints nothing.\<close>

lemma recover_loop_out: "out (snd (recover_loop ds w)) = out w"
proof (induction ds arbitrary: w)
  case (Cons d ds)
  have t: "out (snd (transition i p q why v)) = out v" for i p q why v
    by (simp add: transition_def on_db_def split: prod.split)
  have a: "out (snd (adopt d w)) = out w"
    by (auto simp: adopt_def on_os_def on_db_def split: prod.split sum.split list.split)
  have s: "out (snd (settle e v)) = out v" for e v
    by (auto simp: settle_def on_os_def t split: prod.split status.split)
  show ?case
    using a s Cons by (auto split: prod.split sum.split) (metis snd_conv)+
qed simp

lemma recover_out:
  assumes "recoverInterruptedDeployments w = (r, w')"
  shows "out w' = out w"
proof -
  obtain q w1 where 1: "on_db ListAll w = (q, w1)" by fastforce
  then have "out w1 = out w" by (auto simp: on_db_eq)
  moreover have "w' = w1 \<or> (\<exists>ds. recover_loop ds w1 = (r, w'))"
    using assms 1 by (auto simp: recoverInterruptedDeployments_def split: sum.splits)
  ultimately show ?thesis using recover_loop_out [of _ w1] by (metis snd_conv)
qed

text \<open>The records the arguments name: all of them, or the one with the given id.\<close>

definition named_records :: "string list \<Rightarrow> world \<Rightarrow> deployment list \<Rightarrow> bool" where
  "named_records args w ds = (distinct (map d_id ds) \<and>
     (if \<forall>a\<in>set args. a = ''--json'' \<or> a = [] then \<forall>d. d \<in> set ds \<longleftrightarrow> deployments (db w) (d_id d) = Some d
      else \<exists>i d. i \<in> set args \<and> i \<noteq> ''--json'' \<and> ds = [d] \<and> d_id d = i \<and> deployments (db w) i = Some d))"

lemma named_records_out: "named_records args (w\<lparr>out := x\<rparr>) ds = named_records args w ds"
proof -
  have "db (w\<lparr>out := x\<rparr>) = db w" by simp
  then show ?thesis unfolding named_records_def by (rule arg_cong)
qed

lemma status_args_id:
  assumes "status_args i j args = Inr (k, js)"
  shows "(k = [] \<longleftrightarrow> i = [] \<and> (\<forall>a\<in>set args. a = ''--json'' \<or> a = [])) \<and>
    (i \<noteq> [] \<longrightarrow> k = i) \<and> (i = [] \<and> k \<noteq> [] \<longrightarrow> k \<in> set args \<and> k \<noteq> ''--json'') \<and> (js \<longleftrightarrow> j \<or> ''--json'' \<in> set args)"
  using assms by (induction i j args rule: status_args.induct) (auto split: if_splits)

lemma runStatus_effect:
  assumes "runStatus args w = (r, w')" "store_inv (db w)"
  shows "observing w w' \<and> out w' = out w \<and> (\<forall>ds. r = Inr ds \<longrightarrow> named_records args w' ds)"
proof -
  have same: ?thesis if "w' = w" "\<exists>e. r = Inl e" using that assms(2) by (auto simp: observing_def)
  show ?thesis
  proof (cases "(\<exists>e. status_args [] False args = Inl e) \<or> lock_err w \<noteq> None \<and> \<not> errors_is ErrBusy (the (lock_err w))")
    case True
    with assms(1) show ?thesis by (intro same) (auto simp: runStatus_def split: sum.splits if_splits prod.splits)
  next
    case False
    then obtain i js where a: "status_args [] False args = Inr (i, js)"
      and l: "\<not> (lock_err w \<noteq> None \<and> \<not> errors_is ErrBusy (the (lock_err w)))" by (metis obj_sumE surj_pair)
    obtain x w1 where O: "open_state w = (x, w1)" by fastforce
    note o1 = open_observing [OF O assms(2)]
    have out1: "out w1 = out w" using O by (auto simp: open_state_def on_db_eq split: option.splits)
    obtain y w2 where R: "(if lock_err w = None then recoverInterruptedDeployments w1 else (Inr (), w1)) = (y, w2)" by fastforce
    have inv1: "store_inv (db w1)" using o1 by (simp add: observing_def)
    have o2: "observing w1 w2" "out w2 = out w1"
      using R recover_effect [OF _ inv1] recover_out inv1 by (auto simp: observing_def split: if_splits)
    have inv2: "store_inv (db w2)" using o2 by (simp add: observing_def)
    obtain z w3 where G: "(if i \<noteq> [] then case on_db (Get i) w2 of (Inl e, w3) \<Rightarrow> (Inl e, w3) | (Inr d, w3) \<Rightarrow> (Inr [d], w3)
        else on_db ListAll w2) = (z, w3)" by fastforce
    have o3: "observing w2 w3 \<and> out w3 = out w2 \<and> (\<forall>ds. z = Inr ds \<longrightarrow> named_records args w3 ds)"
    proof (cases "i = []")
      case True
      with G have L: "on_db ListAll w2 = (z, w3)" by simp
      obtain s where S: "ListAll (db w2) = (z, s)" "w3 = w2\<lparr>db := s\<rparr>" using L by (auto simp: on_db_eq)
      have "distinct (map d_id ds)" if "z = Inr ds" for ds using ListAll_result [OF inv2 S(1) [unfolded that]] by simp
      moreover have "\<forall>a\<in>set args. a = ''--json'' \<or> a = []" using status_args_id [OF a] True by simp
      ultimately show ?thesis using list_observing [OF L inv2] S(2) by (simp add: named_records_def)
    next
      case False
      obtain q s where S: "Get i (db w2) = (q, s)" by fastforce
      have w3: "w3 = w2\<lparr>db := s\<rparr>" "z = (case q of Inl e \<Rightarrow> Inl e | Inr d \<Rightarrow> Inr [d])"
        using G False S by (auto simp: on_db_def split: sum.splits)
      have sd: "same_data (db w2) s" using Get_effect [OF S] .
      have dep: "deployments s = deployments (db w2)" using same_data_rows(1) [OF sd] by (simp add: deployments_def fun_eq_iff)
      have "i \<in> set args \<and> i \<noteq> ''--json''" "\<not> (\<forall>a\<in>set args. a = ''--json'' \<or> a = [])" using status_args_id [OF a] False by auto
      moreover have "deployments s i = Some d \<and> d_id d = i" if "q = Inr d" for d
        using Get_found [OF inv2 S [unfolded that]] deployments_phase(2) [OF inv2] dep by simp
      ultimately show ?thesis using w3 inv2 store_inv_data [OF sd] by (auto simp: observing_def named_records_def split: sum.splits)
    qed
    have "(w' = w1 \<or> w' = w2) \<and> (\<exists>e. r = Inl e) \<or> w' = w3 \<and> r = z"
      using assms(1) a l O R G by (auto simp: runStatus_def split: sum.splits)
    then show ?thesis
      using o1 out1 o2 o3 observing_trans [OF o1 o2(1)] observing_trans [OF observing_trans [OF o1 o2(1)]] by auto
  qed
qed

section \<open>The printed table\<close>

lemma write_lines_out:
  "write_lines broken ls w = (r, w') \<Longrightarrow> \<exists>k. w' = w\<lparr>out := out w @ take k ls\<rparr> \<and> (r = Inr () \<longrightarrow> k = length ls)"
proof (induction ls arbitrary: w)
  case (Cons l ls)
  show ?case
  proof (cases "broken (length (out w))")
    case None
    with Cons obtain k where "w' = (say l w)\<lparr>out := out (say l w) @ take k ls\<rparr>" "r = Inr () \<longrightarrow> k = length ls" by fastforce
    then show ?thesis by (intro exI [of _ "Suc k"]) (simp add: say_def)
  next
    case (Some e)
    with Cons.prems show ?thesis by (intro exI [of _ 0]) auto
  qed
qed (simp add: exI [of _ 0])

text \<open>A text without blanks.\<close>

definition graphic :: "string \<Rightarrow> bool" where
  "graphic t = list_all (\<lambda>c. 33 \<le> (of_char c :: nat) \<and> of_char c < (127 :: nat)) t"

lemma graphic_append [simp]: "graphic (a @ b) \<longleftrightarrow> graphic a \<and> graphic b"
  by (simp add: graphic_def)

lemma graphic_ok: "graphic t \<Longrightarrow> cell_ok t"
proof -
  assume t: "graphic t"
  have "last t \<noteq> CHR '' ''" if "t \<noteq> []"
    using t last_in_set [OF that] by (auto simp: graphic_def list_all_iff)
  moreover have "list_all (\<lambda>c. 32 \<le> (of_char c :: nat) \<and> of_char c < (127 :: nat)) t"
    using t by (auto simp: graphic_def list_all_iff)
  ultimately show ?thesis by (auto simp: cell_ok_def)
qed

lemma graphic_itoa: "graphic (itoa n)"
proof -
  have "(33 :: nat) \<le> of_char c \<and> of_char c < (127 :: nat)" if "c \<in> set (itoa n)" for c
    using itoa_chars [OF that] by (auto simp: is_digit_def)
  then show ?thesis by (simp add: graphic_def list_all_iff)
qed

lemma graphic_zeros: "graphic (zeros n i)"
proof -
  have "graphic (replicate k CHR ''0'')" "graphic ''-''" "graphic []" for k by (simp_all add: graphic_def list_all_iff)
  then show ?thesis by (simp add: zeros_def Let_def graphic_itoa)
qed

lemma graphic_time: "graphic (time_text False t)"
proof -
  have "graphic ''-''" "graphic '':''" "graphic ''T''" "graphic ''Z''" by (simp_all add: graphic_def)
  then show ?thesis unfolding time_text_def date_text_def clock_text_def Let_def
    by (simp only: graphic_append graphic_zeros if_False append_Nil simp_thms)
qed

text \<open>The texts of a record are printable ASCII, the id, alias and phase without a blank at the end.\<close>

definition printable :: "deployment \<Rightarrow> bool" where
  "printable d = (list_all cell_ok [d_id d, d_alias d, phase_text (d_phase d)] \<and>
     list_all (\<lambda>c. 32 \<le> (of_char c :: nat) \<and> of_char c < (127 :: nat)) (d_failure_reason d))"

lemma printable_detail: "printable d \<Longrightarrow> cell_ok (status_detail d)"
  by (auto simp: printable_def status_detail_def cell_ok_def)

definition header_cells :: "string list" where
  "header_cells = [''ID'', ''ALIAS'', ''PHASE'', ''PORT'', ''PID'', ''UPDATED'']"

lemma header_ok: "list_all cell_ok header_cells"
  by (auto simp: header_cells_def cell_ok_def)

lemma status_table_reads:
  assumes "\<forall>d\<in>set ds. printable d"
  shows "\<exists>ws. map (read_cells ws) (status_table ds) = header_cells # map status_cells ds"
proof -
  let ?ls = "header_cells # map status_cells ds"
  have "\<forall>cs\<in>set ?ls. length cs = Suc 5 \<and> list_all cell_ok cs"
    using assms header_ok printable_detail graphic_ok [OF graphic_itoa] graphic_ok [OF graphic_time]
    by (auto simp: printable_def status_cells_def header_cells_def)
  note table = aligned_table [OF this, of 2]
  have "status_table ds = butlast (tab_lines 2 (concat (map (\<lambda>cs. join_with [CHR 0x09] cs @ [CHR 0x0A]) ?ls)))"
    by (simp add: status_table_def status_header_def header_cells_def comp_def)
  with table show ?thesis by (metis zero_less_numeral)
qed


definition status_world :: world where
  "status_world = (demo_world [demo_served] idle_os)\<lparr>lock_err := Some (Sentinel ErrBusy)\<rparr>"


end
