(* ===== verification/Plan.thy ===== *)
theory Plan imports Deploy begin

text \<open>
  The plan command (internal/cli/plan.go): its arguments, the GPU it plans for, the estimate it prints and
  the variants it suggests, what a suggestion promises, and how the gate of deploy and its preflight agree.
  Each entry of the output is the text of one \<open>Fprintf\<close> or \<open>Fprintln\<close>, without the last newline.
\<close>

section \<open>The command\<close>

definition plan_usage :: goerr where
  "plan_usage = Errorf ''%w: iold plan <hf-model> [--context N] [--vram GiB]'' [ArgW (Sentinel ErrUsage)]"

text \<open>The argument loop: the model, the context and the memory in GiB, 0 when it is not given.\<close>

fun plan_args :: "string \<Rightarrow> int \<Rightarrow> int \<Rightarrow> string list \<Rightarrow> (string \<times> int \<times> int) result" where
  "plan_args modelID contextTokens vramGiB [] =
     (if modelID = [] then Inl plan_usage else Inr (modelID, contextTokens, vramGiB))"
| "plan_args modelID contextTokens vramGiB (a # as) =
     (if a = ''--context'' \<or> a = ''--vram''
      then (case as of
              [] \<Rightarrow> Inl plan_usage
            | b # bs \<Rightarrow>
              (case parse_int64 b of
                 None \<Rightarrow> Inl plan_usage
               | Some v \<Rightarrow>
                 (if v \<le> 0 then Inl plan_usage
                  else if a = ''--context'' then plan_args modelID v vramGiB bs
                  else plan_args modelID contextTokens v bs)))
      else if modelID = [] \<and> \<not> has_prefix a ''-'' then plan_args a contextTokens vramGiB as
      else Inl plan_usage)"

definition largest_vram :: "gpu list \<Rightarrow> int" where
  "largest_vram gpus = foldl (\<lambda>v g. if g_vram g > v then g_vram g else v) 0 gpus"

text \<open>The memory to plan for, and the line that says where it comes from.\<close>

definition plan_vram :: "probes \<Rightarrow> int \<Rightarrow> os \<Rightarrow> (int \<times> string) result \<times> os" where
  "plan_vram p vramGiB o1 =
     (let vramMiB = wrap64 (vramGiB * 1024) in
      if vramMiB = 0
      then (case GPUs p (tick o1) of
              Inl e \<Rightarrow> (Inl (Errorf ''no GPU detected (%v); pass --vram <GiB> to plan for a target GPU'' [ArgV e]), step_os o1)
            | Inr [] \<Rightarrow>
                (Inl (Errorf ''no GPU detected (%v); pass --vram <GiB> to plan for a target GPU'' [ArgS ''<nil>'']), step_os o1)
            | Inr (g # gs) \<Rightarrow>
                (Inr (largest_vram (g # gs),
                      ''GPU: '' @ g_name g @ '', '' @ itoa (largest_vram (g # gs)) @ '' MiB VRAM''), step_os o1))
      else (Inr (vramMiB, ''GPU: assumed '' @ itoa vramGiB @ '' GiB VRAM (--vram)''), o1))"

definition quantLabel :: "string \<Rightarrow> string" where
  "quantLabel quant = (if quant = [] then ''none'' else quant)"

fun verdict_text :: "verdict \<Rightarrow> string" where
  "verdict_text VerdictFits = ''FITS''"
| "verdict_text VerdictTight = ''TIGHT''"
| "verdict_text VerdictTooBig = ''TOO_BIG''"

definition gib_text :: "int \<Rightarrow> string" where
  "gib_text bytes = fixed1 (GiB bytes)"

definition printEstimate :: "estimate \<Rightarrow> verdict \<Rightarrow> string list" where
  "printEstimate est verdict =
     [''Model: '' @ e_model_id est,
      ''  parameters:    '' @ fixed1 (rnd (rnd (of_int (e_param_count est)) / 10 ^ 9)) @ ''B'',
      ''  quantization:  '' @ quantLabel (e_quantization est),
      ''  weights:       ~'' @ gib_text (e_weight est) @ '' GiB''] @
     (if e_kv_unknown est
      then [''  kv cache:      unknown (config.json lacks attention geometry); total understates need'']
      else [''  kv cache:      ~'' @ gib_text (e_kv est) @ '' GiB at '' @ itoa (e_context est) @ '' tokens'']) @
     [''  overhead:      ~'' @ gib_text (e_overhead est) @ '' GiB'',
      ''  total:         ~'' @ gib_text (e_total est) @ '' GiB''] @
     (if e_architecture est \<noteq> [] \<and> \<not> e_known est
      then [''  WARN architecture '' @ e_architecture est @ '' is not on the known vLLM support list; it may not serve'']
      else []) @
     [''Verdict: '' @ verdict_text verdict] @
     (if verdict = VerdictFits \<or> verdict = VerdictTight
      then [''Estimates are conservative heuristics; readiness checks still decide.''] else [])"

definition pad_right :: "nat \<Rightarrow> string \<Rightarrow> string" where
  "pad_right n s = s @ replicate (n - length s) CHR '' ''"

definition suggestion_line :: "suggestion \<Rightarrow> string" where
  "suggestion_line s =
     ''  '' @ pad_right 7 (verdict_text (s_verdict s)) @ '' '' @ e_model_id (s_estimate s) @ ''  ~'' @
     gib_text (e_total (s_estimate s)) @ '' GiB, '' @ quantLabel (e_quantization (s_estimate s)) @ '', '' @
     itoa (s_downloads s) @ '' downloads'' @ (if s_gated s then '' (gated: needs HF_TOKEN)'' else [])"

text \<open>The model and its estimate, as the hub describes it.\<close>

definition plan_estimate :: "hfclient \<Rightarrow> string \<Rightarrow> int \<Rightarrow> os \<Rightarrow> estimate result \<times> os" where
  "plan_estimate c modelID contextTokens o1 =
     (case GetModel c modelID o1 of
        (Inl e, o2) \<Rightarrow> (Inl e, o2)
      | (Inr model, o2) \<Rightarrow>
        (if IsGated (m_gated model) \<and> c_token c = []
         then (Inl (Errorf ''%w: %s'' [ArgW (Sentinel ErrAuthRequired), ArgS modelID]), o2)
         else case validateRevision (m_sha model) of
           Inl e \<Rightarrow> (Inl (Errorf ''resolve immutable revision for %s: %w'' [ArgS modelID, ArgW e]), o2)
         | Inr u \<Rightarrow>
           (case GetConfigAtRevision c modelID (m_sha model) o2 of
              (Inl e, o3) \<Rightarrow>
                (if \<not> errors_is ErrModelNotFound e then (Inl e, o3) else (EstimateModel model zero_config contextTokens, o3))
            | (Inr cfg, o3) \<Rightarrow> (EstimateModel model cfg contextTokens, o3))))"

definition plan_suggest :: "(hfmodel list \<Rightarrow> hfmodel list) \<Rightarrow> hfclient \<Rightarrow> string \<Rightarrow> int \<Rightarrow> int \<Rightarrow> os \<Rightarrow>
    unit result \<times> string list \<times> os" where
  "plan_suggest srt c modelID vramMiB contextTokens o1 =
     (let first = [[CHR 0x0A] @ ''Searching for quantized variants that fit...''] in
      case SuggestQuantized srt c modelID vramMiB contextTokens o1 of
        (Inl e, o2) \<Rightarrow> (Inl (wrapf ''variant search failed: %w'' e), first, o2)
      | (Inr [], o2) \<Rightarrow>
          (Inr (), first @ [''No fitting quantized variant found. Try a larger GPU or a smaller model.''], o2)
      | (Inr (s # ss), o2) \<Rightarrow> (Inr (), first @ map suggestion_line (s # ss), o2))"

definition runPlan :: "(hfmodel list \<Rightarrow> hfmodel list) \<Rightarrow> probes \<Rightarrow> hfclient \<Rightarrow> string list \<Rightarrow> os \<Rightarrow>
    unit result \<times> string list \<times> os" where
  "runPlan srt p c args o1 =
     (case plan_args [] DefaultContextTokens 0 args of
        Inl e \<Rightarrow> (Inl e, [], o1)
      | Inr (modelID, contextTokens, vramGiB) \<Rightarrow>
        (case plan_vram p vramGiB o1 of
           (Inl e, o2) \<Rightarrow> (Inl e, [], o2)
         | (Inr (vramMiB, line), o2) \<Rightarrow>
           (case plan_estimate c modelID contextTokens o2 of
              (Inl e, o3) \<Rightarrow> (Inl e, [line], o3)
            | (Inr est, o3) \<Rightarrow>
              (let verdict = Assess est vramMiB; text1 = line # printEstimate est verdict in
               if verdict \<noteq> VerdictTooBig then (Inr (), text1, o3)
               else case plan_suggest srt c modelID vramMiB contextTokens o3 of (r, ls, o4) \<Rightarrow> (r, text1 @ ls, o4)))))"

section \<open>What a suggestion promises\<close>

text \<open>A model the searches may propose for a base model.\<close>

definition proposed :: "string \<Rightarrow> hfmodel \<Rightarrow> bool" where
  "proposed baseID m = (servableByVLLM m \<and> to_lower (m_id m) \<noteq> to_lower baseID \<and>
     str_contains (to_lower (m_id m)) (to_lower (let (before', after', found) = cut_at CHR ''/'' baseID in if found then after' else baseID)))"

lemma add_candidates_proposed:
  "add_candidates shortName ms (seen, cands) = (seen', cands') \<Longrightarrow>
     \<forall>m\<in>set cands. servableByVLLM m \<and> to_lower (m_id m) \<noteq> b \<and> str_contains (to_lower (m_id m)) (to_lower shortName) \<Longrightarrow>
     b \<in> set seen \<Longrightarrow> set (map (\<lambda>m. to_lower (m_id m)) cands) \<subseteq> set seen \<Longrightarrow> distinct (map (\<lambda>m. to_lower (m_id m)) cands) \<Longrightarrow>
   (\<forall>m\<in>set cands'. servableByVLLM m \<and> to_lower (m_id m) \<noteq> b \<and> str_contains (to_lower (m_id m)) (to_lower shortName)) \<and>
     b \<in> set seen' \<and> set (map (\<lambda>m. to_lower (m_id m)) cands') \<subseteq> set seen' \<and> distinct (map (\<lambda>m. to_lower (m_id m)) cands')"
proof (induction ms arbitrary: seen cands)
  case Nil
  then show ?case by simp
next
  case (Cons m ms)
  let ?key = "to_lower (m_id m)"
  show ?case
  proof (cases "?key \<in> set seen \<or> \<not> str_contains ?key (to_lower shortName) \<or> \<not> servableByVLLM m")
    case True
    then have "add_candidates shortName ms (seen, cands) = (seen', cands')" using Cons.prems(1) by (auto simp: Let_def split: if_splits)
    from Cons.IH [OF this Cons.prems(2-5)] show ?thesis .
  next
    case False
    then have step: "add_candidates shortName ms (?key # seen, cands @ [m]) = (seen', cands')"
      using Cons.prems(1) by (simp add: Let_def)
    have "?key \<noteq> b" using False Cons.prems(3) by auto
    have new: "?key \<notin> set (map (\<lambda>m. to_lower (m_id m)) cands)" using False Cons.prems(4) by blast
    show ?thesis
      by (rule Cons.IH [OF step]) (use Cons.prems(2-5) False \<open>?key \<noteq> b\<close> new in auto)
  qed
qed

lemma search_loop_proposed:
  assumes "search_loop c shortName qs (seen, cands) o1 = (Inr cands', o2)"
    and "\<forall>m\<in>set cands. servableByVLLM m \<and> to_lower (m_id m) \<noteq> b \<and> str_contains (to_lower (m_id m)) (to_lower shortName)"
    and "b \<in> set seen" "set (map (\<lambda>m. to_lower (m_id m)) cands) \<subseteq> set seen" "distinct (map (\<lambda>m. to_lower (m_id m)) cands)"
  shows "(\<forall>m\<in>set cands'. servableByVLLM m \<and> to_lower (m_id m) \<noteq> b \<and> str_contains (to_lower (m_id m)) (to_lower shortName)) \<and>
    distinct (map (\<lambda>m. to_lower (m_id m)) cands')"
  using assms
proof (induction qs arbitrary: seen cands o1)
  case Nil
  then show ?case by simp
next
  case (Cons q qs)
  obtain r oa where S: "Search c (shortName @ '' '' @ q) 8 o1 = (r, oa)" by fastforce
  obtain ms where r: "r = Inr ms" using Cons.prems(1) S by (cases r) auto
  obtain seen1 cands1 where A: "add_candidates shortName ms (seen, cands) = (seen1, cands1)" by fastforce
  have "search_loop c shortName qs (seen1, cands1) oa = (Inr cands', o2)" using Cons.prems(1) S r A by simp
  with add_candidates_proposed [OF A Cons.prems(2-5)] show ?case by (intro Cons.IH) blast+
qed

text \<open>A suggestion made from a candidate: the estimate of what the hub answers for it, which fits.\<close>

definition suggested :: "hfclient \<Rightarrow> int \<Rightarrow> int \<Rightarrow> hfmodel \<Rightarrow> suggestion \<Rightarrow> bool" where
  "suggested c vramMiB contextTokens cand s = (\<exists>model cfg oa ob. GetModel c (m_id cand) oa = (Inr model, ob) \<and> m_sha model \<noteq> [] \<and>
     EstimateModel model cfg contextTokens = Inr (s_estimate s) \<and> DetectQuantization model cfg \<noteq> [] \<and>
     s_verdict s = Assess (s_estimate s) vramMiB \<and> s_verdict s \<noteq> VerdictTooBig \<and> s_gated s = IsGated (m_gated model))"

lemma try_candidate_suggested:
  assumes "try_candidate c vramMiB contextTokens cand o1 = (Some s, o2)"
  shows "suggested c vramMiB contextTokens cand s"
proof -
  obtain x oa where G: "GetModel c (m_id cand) o1 = (x, oa)" by fastforce
  obtain model where x: "x = Inr model" using assms G by (cases x) (auto simp: try_candidate_def)
  obtain r ob where C: "GetConfigAtRevision c (m_id cand) (m_sha model) oa = (r, ob)" by fastforce
  let ?cfg = "case r of Inl e \<Rightarrow> zero_config | Inr y \<Rightarrow> y"
  have sha: "m_sha model \<noteq> []" using assms G x by (auto simp: try_candidate_def)
  have E: "(case EstimateModel model ?cfg contextTokens of
               Inl e \<Rightarrow> (None, ob)
             | Inr est \<Rightarrow>
               (if DetectQuantization model ?cfg = [] then (None, ob)
                else if Assess est vramMiB = VerdictTooBig then (None, ob)
                else (Some \<lparr>s_estimate = est, s_verdict = Assess est vramMiB, s_downloads = m_downloads model,
                            s_gated = IsGated (m_gated model)\<rparr>, ob))) = (Some s, o2)"
    using assms G x C sha by (simp add: try_candidate_def Let_def)
  then obtain est where est: "EstimateModel model ?cfg contextTokens = Inr est" by (cases "EstimateModel model ?cfg contextTokens") auto
  with E have "DetectQuantization model ?cfg \<noteq> []" "Assess est vramMiB \<noteq> VerdictTooBig"
    "s = \<lparr>s_estimate = est, s_verdict = Assess est vramMiB, s_downloads = m_downloads model, s_gated = IsGated (m_gated model)\<rparr>"
    by (auto split: if_splits)
  then show ?thesis unfolding suggested_def using G x sha est
    by (intro exI [of _ model] exI [of _ ?cfg] exI [of _ o1] exI [of _ oa]) simp
qed

lemma suggest_loop_effect:
  assumes "suggest_loop c vramMiB contextTokens cands acc o1 = (ss, o2)" "length acc < 5"
  shows "\<exists>cs new. ss = acc @ new \<and> subseq cs cands \<and> list_all2 (suggested c vramMiB contextTokens) cs new \<and> length ss \<le> 5"
  using assms
proof (induction cands arbitrary: acc o1)
  case Nil
  then show ?case by (intro exI [of _ "[]"]) simp
next
  case (Cons cand cands)
  obtain x oa where T: "try_candidate c vramMiB contextTokens cand o1 = (x, oa)" by fastforce
  show ?case
  proof (cases x)
    case None
    with Cons.prems T have "suggest_loop c vramMiB contextTokens cands acc oa = (ss, o2)" by simp
    from Cons.IH [OF this Cons.prems(2)] show ?thesis by blast
  next
    case (Some s)
    have sg: "suggested c vramMiB contextTokens cand s" using try_candidate_suggested T Some by blast
    show ?thesis
    proof (cases "length (acc @ [s]) = 5")
      case True
      with Cons.prems T Some have "ss = acc @ [s]" by simp
      with sg True show ?thesis by (intro exI [of _ "[cand]"] exI [of _ "[s]"]) simp
    next
      case False
      with Cons.prems T Some have "suggest_loop c vramMiB contextTokens cands (acc @ [s]) oa = (ss, o2)" by simp
      moreover have "length (acc @ [s]) < 5" using False Cons.prems(2) by simp
      ultimately obtain cs new where n: "ss = (acc @ [s]) @ new" "subseq cs cands"
        "list_all2 (suggested c vramMiB contextTokens) cs new" "length ss \<le> 5"
        using Cons.IH by blast
      with sg show ?thesis by (intro exI [of _ "cand # cs"] exI [of _ "s # new"]) simp
    qed
  qed
qed

lemma subseq_set: "subseq xs ys \<Longrightarrow> set xs \<subseteq> set ys"
  by (induction rule: list_emb.induct) auto

lemma subseq_sorted_wrt: "subseq xs ys \<Longrightarrow> sorted_wrt P ys \<Longrightarrow> sorted_wrt P xs"
proof (induction xs ys rule: list_emb.induct)
  case (list_emb_Cons2 x y xs ys)
  have "set xs \<subseteq> set ys" by (rule subseq_set) (fact list_emb_Cons2(2))
  with list_emb_Cons2 show ?case by (metis sorted_wrt.simps(2) subsetD)
qed simp_all

lemma subseq_distinct_map: "subseq xs ys \<Longrightarrow> distinct (map f ys) \<Longrightarrow> distinct (map f xs)"
proof (induction xs ys rule: list_emb.induct)
  case (list_emb_Cons2 x y xs ys)
  have "f ` set xs \<subseteq> f ` set ys" using subseq_set [OF list_emb_Cons2(2)] by (rule image_mono)
  with list_emb_Cons2 show ?case by (metis distinct.simps(2) list.set_map list.simps(9) subsetD)
qed simp_all


definition by_downloads :: "hfmodel list \<Rightarrow> hfmodel list" where
  "by_downloads = sort_key (\<lambda>m. - m_downloads m)"

lemma by_downloads_sorts: "sorts_by_downloads by_downloads"
proof -
  have "sorted (map (\<lambda>m. - m_downloads m) (sort_key (\<lambda>m. - m_downloads m) ms))" for ms :: "hfmodel list" by simp
  then have "sorted_wrt (\<lambda>a b. - m_downloads a \<le> - m_downloads b) (sort_key (\<lambda>m. - m_downloads m) ms)" for ms :: "hfmodel list"
    by (simp add: sorted_map)
  then show ?thesis unfolding sorts_by_downloads_def by_downloads_def by simp
qed

definition sample_hub :: service where
  "sample_hub n q = Inr \<lparr>s_status = 200, s_body = Inr (Inr
     (if str_contains (q_url q) ''search='' then JArr [JObj [(''id'', JStr ''x/m-AWQ''), (''downloads'', JNum ''7'')]]
      else if str_contains (q_url q) ''config.json'' then JObj []
      else JObj [(''id'', JStr ''x/m-AWQ''), (''sha'', JStr ''0123456789abcdef0123456789abcdef01234567''), (''tags'', JArr [JStr ''awq'']),
        (''safetensors'', JObj [(''total'', JNum ''1000''), (''parameters'', JObj [(''I32'', JNum ''1000'')])])]))\<rparr>"

definition sample_client :: hfclient where
  "sample_client = NewClient sample_hub []"


section \<open>Plan and the gate of deploy\<close>

lemma gate_as_plan:
  assumes "primaryVRAMMiB (dd_probes deps) o1 = (Inr v, oa)" "plan_estimate (dd_hub deps) ref DefaultContextTokens oa = (x, ob)"
  shows "case x of Inl e \<Rightarrow> gate_model deps ref o1 = (Inl e, ob)
    | Inr est \<Rightarrow> \<exists>model cfg. EstimateModel model cfg DefaultContextTokens = Inr est \<and> validateRevision (m_sha model) = Inr () \<and>
        gate_model deps ref o1 = (gate_estimate ref v model cfg, ob)"
proof -
  obtain m oc where M: "GetModel (dd_hub deps) ref oa = (m, oc)" by fastforce
  note defs = gate_model_def plan_estimate_def
  show ?thesis
  proof (cases m)
    case (Inl e)
    then show ?thesis using assms M by (auto simp: defs)
  next
    case m: (Inr model)
    show ?thesis
    proof (cases "IsGated (m_gated model) \<and> c_token (dd_hub deps) = []")
      case True
      then show ?thesis using assms M m by (auto simp: defs)
    next
      case open': False
      show ?thesis
      proof (cases "validateRevision (m_sha model)")
        case (Inl e)
        then show ?thesis using assms M m open' by (auto simp: defs)
      next
        case rev: (Inr u)
        obtain y od where C: "GetConfigAtRevision (dd_hub deps) ref (m_sha model) oc = (y, od)" by fastforce
        let ?cfg = "case y of Inl e \<Rightarrow> zero_config | Inr cfg \<Rightarrow> cfg"
        show ?thesis
        proof (cases "\<exists>e. y = Inl e \<and> \<not> errors_is ErrModelNotFound e")
          case True
          then show ?thesis using assms M m open' rev C by (auto simp: defs)
        next
          case False
          then have x: "x = EstimateModel model ?cfg DefaultContextTokens" "ob = od"
            and g: "gate_model deps ref o1 = (gate_estimate ref v model ?cfg, od)"
            using assms M m open' rev C by (cases y; auto simp: defs)+
          show ?thesis
          proof (cases x)
            case (Inl e)
            have "EstimateModel model ?cfg DefaultContextTokens = Inl e" using x(1) Inl by (rule trans [OF sym])
            then show ?thesis using g x(2) Inl by (simp add: gate_estimate_def)
          next
            case (Inr est)
            have "EstimateModel model ?cfg DefaultContextTokens = Inr est" using x(1) Inr by (rule trans [OF sym])
            then show ?thesis using g x(2) Inr rev by (cases u) auto
          qed
        qed
      qed
    qed
  qed
qed

lemma gate_estimate_Inr:
  "EstimateModel model cfg DefaultContextTokens = Inr est \<Longrightarrow>
    (\<exists>y. gate_estimate ref v model cfg = Inr y) = (Assess est v \<noteq> VerdictTooBig) \<and>
    (gate_estimate ref v model cfg = Inr (model', cfg', est') \<longrightarrow> est' = est \<and> model' = model \<and> cfg' = cfg)"
  by (simp add: gate_estimate_def)


definition sample_gate :: deploy_deps where
  "sample_gate = (defaultDeployDeps demo_env (sample_probes\<lparr>GPUs := (\<lambda>n. Inr [sample_gpu])\<rparr>) sample_hub sample_hub)\<lparr>dd_hub := sample_client\<rparr>"


text \<open>The memory preflight asks for, of a total the gate let through.\<close>

lemma required_fits:
  assumes "0 \<le> t" "t \<le> 2 ^ 53" "10 * t \<le> 9 * 2 ^ 20 * v"
  shows "requiredVRAMMiB t \<le> v"
proof -
  let ?q = "(t * 10) div 9"
  have q: "0 \<le> ?q" "?q \<le> 2 ^ 20 * v" "?q \<le> t * 10" using assms by simp_all
  have w1: "wrap64 (t * 10) = t * 10" using assms by (intro wrap64_id) simp_all
  have w2: "wrap64 (?q + 2 ^ 20) = ?q + 2 ^ 20" "wrap64 (?q + 2 ^ 20 - 1) = ?q + 2 ^ 20 - 1"
    using q assms(2) by (intro wrap64_id; simp)+
  have "requiredVRAMMiB t = wrap64 (?q + 2 ^ 20 - 1) div 2 ^ 20"
    using assms(1) q w1 w2 by (simp add: requiredVRAMMiB_def go_quot_nonneg)
  also have "\<dots> = (?q + 2 ^ 20 - 1) div 2 ^ 20" by (simp only: w2)
  also have "\<dots> \<le> (2 ^ 20 * v + (2 ^ 20 - 1)) div 2 ^ 20" using q(2) by (intro zdiv_mono1) simp_all
  also have "\<dots> = v" by simp
  finally show ?thesis .
qed

lemma gate_within_memory:
  assumes "Assess est v \<noteq> VerdictTooBig" "0 \<le> v" "v < 2 ^ 31" "0 \<le> e_total est" "e_total est \<le> 2 ^ 53"
  shows "requiredVRAMMiB (e_total est) \<le> v"
proof -
  have "rnd (of_int (e_total est)) \<le> usable_bytes v"
    using assms(1) fits_is_usable [OF assms(2)] by (auto simp: Assess_def Let_def split: if_splits)
  then have "10 * e_total est \<le> 9 * 2 ^ 20 * v" using usable_exact [OF assms(2-5)] by simp
  with assms(4,5) show ?thesis by (rule required_fits)
qed

text \<open>
  The gate and the preflight of deploy agree: a hub model is resolved only at a full commit hash and only
  with an estimate that the first GPU holds, and what the specification then asks preflight for, rounded up and
  divided by the share of the memory vLLM uses, never exceeds the memory of that GPU.
\<close>

theorem gate_implies_preflight_memory:
  assumes "resolveSpec env h deps ref o1 = (Inr spec, o2)" "catalog_Get ref = Inl e"
  shows "revisionPattern (ds_revision spec) \<and> (\<exists>g gs model cfg est. GPUs (dd_probes deps) (tick o1) = Inr (g # gs) \<and>
     EstimateModel model cfg DefaultContextTokens = Inr est \<and> Assess est (g_vram g) \<noteq> VerdictTooBig \<and>
     ds_revision spec = m_sha model \<and> ds_min_vram spec = requiredVRAMMiB (e_total est) \<and>
     (0 \<le> g_vram g \<and> g_vram g < 2 ^ 31 \<and> 0 \<le> e_total est \<and> e_total est \<le> 2 ^ 53 \<longrightarrow> ds_min_vram spec \<le> g_vram g))"
proof -
  obtain y oa where G: "gate_model deps ref o1 = (y, oa)" by fastforce
  obtain model cfg est where y: "y = Inr (model, cfg, est)"
    using assms G by (cases y) (auto simp: resolveSpec_def split: if_splits)
  have spec: "ds_revision spec = m_sha model" "ds_min_vram spec = requiredVRAMMiB (e_total est)"
    using assms G y by (auto simp: resolveSpec_def Let_def split: if_splits sum.splits)
  obtain v ob where V: "primaryVRAMMiB (dd_probes deps) o1 = (v, ob)" by fastforce
  obtain vram where v: "v = Inr vram" using G y V by (cases v) (auto simp: gate_model_def)
  obtain g gs where g: "GPUs (dd_probes deps) (tick o1) = Inr (g # gs)" "vram = g_vram g"
    using V v by (auto simp: primaryVRAMMiB_def split: sum.splits list.splits)
  obtain x oc where E: "plan_estimate (dd_hub deps) ref DefaultContextTokens ob = (x, oc)" by fastforce
  note agree = gate_as_plan [OF V [unfolded v] E]
  obtain est' where x: "x = Inr est'" using agree G y by (cases x) auto
  obtain model' cfg' where m: "EstimateModel model' cfg' DefaultContextTokens = Inr est'" "validateRevision (m_sha model') = Inr ()"
    "gate_estimate ref vram model' cfg' = Inr (model, cfg, est)"
    using agree G y x by auto
  then have same: "est = est'" "model = model'" "Assess est' vram \<noteq> VerdictTooBig" by (auto simp: gate_estimate_def split: if_splits)
  have "revisionPattern (ds_revision spec)" using m(2) spec(1) same(2) by (simp add: validateRevision_def split: if_splits)
  moreover have "0 \<le> g_vram g \<and> g_vram g < 2 ^ 31 \<and> 0 \<le> e_total est \<and> e_total est \<le> 2 ^ 53 \<longrightarrow> ds_min_vram spec \<le> g_vram g"
    using gate_within_memory same(1,3) g(2) spec(2) by simp
  ultimately show ?thesis using g spec m(1) same by blast
qed

theorem gate_implies_preflight_memory_witness:
  "\<exists>spec o2. resolveSpec demo_env \<lparr>h_lookpath = (\<lambda>n b. Inr b), h_free = (\<lambda>n p. True),
        h_launch = \<lparr>l_mkdir = None, l_chmod = None, l_pipe = None, l_executable = None, l_helper = None, l_start = Inr 7\<rparr>,
        h_id_bytes = [1], h_key_bytes = [2], h_api_bytes = [3]\<rparr> sample_gate ''x/m-AWQ'' demo_steady = (Inr spec, o2) \<and>
     revisionPattern (ds_revision spec)"
proof -
  let ?h = "\<lparr>h_lookpath = (\<lambda>n b. Inr b), h_free = (\<lambda>n p. True),
        h_launch = \<lparr>l_mkdir = None, l_chmod = None, l_pipe = None, l_executable = None, l_helper = None, l_start = Inr 7\<rparr>,
        h_id_bytes = [1], h_key_bytes = [2], h_api_bytes = [3]\<rparr>"
  have "case fst (resolveSpec demo_env ?h sample_gate ''x/m-AWQ'' demo_steady) of Inr x \<Rightarrow> True | Inl e \<Rightarrow> False" by code_simp
  then obtain spec where "fst (resolveSpec demo_env ?h sample_gate ''x/m-AWQ'' demo_steady) = Inr spec" by (auto split: sum.splits)
  then obtain o2 where r: "resolveSpec demo_env ?h sample_gate ''x/m-AWQ'' demo_steady = (Inr spec, o2)" by (metis prod.collapse)
  have "\<exists>e. catalog_Get ''x/m-AWQ'' = Inl e" by (simp add: catalog_Get_def catalog_models_def)
  with gate_implies_preflight_memory [OF r] r show ?thesis by blast
qed

end
