(* ===== verification/OperationLock.thy ===== *)
theory OperationLock imports Lifecycle begin

text \<open>
  The operation lock (internal/operationlock/lock.go): \<open>flock\<close> on a file of the state directory
  serialises the lifecycle commands of different processes. The kernel knows the open file descriptions, the
  file each was opened on and, per file, the description that holds the exclusive lock. The processes are a
  step relation: each opens the file, waits for the lock or is refused, runs its command step by step while
  it holds the lock, and closes it; at any point a process may be killed.
\<close>

section \<open>The kernel\<close>

record kernel =
  k_fs :: filesys
  k_open :: "(nat \<times> location) list"
  k_owner :: "location \<Rightarrow> nat option"
  k_next :: nat
  k_faults :: "goerr option list"

text \<open>EWOULDBLOCK and EAGAIN are the same number.\<close>

definition EWOULDBLOCK :: goerr where
  "EWOULDBLOCK = Opaque ''resource temporarily unavailable''"

definition EBADF :: goerr where
  "EBADF = Opaque ''bad file descriptor''"

text \<open>\<open>os.OpenFile(path, O_CREATE|O_RDWR, mode)\<close>: the location of the file.\<close>

definition OpenFile :: "string \<Rightarrow> nat \<Rightarrow> filesys \<Rightarrow> location result \<times> filesys" where
  "OpenFile p mode = fs_call nothing (\<lambda>s. case loc s p of
     None \<Rightarrow> (Inl ENOENT, s)
   | Some l \<Rightarrow> (case nodes s l of
       None \<Rightarrow> (if has_parent s l then (Inr l, put l (File [] mode) s) else (Inl (absent s l), s))
     | Some (File x m) \<Rightarrow> (Inr l, s)
     | Some (Dir m) \<Rightarrow> (Inl (Opaque ''is a directory''), s)
     | Some (Link t) \<Rightarrow> (Inl ENOENT, s)))"

text \<open>
  \<open>flock(fd, LOCK_EX)\<close>, with \<open>LOCK_NB\<close> or without: \<open>None\<close> is the call that does not
  return because another description holds the lock.
\<close>

definition flock_ex :: "bool \<Rightarrow> nat \<Rightarrow> kernel \<Rightarrow> unit result option \<times> kernel" where
  "flock_ex nonblocking fd k =
     (case map_of (k_open k) fd of
        None \<Rightarrow> (Some (Inl EBADF), k)
      | Some l \<Rightarrow>
        (case k_faults k of
           Some e # fs \<Rightarrow> (Some (Inl e), k\<lparr>k_faults := fs\<rparr>)
         | _ \<Rightarrow>
           (if k_owner k l = None \<or> k_owner k l = Some fd
            then (Some (Inr ()), k\<lparr>k_owner := (k_owner k)(l \<mapsto> fd), k_faults := tl (k_faults k)\<rparr>)
            else if nonblocking then (Some (Inl EWOULDBLOCK), k\<lparr>k_faults := tl (k_faults k)\<rparr>)
            else (None, k))))"

definition release :: "nat \<Rightarrow> kernel \<Rightarrow> kernel" where
  "release fd k = k\<lparr>k_owner := (\<lambda>l. if k_owner k l = Some fd then None else k_owner k l)\<rparr>"

definition flock_un :: "nat \<Rightarrow> kernel \<Rightarrow> unit result \<times> kernel" where
  "flock_un fd k =
     (case k_faults k of
        Some e # fs \<Rightarrow> (Inl e, k\<lparr>k_faults := fs\<rparr>)
      | _ \<Rightarrow> (Inr (), release fd (k\<lparr>k_faults := tl (k_faults k)\<rparr>)))"

text \<open>Closing the description, or the death of its process, gives up its lock.\<close>

definition drop_fd :: "nat \<Rightarrow> kernel \<Rightarrow> kernel" where
  "drop_fd fd k = release fd (k\<lparr>k_open := filter (\<lambda>(x, l). x \<noteq> fd) (k_open k)\<rparr>)"

definition close_fd :: "nat \<Rightarrow> kernel \<Rightarrow> unit result \<times> kernel" where
  "close_fd fd k = (case CloseFile (k_fs k) of (r, s) \<Rightarrow> (r, drop_fd fd (k\<lparr>k_fs := s\<rparr>)))"

section \<open>Acquire and Close\<close>

text \<open>The directory and the file: a file that is opened but cannot be secured is closed again.\<close>

definition prepare_lock :: "string \<Rightarrow> filesys \<Rightarrow> location result \<times> filesys" where
  "prepare_lock path s =
     (case MkdirAll (path_dir path) perm_0700 s of
        (Inl e, s1) \<Rightarrow> (Inl (wrapf ''create lock directory: %w'' e), s1)
      | (Inr u, s1) \<Rightarrow>
        (case Chmod (path_dir path) perm_0700 s1 of
           (Inl e, s2) \<Rightarrow> (Inl (wrapf ''secure lock directory: %w'' e), s2)
         | (Inr u, s2) \<Rightarrow>
           (case OpenFile path perm_0600 s2 of
              (Inl e, s3) \<Rightarrow> (Inl (wrapf ''open operation lock: %w'' e), s3)
            | (Inr l, s3) \<Rightarrow>
              (case ChmodOpen l perm_0600 s3 of
                 (Inl e, s4) \<Rightarrow> (Inl (wrapf ''secure operation lock: %w'' e), snd (CloseFile s4))
               | (Inr u, s4) \<Rightarrow> (Inr l, s4)))))"

definition open_lock :: "string \<Rightarrow> kernel \<Rightarrow> nat result \<times> kernel" where
  "open_lock path k =
     (case prepare_lock path (k_fs k) of
        (Inl e, s) \<Rightarrow> (Inl e, k\<lparr>k_fs := s\<rparr>)
      | (Inr l, s) \<Rightarrow> (Inr (k_next k), k\<lparr>k_fs := s, k_open := (k_next k, l) # k_open k, k_next := k_next k + 1\<rparr>))"

text \<open>The second half: \<open>None\<close> while the call waits for the lock.\<close>

definition take_lock :: "bool \<Rightarrow> nat \<Rightarrow> kernel \<Rightarrow> nat result option \<times> kernel" where
  "take_lock nonblocking fd k =
     (case flock_ex nonblocking fd k of
        (None, k1) \<Rightarrow> (None, k1)
      | (Some (Inl e), k1) \<Rightarrow>
          (Some (Inl (if nonblocking \<and> e = EWOULDBLOCK then Sentinel ErrBusy
                      else wrapf ''lock lifecycle operations: %w'' e)), snd (close_fd fd k1))
      | (Some (Inr u), k1) \<Rightarrow> (Some (Inr fd), k1))"

definition acquire :: "string \<Rightarrow> bool \<Rightarrow> kernel \<Rightarrow> nat result option \<times> kernel" where
  "acquire path nonblocking k =
     (case open_lock path k of
        (Inl e, k1) \<Rightarrow> (Some (Inl e), k1)
      | (Inr fd, k1) \<Rightarrow> take_lock nonblocking fd k1)"

definition Acquire :: "string \<Rightarrow> kernel \<Rightarrow> nat result option \<times> kernel" where
  "Acquire path = acquire path False"

definition TryAcquire :: "string \<Rightarrow> kernel \<Rightarrow> nat result option \<times> kernel" where
  "TryAcquire path = acquire path True"

text \<open>\<open>Lock.Close\<close>: the handle is \<open>None\<close> once it is closed.\<close>

definition lock_Close :: "nat option \<Rightarrow> kernel \<Rightarrow> unit result \<times> nat option \<times> kernel" where
  "lock_Close handle k =
     (case handle of
        None \<Rightarrow> (Inr (), None, k)
      | Some fd \<Rightarrow>
        (case flock_un fd k of (unlocked, k1) \<Rightarrow>
         case close_fd fd k1 of (closed, k2) \<Rightarrow>
           (case unlocked of Inl e \<Rightarrow> (Inl e, None, k2) | Inr u \<Rightarrow> (closed, None, k2))))"

section \<open>Processes\<close>

text \<open>
  \<open>Waiting nb fd\<close> is in the call of flock, \<open>Working fd n\<close> holds the lock and has done
  \<open>n\<close> steps of its command, \<open>Ended\<close> has returned or died. \<open>segments\<close> records
  who left the lock after how many steps.
\<close>

datatype client = Idle | Waiting bool nat | Working nat nat | Ended "goerr option"

record 'w lock_sys =
  kern :: kernel
  client :: "nat \<Rightarrow> client"
  shared :: 'w
  segments :: "(nat \<times> nat) list"

fun descriptor :: "client \<Rightarrow> nat option" where
  "descriptor (Waiting nb fd) = Some fd"
| "descriptor (Working fd n) = Some fd"
| "descriptor Idle = None"
| "descriptor (Ended e) = None"

inductive lock_step :: "string \<Rightarrow> (nat \<Rightarrow> ('w \<Rightarrow> 'w) list) \<Rightarrow> 'w lock_sys \<Rightarrow> 'w lock_sys \<Rightarrow> bool"
  for path prog where
  opens: "client s p = Idle \<Longrightarrow> open_lock path (kern s) = (Inr fd, k) \<Longrightarrow>
    lock_step path prog s (s\<lparr>kern := k, client := (client s)(p := Waiting nb fd)\<rparr>)"
| open_fails: "client s p = Idle \<Longrightarrow> open_lock path (kern s) = (Inl e, k) \<Longrightarrow>
    lock_step path prog s (s\<lparr>kern := k, client := (client s)(p := Ended (Some e))\<rparr>)"
| enters: "client s p = Waiting nb fd \<Longrightarrow> take_lock nb fd (kern s) = (Some (Inr fd'), k) \<Longrightarrow>
    lock_step path prog s (s\<lparr>kern := k, client := (client s)(p := Working fd' 0)\<rparr>)"
| refused: "client s p = Waiting nb fd \<Longrightarrow> take_lock nb fd (kern s) = (Some (Inl e), k) \<Longrightarrow>
    lock_step path prog s (s\<lparr>kern := k, client := (client s)(p := Ended (Some e))\<rparr>)"
| works: "client s p = Working fd n \<Longrightarrow> n < length (prog p) \<Longrightarrow>
    lock_step path prog s (s\<lparr>shared := (prog p ! n) (shared s), client := (client s)(p := Working fd (n + 1))\<rparr>)"
| leaves: "client s p = Working fd n \<Longrightarrow> n = length (prog p) \<Longrightarrow> lock_Close (Some fd) (kern s) = (r, h, k) \<Longrightarrow>
    lock_step path prog s (s\<lparr>kern := k, client := (client s)(p := Ended None), segments := segments s @ [(p, n)]\<rparr>)"
| dies: "descriptor (client s p) = Some fd \<Longrightarrow>
    lock_step path prog s (s\<lparr>kern := drop_fd fd (kern s), client := (client s)(p := Ended None),
      segments := segments s @ (case client s p of Working x n \<Rightarrow> [(p, n)] | _ \<Rightarrow> [])\<rparr>)"

definition lock_start :: "filesys \<Rightarrow> goerr option list \<Rightarrow> 'w \<Rightarrow> 'w lock_sys" where
  "lock_start s fs w = \<lparr>kern = \<lparr>k_fs = s, k_open = [], k_owner = (\<lambda>l. None), k_next = 3, k_faults = fs\<rparr>,
     client = (\<lambda>p. Idle), shared = w, segments = []\<rparr>"

definition lock_run :: "string \<Rightarrow> (nat \<Rightarrow> ('w \<Rightarrow> 'w) list) \<Rightarrow> 'w lock_sys \<Rightarrow> 'w lock_sys \<Rightarrow> bool" where
  "lock_run path prog = (lock_step path prog)\<^sup>*\<^sup>*"

text \<open>What the commands did: the first \<open>n\<close> steps of each process, one process after the other.\<close>

definition do_segment :: "(nat \<Rightarrow> ('w \<Rightarrow> 'w) list) \<Rightarrow> nat \<times> nat \<Rightarrow> 'w \<Rightarrow> 'w" where
  "do_segment prog x w = fold (\<lambda>f. f) (take (snd x) (prog (fst x))) w"

section \<open>The calls\<close>

lemma OpenFile_effect:
  assumes "OpenFile p mode s = (r, s')" "linkless s" "clean_abs p"
  shows "linkless s' \<and> (r = Inr l \<longrightarrow> l = clean_parts p)"
  using assms(1) dir_loc [OF assms(2,3)] assms(2) unfolding OpenFile_def
  by (auto elim!: fs_callE simp: nothing_def linkless_def split: node.splits option.splits if_splits)

lemma ChmodOpen_linkless: "ChmodOpen l mode s = (r, s') \<Longrightarrow> linkless s \<Longrightarrow> linkless s'"
  unfolding ChmodOpen_def by (auto elim!: fs_callE simp: nothing_def linkless_def split: node.splits option.splits if_splits)

lemma CloseFile_linkless: "linkless (snd (CloseFile s)) = linkless s"
  using reads_keep(5) [of s "fst (CloseFile s)" "snd (CloseFile s)"] by (simp add: linkless_def)

lemma prepare_lock_effect:
  assumes "prepare_lock path s = (r, s')" "linkless s" "clean_abs path"
  shows "linkless s' \<and> (r = Inr l \<longrightarrow> l = clean_parts path)"
proof -
  obtain a s1 where 1: "MkdirAll (path_dir path) perm_0700 s = (a, s1)" by fastforce
  obtain b s2 where 2: "Chmod (path_dir path) perm_0700 s1 = (b, s2)" by fastforce
  obtain c s3 where 3: "OpenFile path perm_0600 s2 = (c, s3)" by fastforce
  have l1: "linkless s1" using assms(2) MkdirAll_keeps [OF 1] by (rule linkless_keeps')
  have l2: "linkless s2" using l1 Chmod_keeps [OF 2] by (rule linkless_keeps')
  note l3 = OpenFile_effect [OF 3 l2 assms(3)]
  note def = assms(1) [unfolded prepare_lock_def]
  show ?thesis
  proof (cases "\<exists>x. a = Inr () \<and> b = Inr () \<and> c = Inr x")
    case True
    then obtain x where x: "a = Inr ()" "b = Inr ()" "c = Inr x" by blast
    obtain e s4 where 4: "ChmodOpen x perm_0600 s3 = (e, s4)" by fastforce
    have "linkless s4" using ChmodOpen_linkless [OF 4] l3 by blast
    moreover have "s' = s4 \<or> s' = snd (CloseFile s4)" "r = Inr l \<longrightarrow> l = x"
      using def x 1 2 3 4 by (auto split: sum.splits)
    ultimately show ?thesis using l3 [of x] x by (auto simp: CloseFile_linkless)
  next
    case False
    then have "s' = s1 \<or> s' = s2 \<or> s' = s3" "\<exists>e. r = Inl e"
      using def 1 2 3 by (auto split: sum.splits)
    with l1 l2 l3 show ?thesis by auto
  qed
qed

lemma release_fields [simp]:
  "k_fs (release fd k) = k_fs k" "k_open (release fd k) = k_open k" "k_next (release fd k) = k_next k"
  "k_faults (release fd k) = k_faults k" "k_owner (release fd k) l = (if k_owner k l = Some fd then None else k_owner k l)"
  by (simp_all add: release_def)

lemma map_of_drop: "map_of (filter (\<lambda>(x, l). x \<noteq> fd) xs) y = (if y = fd then None else map_of xs y)"
  by (induction xs) auto

lemma drop_fields [simp]:
  "k_fs (drop_fd fd k) = k_fs k" "k_next (drop_fd fd k) = k_next k"
  "k_owner (drop_fd fd k) l = (if k_owner k l = Some fd then None else k_owner k l)"
  "map_of (k_open (drop_fd fd k)) x = (if x = fd then None else map_of (k_open k) x)"
  by (simp_all add: drop_fd_def map_of_drop)

text \<open>A call that ends without the lock leaves the kernel as the death of the process would.\<close>

definition dropped :: "nat \<Rightarrow> kernel \<Rightarrow> kernel \<Rightarrow> bool" where
  "dropped fd k k' = ((\<forall>l. k_owner k' l = (if k_owner k l = Some fd then None else k_owner k l)) \<and> k_next k' = k_next k \<and>
     (\<forall>x. map_of (k_open k') x = (if x = fd then None else map_of (k_open k) x)) \<and> (linkless (k_fs k) \<longrightarrow> linkless (k_fs k')))"

lemma close_dropped: "close_fd fd k = (r, k') \<Longrightarrow> dropped fd k k'"
proof -
  assume c: "close_fd fd k = (r, k')"
  obtain a s where s: "CloseFile (k_fs k) = (a, s)" by fastforce
  then have "k' = drop_fd fd (k\<lparr>k_fs := s\<rparr>)" using c by (simp add: close_fd_def)
  then show ?thesis using CloseFile_linkless [of "k_fs k"] s by (auto simp: dropped_def)
qed

lemma drop_dropped: "dropped fd k (drop_fd fd k)"
  by (simp add: dropped_def)

lemma dropped_same:
  assumes "dropped fd k1 k'" "k_fs k1 = k_fs k" "k_open k1 = k_open k" "k_next k1 = k_next k"
    "\<forall>l. k_owner k1 l = k_owner k l \<or> k_owner k l = Some fd \<and> k_owner k1 l = None"
  shows "dropped fd k k'"
  using assms unfolding dropped_def by (smt (verit, best))

lemma take_lock_cases:
  assumes "take_lock nb fd k = (Some r, k')" "map_of (k_open k) fd = Some l"
  shows "(\<exists>e. r = Inl e \<and> dropped fd k k' \<and>
      (e = Sentinel ErrBusy \<longrightarrow> nb \<and> ((\<exists>g. k_owner k l = Some g \<and> g \<noteq> fd) \<or> Some EWOULDBLOCK \<in> set (k_faults k)))) \<or>
    r = Inr fd \<and> (k_owner k l = None \<or> k_owner k l = Some fd) \<and> k_owner k' = (k_owner k)(l \<mapsto> fd) \<and>
      k_fs k' = k_fs k \<and> k_open k' = k_open k \<and> k_next k' = k_next k"
proof -
  obtain x k1 where f: "flock_ex nb fd k = (x, k1)" by fastforce
  have same: "k_fs k1 = k_fs k" "k_open k1 = k_open k" "k_next k1 = k_next k"
    and cases: "x = None \<or> x = Some (Inr ()) \<and> (k_owner k l = None \<or> k_owner k l = Some fd) \<and> k_owner k1 = (k_owner k)(l \<mapsto> fd) \<or>
      (\<exists>e. x = Some (Inl e) \<and> k_owner k1 = k_owner k \<and>
        (nb \<and> e = EWOULDBLOCK \<longrightarrow> (\<exists>g. k_owner k l = Some g \<and> g \<noteq> fd) \<or> Some EWOULDBLOCK \<in> set (k_faults k)))"
    using f assms(2) by (auto simp: flock_ex_def split: option.splits list.splits if_splits)
  consider "x = Some (Inr ())" | e where "x = Some (Inl e)" using assms(1) f by (cases x; cases "the x") (auto simp: take_lock_def)
  then show ?thesis
  proof cases
    case 1
    with assms(1) f cases same show ?thesis by (simp add: take_lock_def)
  next
    case 2
    obtain c k2 where c: "close_fd fd k1 = (c, k2)" by fastforce
    have k': "k' = k2" and r: "r = Inl (if nb \<and> e = EWOULDBLOCK then Sentinel ErrBusy else wrapf ''lock lifecycle operations: %w'' e)"
      using assms(1) f 2 c by (simp_all add: take_lock_def)
    have "dropped fd k k'" using dropped_same [OF close_dropped [OF c] same] cases 2 k' by simp
    moreover have "e = EWOULDBLOCK \<and> nb" if "r = Inl (Sentinel ErrBusy)"
      using r that by (simp add: wrapf_def split: if_splits)
    moreover have "(\<exists>g. k_owner k l = Some g \<and> g \<noteq> fd) \<or> Some EWOULDBLOCK \<in> set (k_faults k)" if "nb" "e = EWOULDBLOCK"
      using cases 2 that by simp
    ultimately show ?thesis using r by blast
  qed
qed

lemma lock_Close_dropped: "lock_Close (Some fd) k = (r, h, k') \<Longrightarrow> dropped fd k k' \<and> h = None"
proof -
  assume c: "lock_Close (Some fd) k = (r, h, k')"
  obtain u k1 where u: "flock_un fd k = (u, k1)" by fastforce
  obtain x k2 where x: "close_fd fd k1 = (x, k2)" by fastforce
  have k: "k' = k2" "h = None" using c u x by (auto simp: lock_Close_def split: sum.splits)
  have "k_fs k1 = k_fs k" "k_open k1 = k_open k" "k_next k1 = k_next k"
    "\<forall>l. k_owner k1 l = k_owner k l \<or> k_owner k l = Some fd \<and> k_owner k1 l = None"
    using u by (auto simp: flock_un_def split: list.splits option.splits if_splits)
  from dropped_same [OF close_dropped [OF x] this] k show ?thesis by simp
qed

section \<open>The invariant of the processes\<close>

text \<open>
  Every process in the calls of the lock has a description of its own, opened on the lock file; the
  owner of the file is exactly the description of the process that works; and the shared state is what the
  segments did, one after the other, with the segment in progress last.
\<close>

definition fds_ok :: "string \<Rightarrow> kernel \<Rightarrow> (nat \<Rightarrow> client) \<Rightarrow> bool" where
  "fds_ok path k cl = (linkless (k_fs k) \<and>
     (\<forall>p fd. descriptor (cl p) = Some fd \<longrightarrow> map_of (k_open k) fd = Some (clean_parts path) \<and> fd < k_next k) \<and>
     (\<forall>p q fd. descriptor (cl p) = Some fd \<and> descriptor (cl q) = Some fd \<longrightarrow> p = q))"

definition owner_ok :: "string \<Rightarrow> kernel \<Rightarrow> (nat \<Rightarrow> client) \<Rightarrow> bool" where
  "owner_ok path k cl = (\<forall>fd. k_owner k (clean_parts path) = Some fd \<longleftrightarrow> (\<exists>p n. cl p = Working fd n))"

definition serial :: "(nat \<Rightarrow> ('w \<Rightarrow> 'w) list) \<Rightarrow> 'w \<Rightarrow> (nat \<times> nat) list \<Rightarrow> (nat \<Rightarrow> client) \<Rightarrow> 'w \<Rightarrow> bool" where
  "serial prog w0 segs cl w =
     (((\<forall>p fd n. cl p \<noteq> Working fd n) \<longrightarrow> w = fold (do_segment prog) segs w0) \<and>
      (\<forall>p fd n. cl p = Working fd n \<longrightarrow> n \<le> length (prog p) \<and> w = fold (do_segment prog) (segs @ [(p, n)]) w0))"

definition lock_inv :: "string \<Rightarrow> (nat \<Rightarrow> ('w \<Rightarrow> 'w) list) \<Rightarrow> 'w \<Rightarrow> 'w lock_sys \<Rightarrow> bool" where
  "lock_inv path prog w0 s = (fds_ok path (kern s) (client s) \<and> owner_ok path (kern s) (client s) \<and>
     serial prog w0 (segments s) (client s) (shared s) \<and> (\<forall>x\<in>set (segments s). snd x \<le> length (prog (fst x))))"

lemma one_worker:
  assumes "fds_ok path k cl" "owner_ok path k cl" "cl p = Working fd n" "cl q = Working fd' m"
  shows "p = q \<and> fd = fd' \<and> n = m"
proof -
  have "k_owner k (clean_parts path) = Some fd" "k_owner k (clean_parts path) = Some fd'"
    using assms(2-4) unfolding owner_ok_def by blast+
  then have fd: "fd = fd'" by simp
  have "p = q" using assms(1,3,4) fd unfolding fds_ok_def by (metis descriptor.simps(2))
  with assms(3,4) fd show ?thesis by simp
qed

text \<open>A process without a description enters no critical section; one that leaves gives it up.\<close>

lemma dropped_keeps:
  assumes "fds_ok path k cl" "owner_ok path k cl" "descriptor (cl p) = Some fd" "dropped fd k k'" "descriptor c = None"
  shows "fds_ok path k' (cl(p := c))" "owner_ok path k' (cl(p := c))"
proof -
  have other: "x \<noteq> fd" if "descriptor ((cl(p := c)) q) = Some x" for q x
    using that assms(1,3,5) unfolding fds_ok_def by (cases "q = p") auto
  have sub: "descriptor (cl q) = Some x" if "descriptor ((cl(p := c)) q) = Some x" for q x
    using that assms(5) by (cases "q = p") auto
  have fs: "linkless (k_fs k')" using assms(1,4) by (simp add: fds_ok_def dropped_def)
  have open': "map_of (k_open k') x = Some (clean_parts path) \<and> x < k_next k'" if "descriptor ((cl(p := c)) q) = Some x" for q x
    using assms(1,4) other [OF that] sub [OF that] by (simp add: fds_ok_def dropped_def)
  have uniq: "q = r" if "descriptor ((cl(p := c)) q) = Some x" "descriptor ((cl(p := c)) r) = Some x" for q r x
    using assms(1) sub [OF that(1)] sub [OF that(2)] unfolding fds_ok_def by blast
  show "fds_ok path k' (cl(p := c))" unfolding fds_ok_def using fs open' uniq by blast
  have not_working: "c \<noteq> Working x n" for x n using assms(5) by auto
  have worker: "(\<exists>q n. (cl(p := c)) q = Working x n) \<longleftrightarrow> x \<noteq> fd \<and> (\<exists>q n. cl q = Working x n)" for x
  proof
    assume "\<exists>q n. (cl(p := c)) q = Working x n"
    then obtain q n where q: "(cl(p := c)) q = Working x n" by blast
    then have "descriptor ((cl(p := c)) q) = Some x" by simp
    from other [OF this] q not_working show "x \<noteq> fd \<and> (\<exists>q n. cl q = Working x n)" by (cases "q = p") auto
  next
    assume a: "x \<noteq> fd \<and> (\<exists>q n. cl q = Working x n)"
    then obtain q n where q: "cl q = Working x n" by blast
    then have "q \<noteq> p" using a assms(3) by auto
    with q show "\<exists>q n. (cl(p := c)) q = Working x n" by (intro exI [of _ q] exI [of _ n]) simp
  qed
  have own: "k_owner k' (clean_parts path) = Some x \<longleftrightarrow> x \<noteq> fd \<and> k_owner k (clean_parts path) = Some x" for x
    using assms(4) by (auto simp: dropped_def)
  show "owner_ok path k' (cl(p := c))"
    unfolding owner_ok_def own worker using assms(2) by (simp add: owner_ok_def)
qed

lemma fold_segment_snoc: "fold (do_segment prog) (segs @ [(p, n)]) w = fold (\<lambda>f. f) (take n (prog p)) (fold (do_segment prog) segs w)"
  by (simp add: do_segment_def)

lemma serial_leave:
  assumes "serial prog w0 segs cl w" "fds_ok path k cl" "owner_ok path k cl" "cl p = Working fd n" "\<forall>x m. c \<noteq> Working x m"
  shows "serial prog w0 (segs @ [(p, n)]) (cl(p := c)) w"
proof -
  have "(cl(p := c)) q \<noteq> Working x m" for q x m
    using one_worker [OF assms(2,3,4), of q x m] assms(5) by auto
  then show ?thesis using assms(1,4) by (simp add: serial_def)
qed

lemma serial_other:
  assumes "serial prog w0 segs cl w" "\<forall>x m. cl p \<noteq> Working x m" "\<forall>x m. c \<noteq> Working x m"
  shows "serial prog w0 segs (cl(p := c)) w"
proof -
  have "(cl(p := c)) q = Working x m \<longleftrightarrow> cl q = Working x m" for q x m using assms(2,3) by auto
  with assms(1) show ?thesis unfolding serial_def by presburger
qed

lemma open_lock_effect:
  assumes "open_lock path k = (r, k')" "linkless (k_fs k)" "clean_abs path"
  shows "linkless (k_fs k') \<and> k_owner k' = k_owner k \<and>
    (case r of Inl e \<Rightarrow> k_open k' = k_open k \<and> k_next k' = k_next k
     | Inr fd \<Rightarrow> fd = k_next k \<and> k_open k' = (fd, clean_parts path) # k_open k \<and> k_next k' = k_next k + 1)"
proof -
  obtain x s where p: "prepare_lock path (k_fs k) = (x, s)" by fastforce
  note e = prepare_lock_effect [OF p assms(2,3)]
  show ?thesis
  proof (cases x)
    case (Inl e')
    with assms(1) p have "r = Inl e'" "k' = k\<lparr>k_fs := s\<rparr>" by (simp_all add: open_lock_def)
    with e show ?thesis by simp
  next
    case (Inr l)
    with assms(1) p have "r = Inr (k_next k)"
      "k' = k\<lparr>k_fs := s, k_open := (k_next k, l) # k_open k, k_next := k_next k + 1\<rparr>" by (simp_all add: open_lock_def)
    with e Inr show ?thesis by simp
  qed
qed

lemma fds_ok_kernel:
  assumes "fds_ok path k cl" "linkless (k_fs k')" "k_open k' = k_open k" "k_next k' = k_next k" "\<forall>q. descriptor (cl' q) = descriptor (cl q)"
  shows "fds_ok path k' cl'"
  using assms unfolding fds_ok_def by simp

lemma fds_ok_open:
  assumes "fds_ok path k cl" "linkless (k_fs k')" "k_open k' = (k_next k, clean_parts path) # k_open k" "k_next k' = k_next k + 1"
    "descriptor (cl p) = None" "descriptor c = Some (k_next k)"
  shows "fds_ok path k' (cl(p := c))"
proof -
  have cases: "q = p \<and> x = k_next k \<or> descriptor (cl q) = Some x \<and> x < k_next k \<and> q \<noteq> p"
    if "descriptor ((cl(p := c)) q) = Some x" for q x
    using that assms(1,5,6) unfolding fds_ok_def by (cases "q = p") auto
  have "map_of (k_open k') x = Some (clean_parts path) \<and> x < k_next k'" if "descriptor ((cl(p := c)) q) = Some x" for q x
    using cases [OF that] assms(1,3,4) unfolding fds_ok_def by auto
  moreover have "q = r" if d: "descriptor ((cl(p := c)) q) = Some x" "descriptor ((cl(p := c)) r) = Some x" for q r x
    using cases [OF d(1)] cases [OF d(2)] assms(1) unfolding fds_ok_def by (elim disjE conjE) (simp, simp, simp, blast)
  ultimately show ?thesis using assms(2) unfolding fds_ok_def by blast
qed

lemma owner_ok_other:
  assumes "owner_ok path k cl" "k_owner k' = k_owner k" "\<forall>x m. cl p \<noteq> Working x m" "\<forall>x m. c \<noteq> Working x m"
  shows "owner_ok path k' (cl(p := c))"
proof -
  have "(cl(p := c)) q = Working x m \<longleftrightarrow> cl q = Working x m" for q x m using assms(3,4) by auto
  with assms(1,2) show ?thesis unfolding owner_ok_def by presburger
qed

lemma enter_effect:
  assumes "take_lock nb fd k = (Some (Inr fd'), k')" "fds_ok path k cl" "owner_ok path k cl" "cl p = Waiting nb fd"
  shows "fd' = fd \<and> (\<forall>q x m. cl q \<noteq> Working x m) \<and> fds_ok path k' (cl(p := Working fd 0)) \<and> owner_ok path k' (cl(p := Working fd 0))"
proof -
  let ?l = "clean_parts path"
  have d: "descriptor (cl p) = Some fd" using assms(4) by simp
  then have m: "map_of (k_open k) fd = Some ?l" using assms(2) unfolding fds_ok_def by blast
  have t: "fd' = fd" "k_owner k ?l = None \<or> k_owner k ?l = Some fd" "k_owner k' = (k_owner k)(?l \<mapsto> fd)"
    "k_fs k' = k_fs k" "k_open k' = k_open k" "k_next k' = k_next k"
    using take_lock_cases [OF assms(1) m] by auto
  have "k_owner k ?l \<noteq> Some fd"
  proof
    assume "k_owner k ?l = Some fd"
    then obtain q n where "cl q = Working fd n" using assms(3) unfolding owner_ok_def by blast
    then have "q = p" using assms(2,4) unfolding fds_ok_def by (metis descriptor.simps(1,2))
    with \<open>cl q = Working fd n\<close> assms(4) show False by simp
  qed
  then have none: "cl q \<noteq> Working x m" for q x m using t(2) assms(3) unfolding owner_ok_def by (metis option.distinct(1))
  have fds: "fds_ok path k' (cl(p := Working fd 0))"
    by (rule fds_ok_kernel [OF assms(2)]) (use t assms(2,4) in \<open>auto simp: fds_ok_def\<close>)
  have "owner_ok path k' (cl(p := Working fd 0))" unfolding owner_ok_def using t(3) none by auto
  with t(1) none fds show ?thesis by blast
qed

lemma lock_inv_start: "linkless fs \<Longrightarrow> lock_inv path prog w (lock_start fs fl w)"
  by (simp add: lock_inv_def lock_start_def fds_ok_def owner_ok_def serial_def)

lemma lock_inv_step:
  assumes "lock_step path prog s s'" "clean_abs path" "lock_inv path prog w0 s"
  shows "lock_inv path prog w0 s'"
proof -
  have f: "fds_ok path (kern s) (client s)" and o: "owner_ok path (kern s) (client s)"
    and ser: "serial prog w0 (segments s) (client s) (shared s)" and seg: "\<forall>x\<in>set (segments s). snd x \<le> length (prog (fst x))"
    using assms(3) by (simp_all add: lock_inv_def)
  have ll: "linkless (k_fs (kern s))" using f by (simp add: fds_ok_def)
  from assms(1) show ?thesis
  proof cases
    case (opens p fd k nb)
    note e = open_lock_effect [OF opens(3) ll assms(2)]
    have "fds_ok path k ((client s)(p := Waiting nb fd))" by (rule fds_ok_open [OF f]) (use e opens(2) in auto)
    moreover have "owner_ok path k ((client s)(p := Waiting nb fd))" by (rule owner_ok_other [OF o]) (use e opens(2) in auto)
    moreover have "serial prog w0 (segments s) ((client s)(p := Waiting nb fd)) (shared s)" by (rule serial_other [OF ser]) (use opens(2) in auto)
    ultimately show ?thesis using seg opens(1) by (simp add: lock_inv_def)
  next
    case (open_fails p e k)
    note e = open_lock_effect [OF open_fails(3) ll assms(2)]
    have "fds_ok path k ((client s)(p := Ended (Some e)))" by (rule fds_ok_kernel [OF f]) (use e open_fails(2) in auto)
    moreover have "owner_ok path k ((client s)(p := Ended (Some e)))" by (rule owner_ok_other [OF o]) (use e open_fails(2) in auto)
    moreover have "serial prog w0 (segments s) ((client s)(p := Ended (Some e))) (shared s)" by (rule serial_other [OF ser]) (use open_fails(2) in auto)
    ultimately show ?thesis using seg open_fails(1) by (simp add: lock_inv_def)
  next
    case (enters p nb fd fd' k)
    note e = enter_effect [OF enters(3) f o enters(2)]
    have "serial prog w0 (segments s) ((client s)(p := Working fd 0)) (shared s)"
      using ser e by (auto simp: serial_def do_segment_def)
    with e seg enters(1) show ?thesis by (simp add: lock_inv_def)
  next
    case (refused p nb fd e k)
    have d: "descriptor (client s p) = Some fd" using refused(2) by simp
    have m: "map_of (k_open (kern s)) fd = Some (clean_parts path)" using f d unfolding fds_ok_def by blast
    have "dropped fd (kern s) k" using take_lock_cases [OF refused(3) m] by auto
    note k = dropped_keeps [OF f o d this, of "Ended (Some e)"]
    have "serial prog w0 (segments s) ((client s)(p := Ended (Some e))) (shared s)" by (rule serial_other [OF ser]) (use refused(2) in auto)
    with k seg refused(1) show ?thesis by (simp add: lock_inv_def)
  next
    case (works p fd n)
    have same: "\<forall>q. descriptor (((client s)(p := Working fd (n + 1))) q) = descriptor (client s q)" using works(2) by simp
    have "fds_ok path (kern s) ((client s)(p := Working fd (n + 1)))" by (rule fds_ok_kernel [OF f ll _ _ same]) simp_all
    moreover have "owner_ok path (kern s) ((client s)(p := Working fd (n + 1)))"
    proof -
      have "(\<exists>q m. ((client s)(p := Working fd (n + 1))) q = Working x m) \<longleftrightarrow> (\<exists>q m. client s q = Working x m)" for x
      proof (cases "x = fd")
        case True
        then show ?thesis using works(2) by (metis fun_upd_same)
      next
        case False
        then have "((client s)(p := Working fd (n + 1))) q = Working x m \<longleftrightarrow> client s q = Working x m" for q m
          using works(2) by (cases "q = p") auto
        then show ?thesis by presburger
      qed
      with o show ?thesis unfolding owner_ok_def by presburger
    qed
    moreover have "serial prog w0 (segments s) ((client s)(p := Working fd (n + 1))) ((prog p ! n) (shared s))"
    proof -
      have "shared s = fold (do_segment prog) (segments s @ [(p, n)]) w0" using ser works(2) unfolding serial_def by blast
      then have "(prog p ! n) (shared s) = fold (do_segment prog) (segments s @ [(p, n + 1)]) w0"
        using works(3) by (simp add: do_segment_def take_Suc_conv_app_nth)
      moreover have only: "q = p \<and> m = n + 1" if "((client s)(p := Working fd (n + 1))) q = Working x m" for q x m
        using one_worker [OF f o works(2), of q x m] that by (cases "q = p") auto
      moreover have "((client s)(p := Working fd (n + 1))) p = Working fd (n + 1)" by simp
      moreover have "n + 1 \<le> length (prog p)" using works(3) by simp
      ultimately show ?thesis unfolding serial_def by blast
    qed
    ultimately show ?thesis using seg works(1) by (simp add: lock_inv_def)
  next
    case (leaves p fd n r h k)
    have d: "descriptor (client s p) = Some fd" using leaves(2) by simp
    have "dropped fd (kern s) k" using lock_Close_dropped [OF leaves(4)] by simp
    note k = dropped_keeps [OF f o d this, of "Ended None"]
    have "serial prog w0 (segments s @ [(p, n)]) ((client s)(p := Ended None)) (shared s)"
      by (rule serial_leave [OF ser f o leaves(2)]) simp
    with k seg leaves(1,3) show ?thesis by (simp add: lock_inv_def)
  next
    case (dies p fd)
    note k = dropped_keeps [OF f o dies(2) drop_dropped, of "Ended None"]
    let ?new = "case client s p of Working x n \<Rightarrow> [(p, n)] | _ \<Rightarrow> []"
    have "serial prog w0 (segments s @ ?new) ((client s)(p := Ended None)) (shared s)"
    proof (cases "client s p")
      case (Working x n)
      with serial_leave [OF ser f o Working, of "Ended None"] show ?thesis by simp
    next
      case (Waiting nb x)
      then show ?thesis using serial_other [OF ser, of p "Ended None"] by simp
    qed (use dies(2) in simp_all)
    moreover have "\<forall>x\<in>set ?new. snd x \<le> length (prog (fst x))"
    proof (cases "client s p")
      case (Working x n)
      have "n \<le> length (prog p)" using ser Working unfolding serial_def by blast
      with Working show ?thesis by simp
    qed simp_all
    ultimately show ?thesis using k seg dies(1) by (auto simp: lock_inv_def)
  qed
qed

lemma lock_inv_run:
  assumes "lock_run path prog s s'" "clean_abs path" "lock_inv path prog w0 s"
  shows "lock_inv path prog w0 s'"
  using assms(1,3) unfolding lock_run_def by (induction rule: rtranclp_induct) (auto intro: lock_inv_step [OF _ assms(2)])

section \<open>The properties of the lock\<close>

text \<open>
  C4. Lifecycle commands are serialised: from a start where no path goes through a link, whatever the
  processes do and whenever they are killed, at most one holds the lock, and the shared state is what the
  commands did one after the other, each up to the step where it left, with the one in progress last.
\<close>

theorem lock_serialises:
  assumes "lock_run path prog (lock_start fs fl w) s" "clean_abs path" "linkless fs"
  shows "(\<forall>p q fd fd' n m. client s p = Working fd n \<and> client s q = Working fd' m \<longrightarrow> p = q) \<and>
    (\<exists>current. shared s = fold (do_segment prog) (segments s @ current) w \<and>
       (\<forall>x\<in>set (segments s @ current). snd x \<le> length (prog (fst x))) \<and>
       (\<forall>p n. (p, n) \<in> set current \<longleftrightarrow> (\<exists>fd. client s p = Working fd n)) \<and> length current \<le> 1)"
proof -
  have inv: "lock_inv path prog w s" by (rule lock_inv_run [OF assms(1,2) lock_inv_start [OF assms(3)]])
  then have f: "fds_ok path (kern s) (client s)" and o: "owner_ok path (kern s) (client s)"
    and ser: "serial prog w (segments s) (client s) (shared s)" and seg: "\<forall>x\<in>set (segments s). snd x \<le> length (prog (fst x))"
    by (simp_all add: lock_inv_def)
  have excl: "\<forall>p q fd fd' n m. client s p = Working fd n \<and> client s q = Working fd' m \<longrightarrow> p = q"
    using one_worker [OF f o] by blast
  show ?thesis
  proof (cases "\<exists>p fd n. client s p = Working fd n")
    case True
    then obtain p fd n where p: "client s p = Working fd n" by blast
    then have w: "n \<le> length (prog p)" "shared s = fold (do_segment prog) (segments s @ [(p, n)]) w"
      using ser unfolding serial_def by blast+
    have "(q, m) \<in> set [(p, n)] \<longleftrightarrow> (\<exists>fd. client s q = Working fd m)" for q m
      using p one_worker [OF f o p, of q _ m] by auto
    with excl w seg show ?thesis by (intro conjI exI [of _ "[(p, n)]"]) auto
  next
    case False
    with excl ser seg show ?thesis by (intro conjI exI [of _ "[]"]) (auto simp: serial_def)
  qed
qed

text \<open>Two processes, each with a two-step command: the first is killed after one step, the second runs.\<close>

definition demo_prog :: "nat \<Rightarrow> (string \<Rightarrow> string) list" where
  "demo_prog p = (if p = 0 then [(\<lambda>w. w @ ''a''), (\<lambda>w. w @ ''b'')] else [(\<lambda>w. w @ ''c''), (\<lambda>w. w @ ''d'')])"

definition demo_lock_path :: string where
  "demo_lock_path = ''/h/.iold/operation.lock''"

lemma demo_prepare:
  obtains f1 f2 where "prepare_lock demo_lock_path demo_fs = (Inr [''h'', ''.iold'', ''operation.lock''], f1)"
    "prepare_lock demo_lock_path f1 = (Inr [''h'', ''.iold'', ''operation.lock''], f2)"
proof -
  have "fst (prepare_lock demo_lock_path demo_fs) = Inr [''h'', ''.iold'', ''operation.lock'']" by code_simp
  moreover have "fst (prepare_lock demo_lock_path (snd (prepare_lock demo_lock_path demo_fs))) = Inr [''h'', ''.iold'', ''operation.lock'']"
    by code_simp
  ultimately show thesis by (intro that [of "snd (prepare_lock demo_lock_path demo_fs)"]) (simp_all add: prod_eq_iff)
qed

lemma demo_lock_run:
  "\<exists>s. lock_run demo_lock_path demo_prog (lock_start demo_fs [] []) s \<and> client s 1 = Working 4 1 \<and> shared s = ''ac'' \<and> segments s = [(0, 1)]"
proof -
  let ?step = "lock_step demo_lock_path demo_prog"
  let ?l = "[''h'', ''.iold'', ''operation.lock'']"
  let ?s0 = "lock_start demo_fs [] ([] :: string)"
  obtain f1 f2 where p: "prepare_lock demo_lock_path demo_fs = (Inr ?l, f1)" "prepare_lock demo_lock_path f1 = (Inr ?l, f2)"
    by (rule demo_prepare)
  have o1: "open_lock demo_lock_path (kern ?s0) = (Inr 3, \<lparr>k_fs = f1, k_open = [(3, ?l)], k_owner = (\<lambda>l. None), k_next = 4, k_faults = []\<rparr>)"
    using p(1) by (simp add: open_lock_def lock_start_def)
  let ?k1 = "\<lparr>k_fs = f1, k_open = [(3, ?l)], k_owner = (\<lambda>l. None), k_next = 4, k_faults = []\<rparr>"
  let ?s1 = "?s0\<lparr>kern := ?k1, client := (client ?s0)(0 := Waiting False 3)\<rparr>"
  have s1: "?step ?s0 ?s1" by (rule lock_step.opens [OF _ o1]) (simp add: lock_start_def)
  let ?k2 = "?k1\<lparr>k_owner := (\<lambda>l. None)(?l \<mapsto> 3)\<rparr>"
  have t2: "take_lock False 3 (kern ?s1) = (Some (Inr 3), ?k2)" by (simp add: take_lock_def flock_ex_def)
  let ?s2 = "?s1\<lparr>kern := ?k2, client := (client ?s1)(0 := Working 3 0)\<rparr>"
  have s2: "?step ?s1 ?s2" by (rule lock_step.enters [OF _ t2]) simp
  let ?s3 = "?s2\<lparr>shared := ''a'', client := (client ?s2)(0 := Working 3 1)\<rparr>"
  have s3: "?step ?s2 ?s3"
    using lock_step.works [of ?s2 0 3 0 demo_prog demo_lock_path] by (simp add: demo_prog_def lock_start_def)
  let ?k4 = "?k2\<lparr>k_fs := f2, k_open := [(4, ?l), (3, ?l)], k_next := 5\<rparr>"
  have o4: "open_lock demo_lock_path (kern ?s3) = (Inr 4, ?k4)"
    using p(2) by (simp add: open_lock_def)
  let ?s4 = "?s3\<lparr>kern := ?k4, client := (client ?s3)(1 := Waiting False 4)\<rparr>"
  have s4: "?step ?s3 ?s4" by (rule lock_step.opens [OF _ o4]) (simp add: lock_start_def)
  let ?s5 = "?s4\<lparr>kern := drop_fd 3 ?k4, client := (client ?s4)(0 := Ended None), segments := [(0, 1)]\<rparr>"
  have s5: "?step ?s4 ?s5" using lock_step.dies [of ?s4 0 3 demo_lock_path demo_prog] by (simp add: lock_start_def)
  have t6: "take_lock False 4 (kern ?s5) = (Some (Inr 4), (drop_fd 3 ?k4)\<lparr>k_owner := (k_owner (drop_fd 3 ?k4))(?l \<mapsto> 4)\<rparr>)"
    by (simp add: take_lock_def flock_ex_def) (simp add: drop_fd_def release_def)
  let ?s6 = "?s5\<lparr>kern := (drop_fd 3 ?k4)\<lparr>k_owner := (k_owner (drop_fd 3 ?k4))(?l \<mapsto> 4)\<rparr>, client := (client ?s5)(1 := Working 4 0)\<rparr>"
  have s6: "?step ?s5 ?s6" by (rule lock_step.enters [OF _ t6]) simp
  let ?s7 = "?s6\<lparr>shared := ''ac'', client := (client ?s6)(1 := Working 4 1)\<rparr>"
  have s7: "?step ?s6 ?s7"
    using lock_step.works [of ?s6 1 4 0 demo_prog demo_lock_path] by (simp add: demo_prog_def)
  have "lock_run demo_lock_path demo_prog ?s0 ?s7"
    unfolding lock_run_def using s1 s2 s3 s4 s5 s6 s7 by (meson rtranclp.rtrancl_into_rtrancl rtranclp.rtrancl_refl)
  then show ?thesis by (intro exI [of _ ?s7]) simp
qed

lemma demo_lock_clean: "clean_abs demo_lock_path"
  by code_simp

theorem lock_serialises_witness:
  "\<exists>s current. lock_run demo_lock_path demo_prog (lock_start demo_fs [] []) s \<and> client s 1 = Working 4 1 \<and>
     shared s = fold (do_segment demo_prog) ([(0, 1)] @ current) [] \<and> (1, 1) \<in> set current"
proof -
  obtain s where s: "lock_run demo_lock_path demo_prog (lock_start demo_fs [] []) s" "client s 1 = Working 4 1" "segments s = [(0, 1)]"
    using demo_lock_run by blast
  from lock_serialises [OF s(1) demo_lock_clean demo_fs_linkless] s show ?thesis by metis
qed

text \<open>
  Acquiring is exact: \<open>TryAcquire\<close> answers ErrBusy only while the description of another
  process owns the file, the lock is never granted while one does, and a process whose holder has returned or
  died is granted it by its pending call; every refusal closes the file it opened.
\<close>

theorem acquire_exact:
  assumes "acquire path nb k = (r, k')" "linkless (k_fs k)" "clean_abs path" "Some EWOULDBLOCK \<notin> set (k_faults k)"
    "\<forall>l. k_owner k l \<noteq> Some (k_next k)" "map_of (k_open k) (k_next k) = None"
  shows "(case r of
      None \<Rightarrow> \<not> nb \<and> k_owner k (clean_parts path) \<noteq> None \<and> k_owner k' = k_owner k
    | Some (Inr fd) \<Rightarrow> k_owner k (clean_parts path) = None \<and> k_owner k' = (k_owner k)(clean_parts path \<mapsto> fd)
    | Some (Inl e) \<Rightarrow> k_owner k' = k_owner k \<and> (\<forall>x. map_of (k_open k') x = map_of (k_open k) x) \<and>
        (e = Sentinel ErrBusy \<longrightarrow> nb \<and> k_owner k (clean_parts path) \<noteq> None))"
proof -
  let ?l = "clean_parts path"
  obtain x k1 where o: "open_lock path k = (x, k1)" by fastforce
  note e = open_lock_effect [OF o assms(2,3)]
  show ?thesis
  proof (cases x)
    case (Inl er)
    have "er \<noteq> Sentinel ErrBusy"
      using o Inl by (auto simp: open_lock_def prepare_lock_def wrapf_def split: sum.splits prod.splits)
    moreover have "r = Some (Inl er)" "k' = k1" using assms(1) o Inl by (simp_all add: acquire_def)
    ultimately show ?thesis using e Inl by simp
  next
    case (Inr fd)
    have t: "take_lock nb fd k1 = (r, k')" using assms(1) o Inr by (simp add: acquire_def)
    have k1: "fd = k_next k" "k_owner k1 = k_owner k" "k_open k1 = (fd, ?l) # k_open k" "k_faults k1 = k_faults k"
      using e Inr o by (auto simp: open_lock_def split: sum.splits prod.splits)
    have m: "map_of (k_open k1) fd = Some ?l" using k1 by simp
    have own: "k_owner k ?l \<noteq> Some fd" using assms(5) k1(1) by simp
    show ?thesis
    proof (cases r)
      case None
      then have f: "fst (flock_ex nb fd k1) = None" using t by (auto simp: take_lock_def split: prod.splits option.splits sum.splits)
      then have "\<not> nb \<and> k_owner k1 ?l \<noteq> None" using m by (auto simp: flock_ex_def split: list.splits option.splits if_splits)
      moreover have "k' = k1" using t f m None by (auto simp: take_lock_def flock_ex_def split: list.splits option.splits if_splits)
      ultimately show ?thesis using None k1 by simp
    next
      case (Some y)
      consider er where "y = Inl er" "dropped fd k1 k'" "er = Sentinel ErrBusy \<longrightarrow> nb \<and> k_owner k1 ?l \<noteq> None"
        | "y = Inr fd" "k_owner k1 ?l = None" "k_owner k' = (k_owner k1)(?l \<mapsto> fd)"
        using take_lock_cases [OF t [unfolded Some] m] assms(4) k1(4) own k1(2) by auto
      then show ?thesis
      proof cases
        case 1
        have "k_owner k' = k_owner k" using 1(2) assms(5) k1 by (simp add: dropped_def fun_eq_iff)
        moreover have "map_of (k_open k') z = map_of (k_open k) z" for z
          using 1(2) assms(6) k1 by (simp add: dropped_def)
        ultimately show ?thesis using Some 1 k1 by simp
      next
        case 2
        with Some k1 show ?thesis by simp
      qed
    qed
  qed
qed

definition demo_held :: kernel where
  "demo_held = \<lparr>k_fs = demo_fs, k_open = [(3, [''h'', ''.iold'', ''operation.lock''])],
     k_owner = (\<lambda>l. if l = [''h'', ''.iold'', ''operation.lock''] then Some 3 else None), k_next = 4, k_faults = []\<rparr>"

theorem acquire_exact_witness:
  "\<exists>k'. TryAcquire demo_lock_path demo_held = (Some (Inl (Sentinel ErrBusy)), k') \<and> k_owner k' = k_owner demo_held \<and>
     map_of (k_open k') 4 = None"
proof -
  have "fst (acquire demo_lock_path True demo_held) = Some (Inl (Sentinel ErrBusy))" by code_simp
  then obtain k' where a: "acquire demo_lock_path True demo_held = (Some (Inl (Sentinel ErrBusy)), k')"
    by (metis prod.collapse)
  have "linkless (k_fs demo_held)" "Some EWOULDBLOCK \<notin> set (k_faults demo_held)"
    "\<forall>l. k_owner demo_held l \<noteq> Some (k_next demo_held)" "map_of (k_open demo_held) (k_next demo_held) = None"
    using demo_fs_linkless by (simp_all add: demo_held_def)
  from acquire_exact [OF a this(1) demo_lock_clean this(2-4)] a show ?thesis
    by (intro exI [of _ k']) (simp add: TryAcquire_def demo_held_def)
qed

text \<open>
  The lock is never lost: in every state the processes can reach, each process in a call of the lock or in
  its command has a description of its own, open on the lock file; and whenever no process works, whoever
  worked before and however it ended, the pending call of any waiting process is granted at once, if the
  kernel does not fail.
\<close>

theorem lock_never_lost:
  assumes "lock_run path prog (lock_start fs fl w) s" "clean_abs path" "linkless fs"
  shows "(\<forall>p fd. descriptor (client s p) = Some fd \<longrightarrow> map_of (k_open (kern s)) fd = Some (clean_parts path)) \<and>
    (\<forall>p q fd. descriptor (client s p) = Some fd \<and> descriptor (client s q) = Some fd \<longrightarrow> p = q) \<and>
    (\<forall>p nb fd. client s p = Waiting nb fd \<and> (\<forall>q x n. client s q \<noteq> Working x n) \<and> k_faults (kern s) = [] \<longrightarrow>
       (\<exists>k. lock_step path prog s (s\<lparr>kern := k, client := (client s)(p := Working fd 0)\<rparr>)))"
proof -
  have "lock_inv path prog w s" by (rule lock_inv_run [OF assms(1,2) lock_inv_start [OF assms(3)]])
  then have f: "fds_ok path (kern s) (client s)" and o: "owner_ok path (kern s) (client s)" by (simp_all add: lock_inv_def)
  have "\<exists>k. lock_step path prog s (s\<lparr>kern := k, client := (client s)(p := Working fd 0)\<rparr>)"
    if p: "client s p = Waiting nb fd" "\<forall>q x n. client s q \<noteq> Working x n" "k_faults (kern s) = []" for p nb fd
  proof -
    have d: "descriptor (client s p) = Some fd" using p(1) by simp
    have m: "map_of (k_open (kern s)) fd = Some (clean_parts path)" using f d unfolding fds_ok_def by blast
    have "k_owner (kern s) (clean_parts path) = None" using o p(2) unfolding owner_ok_def by (metis option.exhaust)
    with m p(3) have "\<exists>k. take_lock nb fd (kern s) = (Some (Inr fd), k)" by (simp add: take_lock_def flock_ex_def)
    with lock_step.enters [OF p(1)] show ?thesis by blast
  qed
  with f show ?thesis unfolding fds_ok_def by blast
qed

theorem lock_never_lost_witness:
  "\<exists>s. lock_run demo_lock_path demo_prog (lock_start demo_fs [] []) s \<and> client s 1 = Working 4 1 \<and>
     map_of (k_open (kern s)) 4 = Some [''h'', ''.iold'', ''operation.lock'']"
proof -
  obtain s where s: "lock_run demo_lock_path demo_prog (lock_start demo_fs [] []) s" "client s 1 = Working 4 1"
    using demo_lock_run by blast
  have "clean_parts demo_lock_path = [''h'', ''.iold'', ''operation.lock'']" by code_simp
  moreover have "descriptor (client s 1) = Some 4" using s(2) by simp
  ultimately show ?thesis using lock_never_lost [OF s(1) demo_lock_clean demo_fs_linkless] s by metis
qed

end
