(* ===== verification/Redact.thy ===== *)
theory Redact imports GoErrors begin

text \<open>
  Redaction of log lines (internal/redact/redact.go): the regular expressions of the rules with the
  leftmost-first matching of Go's regexp package, \<open>ReplaceAllString\<close>, the rules in their order, and the
  copy of a log line by line. Strings are bytes; every class of the rules treats the bytes of a longer rune
  alike, except that under the flag i the letters s and k and the class w also match the runes U+017F and
  U+212A, two and three bytes.
\<close>

section \<open>Matching\<close>

text \<open>
  A unit answers how many bytes it takes at the head of a text, 0 for no match. \<open>RRep k\<close> is the greedy
  repetition of a unit, at least \<open>k\<close> times; \<open>RBound\<close> is the ASCII word boundary.
\<close>

datatype rx =
    REps
  | RUnit "string \<Rightarrow> nat"
  | RRep nat "string \<Rightarrow> nat"
  | RSeq rx rx
  | RAlt rx rx
  | ROpt rx
  | RCap nat rx
  | RBound

type_synonym captures = "nat \<Rightarrow> string"

text \<open>A position: the bytes before it, latest first, the bytes after it, the groups captured.\<close>

type_synonym rxstate = "string \<times> string \<times> captures"

definition word_char :: "char \<Rightarrow> bool" where
  "word_char c = (is_digit c \<or> is_lower c \<or> is_upper c \<or> c = CHR ''_'')"

definition word_head :: "string \<Rightarrow> bool" where
  "word_head s = (case s of [] \<Rightarrow> False | c # cs \<Rightarrow> word_char c)"

definition advance :: "nat \<Rightarrow> rxstate \<Rightarrow> rxstate" where
  "advance n st = (case st of (pre, xs, caps) \<Rightarrow> (rev (take n xs) @ pre, drop n xs, caps))"

text \<open>All positions a repetition can stop at, the nearest first.\<close>

function stops :: "(string \<Rightarrow> nat) \<Rightarrow> rxstate \<Rightarrow> rxstate list" where
  "stops u (pre, xs, caps) =
     (pre, xs, caps) # (if u xs = 0 \<or> xs = [] then [] else stops u (advance (u xs) (pre, xs, caps)))"
  by pat_completeness auto
termination
  by (relation "measure (\<lambda>(u, pre, xs, caps). length xs)") (auto simp: advance_def)

declare stops.simps [simp del]

text \<open>The matches at a position in the order of preference of a backtracking matcher.\<close>

fun rx_match :: "rx \<Rightarrow> rxstate \<Rightarrow> rxstate list" where
  "rx_match REps st = [st]"
| "rx_match (RUnit u) st = (let n = u (fst (snd st)) in if n = 0 then [] else [advance n st])"
| "rx_match (RRep k u) st = rev (drop k (stops u st))"
| "rx_match (RSeq a b) st = concat (map (rx_match b) (rx_match a st))"
| "rx_match (RAlt a b) st = rx_match a st @ rx_match b st"
| "rx_match (ROpt a) st = rx_match a st @ [st]"
| "rx_match (RCap i a) st =
     map (\<lambda>(pre, xs, caps). (pre, xs, caps(i := rev (take (length pre - length (fst st)) pre)))) (rx_match a st)"
| "rx_match RBound st = (case st of (pre, xs, caps) \<Rightarrow> if word_head pre \<noteq> word_head xs then [st] else [])"

text \<open>
  \<open>ReplaceAllString\<close> from a position on: the leftmost match, the preferred one there. (No rule matches
  the empty text, the case the library treats apart.)
\<close>

function replace_all :: "rx \<Rightarrow> (captures \<Rightarrow> string) \<Rightarrow> string \<Rightarrow> string \<Rightarrow> string" where
  "replace_all r t pre xs =
     (case rx_match r (pre, xs, \<lambda>i. []) of
        (pre', xs', caps) # ms \<Rightarrow>
          if length xs' < length xs then t caps @ replace_all r t pre' xs'
          else (case xs of [] \<Rightarrow> [] | c # cs \<Rightarrow> c # replace_all r t (c # pre) cs)
      | [] \<Rightarrow> (case xs of [] \<Rightarrow> [] | c # cs \<Rightarrow> c # replace_all r t (c # pre) cs))"
  by pat_completeness auto
termination
  by (relation "measure (\<lambda>(r, t, pre, xs). length xs)") auto

declare replace_all.simps [simp del]

section \<open>The rules\<close>

definition placeholder :: string where
  "placeholder = ''[REDACTED]''"

definition one :: "(char \<Rightarrow> bool) \<Rightarrow> string \<Rightarrow> nat" where
  "one P s = (case s of [] \<Rightarrow> 0 | c # cs \<Rightarrow> if P c then 1 else 0)"

definition rx_space :: "char \<Rightarrow> bool" where
  "rx_space c = (c \<in> {CHR 0x09, CHR 0x0A, CHR 0x0C, CHR 0x0D, CHR '' ''})"

definition long_s :: string where
  "long_s = [CHR 0xC5, CHR 0xBF]"

definition kelvin :: string where
  "kelvin = [CHR 0xE2, CHR 0x84, CHR 0xAA]"

text \<open>One character of a literal under the flag i, and the class of word characters, dot and dash.\<close>

definition fold_unit :: "char \<Rightarrow> string \<Rightarrow> nat" where
  "fold_unit c s =
     (if s \<noteq> [] \<and> lower_char (hd s) = c then 1
      else if c = CHR ''s'' \<and> has_prefix s long_s then 2
      else if c = CHR ''k'' \<and> has_prefix s kelvin then 3 else 0)"

definition name_unit :: "string \<Rightarrow> nat" where
  "name_unit s =
     (if one (\<lambda>c. word_char c \<or> c = CHR ''.'' \<or> c = CHR ''-'') s = 1 then 1
      else if has_prefix s long_s then 2 else if has_prefix s kelvin then 3 else 0)"

definition lit_i :: "string \<Rightarrow> rx" where
  "lit_i w = foldr (\<lambda>c r. RSeq (RUnit (fold_unit c)) r) w REps"

definition lit :: "string \<Rightarrow> rx" where
  "lit w = foldr (\<lambda>c r. RSeq (RUnit (one (\<lambda>x. x = c))) r) w REps"

fun alts :: "rx list \<Rightarrow> rx" where
  "alts [] = RUnit (\<lambda>s. 0)"
| "alts [r] = r"
| "alts (r # q # rs) = RAlt r (alts (q # rs))"

fun seqs :: "rx list \<Rightarrow> rx" where
  "seqs [] = REps"
| "seqs (r # rs) = RSeq r (seqs rs)"

definition quote :: char where
  "quote = CHR 0x22"

definition header_names :: rx where
  "header_names = alts [lit_i ''authorization'', lit_i ''proxy-authorization'', lit_i ''x-api-key'']"

definition spaces :: rx where
  "spaces = RRep 0 (one rx_space)"

definition rule_json :: rx where
  "rule_json = seqs [RCap 1 (seqs [lit [quote], header_names, lit [quote], spaces, lit '':'', spaces, lit [quote]]),
     RRep 0 (one (\<lambda>c. c \<noteq> quote))]"

definition rule_header :: rx where
  "rule_header = seqs [RBound, RCap 1 header_names,
     RCap 2 (seqs [spaces, RUnit (one (\<lambda>c. c = CHR '':'' \<or> c = CHR ''='')), spaces]),
     RRep 1 (one (\<lambda>c. \<not> rx_space c)),
     ROpt (RCap 3 (seqs [RRep 1 (one rx_space), RRep 1 (one (\<lambda>c. \<not> rx_space c))]))]"

definition secret_names :: rx where
  "secret_names = alts [lit_i ''token'', lit_i ''secret'', lit_i ''password'', lit_i ''passwd'', lit_i ''credential'',
     seqs [lit_i ''api'', ROpt (RUnit (one (\<lambda>c. c = CHR ''_'' \<or> c = CHR ''-''))), lit_i ''key'']]"

definition value_char :: "char \<Rightarrow> bool" where
  "value_char c = (\<not> rx_space c \<and> c \<noteq> quote \<and> c \<noteq> CHR '','' \<and> c \<noteq> CHR '';'' \<and> c \<noteq> CHR ''&'')"

definition rule_assignment :: rx where
  "rule_assignment = seqs [RCap 1 (seqs [RRep 0 name_unit, secret_names, RRep 0 name_unit, ROpt (lit [quote]), spaces,
       RUnit (one (\<lambda>c. c = CHR '':'' \<or> c = CHR ''='')), spaces, ROpt (lit [quote])]),
     RRep 1 (one value_char)]"

definition alpha :: "char \<Rightarrow> bool" where
  "alpha c = (is_lower c \<or> is_upper c)"

definition rule_userinfo :: rx where
  "rule_userinfo = seqs [RCap 1 (seqs [RUnit (one alpha),
       RRep 0 (one (\<lambda>c. alpha c \<or> is_digit c \<or> c = CHR ''+'' \<or> c = CHR ''.'' \<or> c = CHR ''-'')), lit ''://'']),
     RRep 1 (one (\<lambda>c. c \<noteq> CHR ''/'' \<and> \<not> rx_space c \<and> c \<noteq> CHR ''@'')), lit ''@'']"

definition token_char :: "char \<Rightarrow> bool" where
  "token_char c = (alpha c \<or> is_digit c \<or> c = CHR ''_'' \<or> c = CHR ''-'')"

definition token_prefixes :: rx where
  "token_prefixes = alts [lit ''hf_'', lit ''sk-'', lit ''ghp_'', lit ''gho_'', lit ''glpat-'',
     seqs [lit ''xox'', RUnit (one is_lower), lit ''-'']]"

definition rule_token :: rx where
  "rule_token = seqs [RBound, token_prefixes, RRep 8 (one token_char)]"

definition rules :: "(rx \<times> (captures \<Rightarrow> string)) list" where
  "rules =
     [(rule_json, \<lambda>g. g 1 @ placeholder),
      (rule_header, \<lambda>g. g 1 @ g 2 @ placeholder),
      (rule_assignment, \<lambda>g. g 1 @ placeholder),
      (rule_userinfo, \<lambda>g. g 1 @ placeholder @ ''@''),
      (rule_token, \<lambda>g. placeholder)]"

definition Line :: "string \<Rightarrow> string" where
  "Line line = foldl (\<lambda>s (r, t). replace_all r t [] s) line rules"

section \<open>Copying a log\<close>

text \<open>
  \<open>bufio.ScanLines\<close>: the lines of a text without their ends, a final empty line is none; a carriage
  return before the end is dropped.
\<close>

definition drop_cr :: "string \<Rightarrow> string" where
  "drop_cr s = (if s \<noteq> [] \<and> last s = CHR 0x0D then butlast s else s)"

definition raw_lines :: "string \<Rightarrow> string list" where
  "raw_lines s = (let ls = split_on CHR 0x0A s in if last ls = [] then butlast ls else ls)"

definition maxLine :: nat where
  "maxLine = 1024 * 1024"

text \<open>
  \<open>Copy\<close>: every line goes to the writer, which answers each write and may change the state. A line that
  does not fit in the buffer of the scanner with its end stops the copy with an error. The source is the bytes
  that reading it gave and the error that ended them, if it was not their end; what came before it is copied.
\<close>

type_synonym 's writer = "string \<Rightarrow> 's \<Rightarrow> unit result \<times> 's"

fun copy_lines :: "'s writer \<Rightarrow> goerr option \<Rightarrow> string list \<Rightarrow> 's \<Rightarrow> unit result \<times> 's" where
  "copy_lines wr stop [] s = (case stop of None \<Rightarrow> (Inr (), s) | Some e \<Rightarrow> (Inl e, s))"
| "copy_lines wr stop (l # ls) s =
     (if maxLine \<le> length l then (Inl (Opaque ''bufio.Scanner: token too long''), s)
      else case wr (Line (drop_cr l) @ [CHR 0x0A]) s of
             (Inl e, s1) \<Rightarrow> (Inl e, s1)
           | (Inr u, s1) \<Rightarrow> copy_lines wr stop ls s1)"

definition Copy :: "'s writer \<Rightarrow> string \<times> goerr option \<Rightarrow> 's \<Rightarrow> unit result \<times> 's" where
  "Copy wr src s = copy_lines wr (snd src) (raw_lines (fst src)) s"

section \<open>Matches and replacement in general\<close>

lemma advance_simp [simp]: "advance n (pre, xs, caps) = (rev (take n xs) @ pre, drop n xs, caps)"
  by (simp add: advance_def)

lemma stops_drop: "st' \<in> set (stops u (pre, xs, caps)) \<Longrightarrow> \<exists>n. fst (snd st') = drop n xs"
proof (induction u "(pre, xs, caps)" arbitrary: pre xs rule: stops.induct)
  case (1 u pre xs)
  from "1.prems" consider "st' = (pre, xs, caps)"
    | "\<not> (u xs = 0 \<or> xs = [])" "st' \<in> set (stops u (rev (take (u xs) xs) @ pre, drop (u xs) xs, caps))"
    by (subst (asm) stops.simps) (auto split: if_splits)
  then show ?case
  proof cases
    case 1
    then show ?thesis by (intro exI [of _ 0]) simp
  next
    case 2
    from "1.hyps" [OF 2(1) advance_simp 2(2)] obtain n where "fst (snd st') = drop n (drop (u xs) xs)" by blast
    then show ?thesis by auto
  qed
qed

lemma match_drop: "st' \<in> set (rx_match r st) \<Longrightarrow> \<exists>n. fst (snd st') = drop n (fst (snd st))"
proof (induction r arbitrary: st st')
  case REps
  then have "fst (snd st') = drop 0 (fst (snd st))" by simp
  then show ?case ..
next
  case (RUnit u)
  then show ?case by (cases st) (auto simp: Let_def split: if_splits)
next
  case (RRep k u)
  obtain pre xs caps where st: "st = (pre, xs, caps)" by (cases st)
  have "st' \<in> set (stops u st)" using RRep by (simp add: in_set_dropD)
  with st show ?case using stops_drop by simp
next
  case (RSeq r1 r2)
  then obtain mid where mid: "mid \<in> set (rx_match r1 st)" "st' \<in> set (rx_match r2 mid)" by auto
  obtain n where n: "fst (snd mid) = drop n (fst (snd st))" using RSeq.IH(1) [OF mid(1)] ..
  obtain m where "fst (snd st') = drop m (fst (snd mid))" using RSeq.IH(2) [OF mid(2)] ..
  with n have "fst (snd st') = drop (m + n) (fst (snd st))" by simp
  then show ?case ..
next
  case (RAlt r1 r2)
  then have "st' \<in> set (rx_match r1 st) \<or> st' \<in> set (rx_match r2 st)" by simp
  with RAlt.IH show ?case by blast
next
  case (ROpt r)
  have "fst (snd st) = drop 0 (fst (snd st))" by simp
  moreover have "st' \<in> set (rx_match r st) \<or> st' = st" using ROpt.prems by simp blast
  ultimately show ?case using ROpt.IH by blast
next
  case (RCap i r)
  then obtain mid where "mid \<in> set (rx_match r st)" "fst (snd st') = fst (snd mid)" by auto
  with RCap.IH show ?case by metis
next
  case RBound
  then have "fst (snd st') = drop 0 (fst (snd st))" by (auto split: prod.splits if_splits)
  then show ?case ..
qed

section \<open>No token shape survives\<close>

text \<open>What a well-known token looks like, apart from the rules: its prefix and its length.\<close>

definition prefix_len :: "string \<Rightarrow> nat" where
  "prefix_len xs = (if has_prefix xs ''hf_'' \<or> has_prefix xs ''sk-'' then 3
     else if has_prefix xs ''ghp_'' \<or> has_prefix xs ''gho_'' then 4
     else if has_prefix xs ''glpat-'' then 6
     else if has_prefix xs ''xox'' \<and> 5 \<le> length xs \<and> is_lower (xs ! 3) \<and> xs ! 4 = CHR ''-'' then 5 else 0)"

definition token_shape :: "string \<Rightarrow> bool" where
  "token_shape xs = (0 < prefix_len xs \<and> prefix_len xs + 8 \<le> length (takeWhile token_char xs))"

lemma stops_one:
  "stops (one P) (pre, xs, caps) =
     map (\<lambda>n. (rev (take n xs) @ pre, drop n xs, caps)) [0..<Suc (length (takeWhile P xs))]"
proof (induction xs arbitrary: pre)
  case Nil
  show ?case by (simp add: stops.simps)
next
  case (Cons c cs)
  have "map (\<lambda>n. (rev (take n (c # cs)) @ pre, drop n (c # cs), caps)) [Suc 0..<Suc (Suc n)] =
      map (\<lambda>n. (rev (take n cs) @ c # pre, drop n cs, caps)) [0..<Suc n]" for n
    unfolding map_Suc_upt [symmetric] by simp
  note shift = this [of "length (takeWhile P cs)"]
  show ?case
  proof (cases "P c")
    case True
    then have "one P (c # cs) = 1" by (simp add: one_def)
    then have "stops (one P) (pre, c # cs, caps) = (pre, c # cs, caps) # stops (one P) (c # pre, cs, caps)"
      by (subst stops.simps) simp
    then show ?thesis using True unfolding Cons.IH shift [symmetric] by (simp add: upt_conv_Cons del: upt_Suc)
  next
    case False
    then have "one P (c # cs) = 0" by (simp add: one_def)
    then show ?thesis using False by (subst stops.simps) simp
  qed
qed

lemma has_prefix_Nil [simp]: "has_prefix [] (c # p) = False" and has_prefix_Cons [simp]: "has_prefix (x # xs) (c # p) = (x = c \<and> has_prefix xs p)"
  and has_prefix_empty [simp]: "has_prefix xs [] = True"
  by (auto simp: has_prefix_def)

lemma lit_match: "rx_match (lit w) (pre, xs, caps) = (if has_prefix xs w then [(rev w @ pre, drop (length w) xs, caps)] else [])"
proof (induction w arbitrary: pre xs)
  case Nil
  show ?case by (simp add: lit_def)
next
  case (Cons c w)
  then show ?case by (cases xs) (auto simp: lit_def one_def)
qed

lemma has_prefixE: assumes "has_prefix xs p" obtains ys where "xs = p @ ys"
  using assms unfolding has_prefix_iff prefix_def by blast

lemma xox_match:
  "rx_match (seqs [lit ''xox'', RUnit (one is_lower), lit ''-'']) (pre, xs, caps) =
     (if has_prefix xs ''xox'' \<and> 5 \<le> length xs \<and> is_lower (xs ! 3) \<and> xs ! 4 = CHR ''-''
      then [(rev (take 5 xs) @ pre, drop 5 xs, caps)] else [])"
proof (cases "has_prefix xs ''xox''")
  case True
  then obtain ys where "xs = ''xox'' @ ys" by (rule has_prefixE)
  then show ?thesis by (cases ys; cases "tl ys") (auto simp: lit_match one_def)
qed (simp add: lit_match)

lemma prefixes_match:
  "rx_match token_prefixes (pre, xs, caps) =
     (if prefix_len xs = 0 then [] else [(rev (take (prefix_len xs) xs) @ pre, drop (prefix_len xs) xs, caps)])"
proof -
  consider (a) "has_prefix xs ''hf_''" | (b) "has_prefix xs ''sk-''" | (c) "has_prefix xs ''ghp_''" | (d) "has_prefix xs ''gho_''"
    | (e) "has_prefix xs ''glpat-''"
    | (f) "\<not> has_prefix xs ''hf_''" "\<not> has_prefix xs ''sk-''" "\<not> has_prefix xs ''ghp_''" "\<not> has_prefix xs ''gho_''" "\<not> has_prefix xs ''glpat-''"
    by blast
  then show ?thesis
  proof cases
    case f
    then show ?thesis by (simp only: token_prefixes_def alts.simps rx_match.simps lit_match xox_match prefix_len_def) simp
  qed (auto elim!: has_prefixE simp: token_prefixes_def lit_match xox_match prefix_len_def simp del: seqs.simps)
qed

lemma prefix_word: "0 < prefix_len xs \<Longrightarrow> word_head xs"
  by (auto simp: prefix_len_def word_head_def word_char_def is_lower_def elim!: has_prefixE split: if_splits)

lemma prefix_run: "has_prefix xs p \<Longrightarrow> list_all P p \<Longrightarrow> length p \<le> length (takeWhile P xs)"
  by (auto elim!: has_prefixE simp: takeWhile_append2 list_all_iff)

lemma prefix_cases:
  assumes "0 < prefix_len xs"
  obtains (hf) ws where "xs = ''hf_'' @ ws" | (sk) ws where "xs = ''sk-'' @ ws" | (ghp) ws where "xs = ''ghp_'' @ ws"
    | (gho) ws where "xs = ''gho_'' @ ws" | (glpat) ws where "xs = ''glpat-'' @ ws"
    | (xox) a ws where "xs = ''xox'' @ a # ''-'' @ ws" "is_lower a"
proof -
  have x: "\<exists>a ws. xs = ''xox'' @ a # ''-'' @ ws \<and> is_lower a"
    if p: "has_prefix xs ''xox''" "5 \<le> length xs" "is_lower (xs ! 3)" "xs ! 4 = CHR ''-''"
  proof -
    obtain zs where "xs = ''xox'' @ zs" using p(1) by (rule has_prefixE)
    with p(2-4) show ?thesis by (cases zs; cases "tl zs") auto
  qed
  consider "has_prefix xs ''hf_''" | "has_prefix xs ''sk-''" | "has_prefix xs ''ghp_''" | "has_prefix xs ''gho_''" | "has_prefix xs ''glpat-''"
    | "has_prefix xs ''xox''" "5 \<le> length xs" "is_lower (xs ! 3)" "xs ! 4 = CHR ''-''"
    using assms unfolding prefix_len_def by (auto split: if_splits)
  then show thesis by cases (use x hf sk ghp gho glpat xox in \<open>blast elim: has_prefixE\<close>)+
qed

lemma prefix_token_chars: "0 < prefix_len xs \<Longrightarrow> prefix_len xs \<le> length (takeWhile token_char xs)"
  by (elim prefix_cases) (simp_all add: prefix_len_def token_char_def alpha_def is_lower_def is_upper_def)

lemma takeWhile_drop: "n \<le> length (takeWhile P xs) \<Longrightarrow> takeWhile P (drop n xs) = drop n (takeWhile P xs)"
  by (induction xs arbitrary: n) (auto simp: drop_Cons split: nat.splits if_splits)

lemma map_shift_upt: "map (\<lambda>n. n + p) [a..<b] = [a + p..<b + (p::nat)]"
  by (induction b) auto

lemma match_eps: "concat (map (rx_match REps) sts) = sts"
  by (induction sts) simp_all

lemma token_match:
  "rx_match rule_token (pre, xs, caps) =
     (if \<not> word_head pre \<and> token_shape xs
      then rev (map (\<lambda>n. (rev (take n xs) @ pre, drop n xs, caps)) [prefix_len xs + 8..<Suc (length (takeWhile token_char xs))]) else [])"
proof (cases "0 < prefix_len xs")
  case True
  let ?p = "prefix_len xs" and ?l = "length (takeWhile token_char xs)"
  have le: "?p \<le> ?l" by (rule prefix_token_chars [OF True])
  have "map (\<lambda>n. (rev (take n (drop ?p xs)) @ rev (take ?p xs) @ pre, drop n (drop ?p xs), caps)) [8..<Suc (?l - ?p)] =
      map (\<lambda>n. (rev (take (n + ?p) xs) @ pre, drop (n + ?p) xs, caps)) [8..<Suc (?l - ?p)]"
    by (simp add: add.commute [of _ ?p] take_add)
  also have "\<dots> = map (\<lambda>n. (rev (take n xs) @ pre, drop n xs, caps)) (map (\<lambda>n. n + ?p) [8..<Suc (?l - ?p)])" by simp
  also have "map (\<lambda>n. n + ?p) [8..<Suc (?l - ?p)] = [?p + 8..<Suc ?l]"
    unfolding map_shift_upt using le by (simp add: add.commute)
  finally have shift: "map (\<lambda>n. (rev (take n (drop ?p xs)) @ rev (take ?p xs) @ pre, drop n (drop ?p xs), caps)) [8..<Suc (?l - ?p)] =
      map (\<lambda>n. (rev (take n xs) @ pre, drop n xs, caps)) [?p + 8..<Suc ?l]" .
  have "rx_match (RRep 8 (one token_char)) (rev (take ?p xs) @ pre, drop ?p xs, caps) =
      rev (map (\<lambda>n. (rev (take n xs) @ pre, drop n xs, caps)) [?p + 8..<Suc ?l])"
    unfolding rx_match.simps stops_one takeWhile_drop [OF le] length_drop drop_map drop_upt using shift by simp
  then show ?thesis using True prefix_word [OF True]
    by (simp add: rule_token_def prefixes_match token_shape_def match_eps del: rx_match.simps(1,3) upt_Suc)
next
  case False
  then show ?thesis by (simp add: rule_token_def prefixes_match token_shape_def match_eps del: rx_match.simps(1,3) upt_Suc)
qed

definition sweep :: "string \<Rightarrow> string \<Rightarrow> string" where
  "sweep pre xs = replace_all rule_token (\<lambda>g. placeholder) pre xs"

lemma sweep_hit:
  assumes "\<not> word_head pre" "token_shape xs"
  shows "sweep pre xs = placeholder @ sweep (rev (takeWhile token_char xs) @ pre) (dropWhile token_char xs)"
proof -
  let ?l = "length (takeWhile token_char xs)"
  have l: "prefix_len xs + 8 \<le> ?l" using assms(2) by (simp add: token_shape_def)
  then have l2: "0 < ?l" by linarith
  have "\<exists>ms. rx_match rule_token (pre, xs, caps) = (rev (takeWhile token_char xs) @ pre, dropWhile token_char xs, caps) # ms" for caps
    using assms l by (simp add: token_match takeWhile_eq_take [symmetric] dropWhile_eq_drop [symmetric])
  from this [of "\<lambda>i. []"] obtain ms
    where m: "rx_match rule_token (pre, xs, \<lambda>i. []) = (rev (takeWhile token_char xs) @ pre, dropWhile token_char xs, \<lambda>i. []) # ms" by blast
  have "length (dropWhile token_char xs) < length xs"
    using l2 arg_cong [OF takeWhile_dropWhile_id [of token_char xs], of length] unfolding length_append by linarith
  then show ?thesis unfolding sweep_def by (subst replace_all.simps) (simp add: m)
qed

lemma sweep_skip:
  assumes "\<not> (\<not> word_head pre \<and> token_shape xs)"
  shows "sweep pre xs = (case xs of [] \<Rightarrow> [] | c # cs \<Rightarrow> c # sweep (c # pre) cs)"
proof -
  have "rx_match rule_token (pre, xs, \<lambda>i. []) = []" unfolding token_match using assms by (rule if_not_P)
  then show ?thesis unfolding sweep_def by (subst replace_all.simps) simp
qed

text \<open>What is left of a run of token characters is an initial part of it.\<close>

lemma sweep_run: "prefix (takeWhile token_char (sweep pre xs)) (takeWhile token_char xs)"
proof (induction xs arbitrary: pre)
  case Nil
  show ?case by (subst sweep_skip) (auto simp: token_shape_def)
next
  case (Cons c cs)
  show ?case
  proof (cases "\<not> word_head pre \<and> token_shape (c # cs)")
    case True
    then show ?thesis by (subst sweep_hit) (simp_all add: placeholder_def token_char_def alpha_def is_lower_def is_upper_def is_digit_def)
  next
    case False
    then show ?thesis using Cons.IH [of "c # pre"] by (simp add: sweep_skip)
  qed
qed

lemma prefix_len_mono:
  assumes "0 < prefix_len xs" "prefix (take (prefix_len xs) xs) ys"
  shows "prefix_len ys = prefix_len xs"
proof -
  obtain zs where ys: "ys = take (prefix_len xs) xs @ zs" using assms(2) by (auto elim: prefixE)
  from assms(1) show ?thesis by (cases rule: prefix_cases) (simp_all add: ys prefix_len_def)
qed

lemma token_shape_mono:
  assumes "token_shape xs" "prefix (takeWhile token_char xs) (takeWhile token_char ys)"
  shows "token_shape ys"
proof -
  have p: "0 < prefix_len xs" "prefix_len xs + 8 \<le> length (takeWhile token_char xs)" using assms(1) by (auto simp: token_shape_def)
  have "take (prefix_len xs) xs = take (prefix_len xs) (takeWhile token_char xs)"
    using p(2) by (metis add_leD1 min.absorb1 take_take takeWhile_eq_take)
  then have "prefix (take (prefix_len xs) xs) (takeWhile token_char xs)" by (simp add: take_is_prefix)
  moreover have "prefix (takeWhile token_char ys) ys" by (metis prefixI takeWhile_dropWhile_id)
  ultimately have "prefix (take (prefix_len xs) xs) ys" using assms(2) by (meson prefix_order.trans)
  with p(1) have "prefix_len ys = prefix_len xs" by (rule prefix_len_mono)
  with p show ?thesis using prefix_length_le [OF assms(2)] by (simp add: token_shape_def)
qed

lemma prefix_len_other: "c \<notin> {CHR ''h'', CHR ''s'', CHR ''g'', CHR ''x''} \<Longrightarrow> prefix_len (c # xs) = 0"
  by (simp add: prefix_len_def)

lemma placeholder_inside: "n < length placeholder \<Longrightarrow> \<not> token_shape (drop n placeholder @ ys)"
proof -
  assume "n < length placeholder"
  then have "n < 10" by (simp add: placeholder_def)
  then have "n = 0 \<or> n = 1 \<or> n = 2 \<or> n = 3 \<or> n = 4 \<or> n = 5 \<or> n = 6 \<or> n = 7 \<or> n = 8 \<or> n = 9" by arith
  then have "prefix_len (drop n placeholder @ ys) = 0" by (elim disjE) (simp_all add: placeholder_def prefix_len_other)
  then show ?thesis by (simp add: token_shape_def)
qed

text \<open>
  Seen from the output, whose text before a position is \<open>out\<close>: where the input continues with a token
  character, the last characters before agree on being word characters.
\<close>

lemma sweep_clean:
  assumes "xs \<noteq> [] \<and> token_char (hd xs) \<longrightarrow> word_head out = word_head pre"
  shows "\<not> (\<not> word_head (rev (take n (sweep pre xs)) @ out) \<and> token_shape (drop n (sweep pre xs)))"
  using assms
proof (induction "length xs" arbitrary: xs pre out n rule: less_induct)
  case less
  show ?case
  proof (cases "\<not> word_head pre \<and> token_shape xs")
    case True
    let ?ys = "dropWhile token_char xs"
    have e: "sweep pre xs = placeholder @ sweep (rev (takeWhile token_char xs) @ pre) ?ys" using True by (simp add: sweep_hit)
    have "0 < length (takeWhile token_char xs)" using True by (auto simp: token_shape_def)
    then have short: "length ?ys < length xs"
      using takeWhile_dropWhile_id [of token_char xs] by (metis length_append less_add_same_cancel2)
    have hd: "?ys \<noteq> [] \<and> token_char (hd ?ys) \<longrightarrow> word_head (rev placeholder @ out) = word_head (rev (takeWhile token_char xs) @ pre)"
      using hd_dropWhile by metis
    show ?thesis
    proof (cases "n < length placeholder")
      case True
      then show ?thesis using placeholder_inside e by simp
    next
      case False
      then show ?thesis using less.hyps [OF short hd, of "n - length placeholder"] e by simp
    qed
  next
    case False
    show ?thesis
    proof (cases xs)
      case Nil
      then show ?thesis using sweep_skip [OF False] by (simp add: token_shape_def)
    next
      case (Cons c cs)
      have e: "sweep pre xs = c # sweep (c # pre) cs" using sweep_skip [OF False] Cons by simp
      show ?thesis
      proof (cases n)
        case 0
        have "\<not> word_head pre \<and> token_shape xs" if out: "\<not> word_head out" "token_shape (sweep pre xs)"
        proof -
          have "token_shape xs" using out(2) sweep_run by (rule token_shape_mono)
          moreover from this have "token_char c" using Cons by (auto simp: token_shape_def split: if_splits)
          ultimately show ?thesis using less.prems Cons out(1) by simp
        qed
        with False 0 show ?thesis by auto
      next
        case (Suc m)
        have "word_head (c # out) = word_head (c # pre)" by (simp add: word_head_def)
        then show ?thesis using less.hyps [of cs "c # out" "c # pre" m] Cons e Suc by simp
      qed
    qed
  qed
qed

text \<open>At a position of a line, not inside a word, something of the shape of a well-known token begins.\<close>

definition token_at :: "nat \<Rightarrow> string \<Rightarrow> bool" where
  "token_at n l = (\<not> word_head (rev (take n l)) \<and> token_shape (drop n l))"

lemma line_no_token: "\<not> token_at n (Line l)"
proof -
  obtain s where "Line l = sweep [] s" unfolding Line_def rules_def sweep_def by simp
  then show ?thesis using sweep_clean [of s "[]" "[]" n] by (simp add: token_at_def)
qed

text \<open>
  What \<open>Copy\<close> needs of a writer: a write that succeeds adds its text to what can be seen of the state, one
  that fails adds nothing. Then what was written is a first part of the redacted lines.
\<close>

locale line_writer =
  fixes wr :: "'s writer" and view_of :: "'s \<Rightarrow> 'v" and add :: "string \<Rightarrow> 'v \<Rightarrow> 'v" and usable :: "'s \<Rightarrow> bool"
  assumes write_ok: "usable s \<Longrightarrow> wr t s = (Inr u, s') \<Longrightarrow> usable s' \<and> view_of s' = add t (view_of s)"
    and write_failed: "usable s \<Longrightarrow> wr t s = (Inl e, s') \<Longrightarrow> usable s' \<and> view_of s' = view_of s"
begin

lemma copied:
  assumes "copy_lines wr stop ls s = (r, s')" "usable s"
  shows "\<exists>k. view_of s' = fold add (map (\<lambda>x. Line (drop_cr x) @ [CHR 0x0A]) (take k ls)) (view_of s) \<and>
    (r = Inr () \<longrightarrow> k = length ls \<and> stop = None)"
  using assms
proof (induction ls arbitrary: s)
  case Nil
  then show ?case by (cases stop) auto
next
  case (Cons x ls)
  obtain a s1 where w: "wr (Line (drop_cr x) @ [CHR 0x0A]) s = (a, s1)" by fastforce
  consider (long) "maxLine \<le> length x" | (failed) e where "\<not> maxLine \<le> length x" "a = Inl e" | (written) "\<not> maxLine \<le> length x" "a = Inr ()"
    by (cases a) auto
  then show ?case
  proof cases
    case long
    then have "s' = s \<and> r \<noteq> Inr ()" using Cons.prems by auto
    then show ?thesis by (intro exI [of _ 0]) simp
  next
    case failed
    then have "s' = s1 \<and> r \<noteq> Inr ()" using Cons.prems w by auto
    then show ?thesis using write_failed [OF Cons.prems(2)] w failed by (intro exI [of _ 0]) simp
  next
    case written
    have k1: "usable s1 \<and> view_of s1 = add (Line (drop_cr x) @ [CHR 0x0A]) (view_of s)"
      using write_ok [OF Cons.prems(2)] w written by simp
    have "copy_lines wr stop ls s1 = (r, s')" using Cons.prems(1) w written by simp
    from Cons.IH [OF this] k1 obtain k where
      "view_of s' = fold add (map (\<lambda>x. Line (drop_cr x) @ [CHR 0x0A]) (take k ls)) (view_of s1)" "r = Inr () \<longrightarrow> k = length ls \<and> stop = None"
      by blast
    with k1 show ?thesis by (intro exI [of _ "Suc k"]) simp
  qed
qed

end

lemma copy_lines_effect:
  assumes "copy_lines wr stop ls s = (r, s')"
  shows "\<exists>k. s' = fold (\<lambda>l s. snd (wr (l @ [CHR 0x0A]) s)) (map (\<lambda>l. Line (drop_cr l)) (take k ls)) s \<and>
    (r = Inr () \<longrightarrow> k = length ls \<and> stop = None)"
  using assms
proof (induction ls arbitrary: s)
  case Nil
  then show ?case by (cases stop) auto
next
  case (Cons l ls)
  obtain a s1 where w: "wr (Line (drop_cr l) @ [CHR 0x0A]) s = (a, s1)" by fastforce
  consider (long) "maxLine \<le> length l" | (failed) e where "\<not> maxLine \<le> length l" "a = Inl e" | (written) "\<not> maxLine \<le> length l" "a = Inr ()"
    by (cases a) auto
  then show ?case
  proof cases
    case long
    then have "s' = s \<and> r \<noteq> Inr ()" using Cons.prems by auto
    then show ?thesis by (intro exI [of _ 0]) simp
  next
    case failed
    then have "s' = s1 \<and> r \<noteq> Inr ()" using Cons.prems w by auto
    then show ?thesis using w by (intro exI [of _ 1]) simp
  next
    case written
    then have "copy_lines wr stop ls s1 = (r, s')" using Cons.prems w by simp
    from Cons.IH [OF this] obtain k where
      "s' = fold (\<lambda>l s. snd (wr (l @ [CHR 0x0A]) s)) (map (\<lambda>l. Line (drop_cr l)) (take k ls)) s1" "r = Inr () \<longrightarrow> k = length ls \<and> stop = None"
      by blast
    then show ?thesis using w by (intro exI [of _ "Suc k"]) simp
  qed
qed

text \<open>
  C6. No token shape survives in a log: what \<open>Copy\<close> writes are the redacted lines of the source in their
  order, one call for each with its end of line, all of them unless it reports an error; and at no position of a
  written line a well-known token begins, a known prefix with at least eight more characters: no rule undoes
  the work of another and the placeholder starts no token.
\<close>

theorem no_token_survives:
  assumes "Copy wr src s = (r, s')"
  shows "\<exists>k ls. ls = map (\<lambda>l. Line (drop_cr l)) (take k (raw_lines (fst src))) \<and>
    s' = fold (\<lambda>l s. snd (wr (l @ [CHR 0x0A]) s)) ls s \<and>
    (r = Inr () \<longrightarrow> k = length (raw_lines (fst src)) \<and> snd src = None) \<and>
    (\<forall>l\<in>set ls. \<forall>n. \<not> token_at n l)"
proof -
  obtain k where "s' = fold (\<lambda>l s. snd (wr (l @ [CHR 0x0A]) s)) (map (\<lambda>l. Line (drop_cr l)) (take k (raw_lines (fst src)))) s"
    "r = Inr () \<longrightarrow> k = length (raw_lines (fst src)) \<and> snd src = None"
    using copy_lines_effect [OF assms [unfolded Copy_def]] by blast
  then show ?thesis using line_no_token by (intro exI [of _ k]) auto
qed

lemma sample_line: "Line ''hf_12345678'' = ''[REDACTED]''"
  by code_simp

definition sample_writer :: "string list writer" where
  "sample_writer l s = (if length s < 2 then (Inr (), s @ [l]) else (Inl (Opaque ''disk full''), s))"

lemma sample_copy: "Copy sample_writer (''hf_12345678'', None) [] = (Inr (), [''[REDACTED]'' @ [CHR 0x0A]])"
  by (simp add: Copy_def raw_lines_def split_on.simps drop_cr_def maxLine_def sample_line sample_writer_def)

theorem no_token_survives_witness:
  "\<exists>l. [''[REDACTED]'' @ [CHR 0x0A]] = [l @ [CHR 0x0A]] \<and> (\<forall>n. \<not> token_at n l)"
proof -
  have one: "raw_lines ''hf_12345678'' = [''hf_12345678'']" by (simp add: raw_lines_def split_on.simps)
  from no_token_survives [OF sample_copy] show ?thesis
    by (auto simp: one drop_cr_def sample_line sample_writer_def)
qed

section \<open>Named secrets\<close>

lemma replace_hit:
  "rx_match r (pre, xs, \<lambda>i. []) = (pre', xs', caps) # ms \<Longrightarrow> length xs' < length xs \<Longrightarrow>
     replace_all r t pre xs = t caps @ replace_all r t pre' xs'"
  by (subst replace_all.simps) simp

lemma replace_miss: "rx_match r (pre, c # cs, \<lambda>i. []) = [] \<Longrightarrow> replace_all r t pre (c # cs) = c # replace_all r t (c # pre) cs"
  by (subst replace_all.simps) simp

lemma replace_none: "(\<And>pre n. rx_match r (pre, drop n xs, \<lambda>i. []) = []) \<Longrightarrow> replace_all r t pre xs = xs"
proof (induction xs arbitrary: pre)
  case Nil
  from Nil [of pre 0] show ?case by (subst replace_all.simps) simp
next
  case (Cons c cs)
  have "rx_match r (pre, drop n cs, \<lambda>i. []) = []" for pre n using Cons.prems [of pre "Suc n"] by simp
  then have "replace_all r t (c # pre) cs = cs" by (rule Cons.IH)
  with Cons.prems [of pre 0] show ?case by (simp add: replace_miss)
qed

lemma json_none: "quote \<notin> set xs \<Longrightarrow> replace_all rule_json t pre xs = xs"
proof (rule replace_none)
  fix pre n
  assume "quote \<notin> set xs"
  then have "one (\<lambda>x. x = quote) (drop n xs) = 0" by (auto simp: one_def dest: in_set_dropD split: list.splits) (metis in_set_dropD list.set_intros(1))
  then show "rx_match rule_json (pre, drop n xs, \<lambda>i. []) = []" by (simp add: rule_json_def lit_def)
qed

lemma seq_none: "(\<And>mid. mid \<in> set (rx_match a st) \<Longrightarrow> rx_match b mid = []) \<Longrightarrow> rx_match (RSeq a b) st = []"
  by simp

lemma seq_none_first: "rx_match a st = [] \<Longrightarrow> rx_match (RSeq a b) st = []"
  by simp

lemma cap_none: "rx_match a st = [] \<Longrightarrow> rx_match (RCap i a) st = []"
  by simp

lemma unit_none: "\<forall>c\<in>set (fst (snd st)). \<not> P c \<Longrightarrow> rx_match (RUnit (one P)) st = []"
  by (cases st; cases "fst (snd st)") (auto simp: one_def)

lemma match_set: "st' \<in> set (rx_match r st) \<Longrightarrow> \<forall>c\<in>set (fst (snd st)). Q c \<Longrightarrow> \<forall>c\<in>set (fst (snd st')). Q c"
  by (metis in_set_dropD match_drop)

lemma header_none:
  assumes "\<forall>c\<in>set xs. \<not> (c = CHR '':'' \<or> c = CHR ''='')"
  shows "rx_match rule_header (pre, xs, caps) = []"
  unfolding rule_header_def seqs.simps
proof (rule seq_none, rule seq_none)
  let ?Q = "\<lambda>c. \<not> (c = CHR '':'' \<or> c = CHR ''='')"
  fix st0 st1
  assume st: "st0 \<in> set (rx_match RBound (pre, xs, caps))" "st1 \<in> set (rx_match (RCap 1 header_names) st0)"
  have "\<forall>c\<in>set (fst (snd st0)). ?Q c" by (rule match_set [OF st(1)]) (use assms in simp)
  then have "\<forall>c\<in>set (fst (snd st1)). ?Q c" by (rule match_set [OF st(2)])
  then have "\<forall>c\<in>set (fst (snd st2)). ?Q c" if "st2 \<in> set (rx_match spaces st1)" for st2
    by (rule match_set [OF that])
  then have "rx_match (RCap 2 (RSeq spaces (RSeq (RUnit (one (\<lambda>c. c = CHR '':'' \<or> c = CHR ''=''))) (RSeq spaces REps)))) st1 = []"
    by (intro cap_none seq_none seq_none_first unit_none)
  then show "rx_match (RSeq (RCap 2 (RSeq spaces (RSeq (RUnit (one (\<lambda>c. c = CHR '':'' \<or> c = CHR ''=''))) (RSeq spaces REps)))) b) st1 = []" for b
    by (rule seq_none_first)
qed

lemma token_char_plain:
  assumes "token_char c"
  shows "c \<noteq> quote \<and> c \<noteq> CHR '':'' \<and> c \<noteq> CHR ''='' \<and> \<not> rx_space c \<and> value_char c"
  using assms by (auto simp: token_char_def alpha_def is_lower_def is_upper_def is_digit_def quote_def rx_space_def value_char_def)

lemma header_other: "lower_char c \<notin> {CHR ''a'', CHR ''p'', CHR ''x''} \<Longrightarrow> rx_match rule_header (pre, c # cs, caps) = []"
  by (simp add: rule_header_def header_names_def lit_i_def fold_unit_def)

lemma header_rest: "\<forall>c\<in>set s. token_char c \<Longrightarrow> replace_all rule_header t pre s = s"
  by (rule replace_none, rule header_none) (auto dest!: in_set_dropD token_char_plain)

lemma lower_chars: "lower_char CHR ''H'' = CHR ''h''" "lower_char CHR ''F'' = CHR ''f''" "lower_char CHR ''_'' = CHR ''_''"
  "lower_char CHR ''T'' = CHR ''t''" "lower_char CHR ''O'' = CHR ''o''"  "lower_char CHR ''K'' = CHR ''k''"  "lower_char CHR ''E'' = CHR ''e''" 
 "lower_char CHR ''N'' = CHR ''n''" "lower_char CHR ''='' = CHR ''=''" 
  by code_simp+

lemma env_header: "\<forall>c\<in>set s. token_char c \<Longrightarrow> replace_all rule_header t [] (''HF_TOKEN='' @ s) = ''HF_TOKEN='' @ s"
  by (simp add: replace_miss header_other lower_chars header_rest)


lemma one_Nil: "one P [] = 0" and one_Cons: "one P (c # cs) = (if P c then 1 else 0)"
  by (simp_all add: one_def)

lemma stops_end: "u xs = 0 \<Longrightarrow> stops u (pre, xs, caps) = [(pre, xs, caps)]"
  by (subst stops.simps) simp

lemma stops_more: "u (c # cs) = 1 \<Longrightarrow> stops u (pre, c # cs, caps) = (pre, c # cs, caps) # stops u (c # pre, cs, caps)"
  by (subst stops.simps) simp

lemma fold_unit_Cons:
  "fold_unit c (x # xs) = (if lower_char x = c then 1 else if c = CHR ''s'' \<and> has_prefix (x # xs) long_s then 2
     else if c = CHR ''k'' \<and> has_prefix (x # xs) kelvin then 3 else 0)"
  by (simp add: fold_unit_def)

lemma name_unit_Cons: "x \<notin> {CHR 0xC5, CHR 0xE2} \<Longrightarrow> name_unit (x # xs) = (if word_char x \<or> x = CHR ''.'' \<or> x = CHR ''-'' then 1 else 0)"
  by (simp add: name_unit_def one_def long_s_def kelvin_def)

lemma word_chars: "word_char CHR ''H''" "word_char CHR ''F''" "word_char CHR ''_''" "word_char CHR ''T''" "word_char CHR ''O''"
  "word_char CHR ''K''" "word_char CHR ''E''" "word_char CHR ''N''" "\<not> word_char CHR ''=''"
  by code_simp+

lemma whole_value:
  assumes "s \<noteq> []" "\<forall>c\<in>set s. P c"
  shows "\<exists>rest. \<forall>pre caps. rx_match (RRep (Suc 0) (one P)) (pre, s, caps) = (rev s @ pre, [], caps) # rest pre caps"
proof -
  have t: "takeWhile P s = s" using assms(2) by simp
  have "1 \<le> length s" using assms(1) by (cases s) auto
  then have "rx_match (RRep (Suc 0) (one P)) (pre, s, caps) =
      (rev s @ pre, [], caps) # rev (map (\<lambda>n. (rev (take n s) @ pre, drop n s, caps)) [1..<length s])" for pre caps
    unfolding rx_match.simps stops_one t drop_map drop_upt by simp
  then show ?thesis by (intro exI allI)
qed

lemmas eval_rx = rx_match.simps(1,2,4-8) rx_match.simps(3) [of 0] one_Nil one_Cons stops_end stops_more fold_unit_Cons name_unit_Cons lower_chars
  word_chars kelvin_def long_s_def lit_i_def lit_def spaces_def

lemma more_chars: "lower_char CHR ''-'' = CHR ''-''" "lower_char CHR ''a'' = CHR ''a''" "lower_char CHR ''p'' = CHR ''p''" "lower_char CHR ''i'' = CHR ''i''"
  "lower_char CHR ''k'' = CHR ''k''" "lower_char CHR ''e'' = CHR ''e''" "lower_char CHR ''y'' = CHR ''y''" "lower_char CHR ''A'' = CHR ''a''"
  "lower_char CHR ''u'' = CHR ''u''" "lower_char CHR ''t'' = CHR ''t''" "lower_char CHR ''h'' = CHR ''h''" "lower_char CHR ''o'' = CHR ''o''"
  "lower_char CHR ''r'' = CHR ''r''" "lower_char CHR ''z'' = CHR ''z''" "lower_char CHR ''n'' = CHR ''n''"
  "\<not> word_char CHR ''-''" "word_char CHR ''a''" "word_char CHR ''p''" "word_char CHR ''i''" "word_char CHR ''k''" "word_char CHR ''e''" "word_char CHR ''y''"
  "word_char CHR ''A''"
  by code_simp+

lemma replace_to_end:
  assumes "rx_match r ([], xs, \<lambda>i. []) = (pre, [], caps) # ms" "xs \<noteq> []" "\<And>pre. rx_match r (pre, [], \<lambda>i. []) = []"
  shows "replace_all r t [] xs = t caps"
proof -
  have "replace_all r t pre [] = []" for pre by (subst replace_all.simps) (simp add: assms(3))
  then show ?thesis using replace_hit [OF assms(1), of t] assms(2) by simp
qed

lemma rules_need_text: "rx_match rule_assignment (pre, [], caps) = []" "rx_match rule_header (pre, [], caps) = []"
proof -
  have "fold_unit c [] = 0" for c by (simp add: fold_unit_def long_s_def kelvin_def)
  moreover have "name_unit [] = 0" by (simp add: name_unit_def one_def long_s_def kelvin_def)
  ultimately show "rx_match rule_assignment (pre, [], caps) = []"
    by (simp add: rule_assignment_def secret_names_def eval_rx del: rx_match.simps(3))
qed (simp add: header_none)

lemma assignment_names:
  assumes "s \<noteq> []" "\<forall>c\<in>set s. token_char c"
  shows "replace_all rule_assignment (\<lambda>g. g 1 @ placeholder) [] (''HF_TOKEN='' @ s) = ''HF_TOKEN='' @ placeholder"
    and "replace_all rule_assignment (\<lambda>g. g 1 @ placeholder) [] (''--api-key='' @ s) = ''--api-key='' @ placeholder"
proof -
  obtain c cs where s: "s = c # cs" "token_char c" using assms by (cases s) auto
  have "\<forall>c\<in>set s. value_char c" using assms(2) token_char_plain by blast
  from whole_value [OF assms(1) this] obtain rest where 
    v: "\<And>pre caps. rx_match (RRep (Suc 0) (one value_char)) (pre, c # cs, caps) = (rev s @ pre, [], caps) # rest pre caps" unfolding s(1) by blast
  note eval = rule_assignment_def secret_names_def eval_rx more_chars v rx_space_def quote_def
  have "\<exists>pre ms caps. rx_match rule_assignment ([], ''HF_TOKEN='' @ s, \<lambda>i. []) = (pre, [], caps) # ms \<and> caps 1 = ''HF_TOKEN=''"
    using token_char_plain [OF s(2)] unfolding s(1) by (simp add: eval del: rx_match.simps(3))
  then show "replace_all rule_assignment (\<lambda>g. g 1 @ placeholder) [] (''HF_TOKEN='' @ s) = ''HF_TOKEN='' @ placeholder"
    using replace_to_end rules_need_text(1) by fastforce
  have "\<exists>pre ms caps. rx_match rule_assignment ([], ''--api-key='' @ s, \<lambda>i. []) = (pre, [], caps) # ms \<and> caps 1 = ''--api-key=''"
    using token_char_plain [OF s(2)] unfolding s(1) by (simp add: eval del: rx_match.simps(3))
  then show "replace_all rule_assignment (\<lambda>g. g 1 @ placeholder) [] (''--api-key='' @ s) = ''--api-key='' @ placeholder"
    using replace_to_end rules_need_text(1) by fastforce
qed

lemma flag_header: "\<forall>c\<in>set s. token_char c \<Longrightarrow> replace_all rule_header t [] (''--api-key='' @ s) = ''--api-key='' @ s"
proof -
  assume "\<forall>c\<in>set s. token_char c"
  moreover have "rx_match rule_header (pre, ''api-key='' @ s, caps) = []" "rx_match rule_header (pre, ''pi-key='' @ s, caps) = []" for pre caps
    by (simp_all add: rule_header_def header_names_def eval_rx more_chars del: rx_match.simps(3))
  ultimately show ?thesis by (simp add: replace_miss header_other more_chars lower_chars header_rest)
qed

lemma space_chars: "rx_space CHR '' ''" "\<not> rx_space CHR '':''" "\<not> rx_space CHR ''B''" "\<not> rx_space CHR ''e''" "\<not> rx_space CHR ''a''" "\<not> rx_space CHR ''r''"
  by (simp_all add: rx_space_def)

lemma bearer_header:
  assumes "s \<noteq> []" "\<forall>c\<in>set s. token_char c"
  shows "replace_all rule_header (\<lambda>g. g 1 @ g 2 @ placeholder) [] (''Authorization: Bearer '' @ s) = ''Authorization: '' @ placeholder"
proof -
  obtain c cs where s: "s = c # cs" "token_char c" using assms by (cases s) auto
  have "\<forall>c\<in>set s. \<not> rx_space c" using assms(2) token_char_plain by blast
  from whole_value [OF assms(1) this] obtain rest where 
    v: "\<And>pre caps. rx_match (RRep (Suc 0) (one (\<lambda>c. \<not> rx_space c))) (pre, c # cs, caps) = (rev s @ pre, [], caps) # rest pre caps" unfolding s(1) by blast
  have c: "\<not> rx_space c" using token_char_plain [OF s(2)] by blast
  have gap: "rx_match (RRep (Suc 0) (one rx_space)) (pre, CHR '' '' # c # cs, caps) = [(CHR '' '' # pre, c # cs, caps)]" for pre caps
    using c by (simp add: stops_more stops_end one_Cons rx_space_def)
  have none: "\<not> rx_space x \<Longrightarrow> rx_match (RRep (Suc 0) (one rx_space)) (pre, x # xs, caps) = []" for pre x xs caps
    by (simp add: stops_end one_Cons)
  have blank: "rx_match (RRep (Suc 0) (one (\<lambda>c. \<not> rx_space c))) (pre, CHR '' '' # xs, caps) = []" for pre xs caps
    by (simp add: stops_end one_Cons rx_space_def)
  have word: "rx_match (RRep (Suc 0) (one (\<lambda>c. \<not> rx_space c))) (pre, ''Bearer '' @ c # cs, caps) =
      [(rev ''Bearer'' @ pre, '' '' @ c # cs, caps), (rev ''Beare'' @ pre, ''r '' @ c # cs, caps), (rev ''Bear'' @ pre, ''er '' @ c # cs, caps),
       (rev ''Bea'' @ pre, ''rer '' @ c # cs, caps), (rev ''Be'' @ pre, ''arer '' @ c # cs, caps), (rev ''B'' @ pre, ''earer '' @ c # cs, caps)]" for pre caps
    by (simp add: stops_more stops_end one_Cons rx_space_def)
  have "\<exists>pre ms caps. rx_match rule_header ([], ''Authorization: Bearer '' @ s, \<lambda>i. []) = (pre, [], caps) # ms \<and>
      caps 1 = ''Authorization'' \<and> caps 2 = '': ''"
    using c v unfolding s(1) by (simp add: rule_header_def header_names_def eval_rx more_chars gap none blank word [unfolded append_Cons append_Nil] word_head_def space_chars del: rx_match.simps(3))
  then show ?thesis using replace_to_end rules_need_text(2) by fastforce
qed

lemma all_tails_Cons: "(\<forall>n. Q (drop n (c # cs))) \<longleftrightarrow> Q (c # cs) \<and> (\<forall>n. Q (drop n cs))"
  by (metis drop0 drop_Suc_Cons not0_implies_Suc)

lemma all_tails_Nil: "(\<forall>n. Q (drop n [])) \<longleftrightarrow> Q []"
  by simp

lemma fold_unit_Nil: "fold_unit c [] = 0"
  by (simp add: fold_unit_def long_s_def kelvin_def)

text \<open>A text no part of which is the name of a secret is kept by the rule of assignments.\<close>

definition nameless :: "string \<Rightarrow> bool" where
  "nameless xs = (\<forall>pre caps. rx_match secret_names (pre, xs, caps) = [])"

lemma unnamed_kept:
  assumes "\<forall>n. nameless (drop n xs)"
  shows "replace_all rule_assignment t pre xs = xs"
proof (rule replace_none)
  fix pre n
  have "rx_match secret_names mid = []" if mid: "mid \<in> set (rx_match (RRep 0 name_unit) (pre, drop n xs, \<lambda>i. []))" for mid
  proof -
    obtain m where "fst (snd mid) = drop m (drop n xs)" using match_drop [OF mid] by auto
    then have "mid = (fst mid, drop (m + n) xs, snd (snd mid))" by (cases mid) simp
    with assms show ?thesis unfolding nameless_def by metis
  qed
  then show "rx_match rule_assignment (pre, drop n xs, \<lambda>i. []) = []"
    unfolding rule_assignment_def seqs.simps by (intro seq_none_first cap_none seq_none)
qed

lemma bracket_chars: "lower_char CHR ''['' = CHR ''[''" "lower_char CHR '']'' = CHR '']''" "lower_char CHR ''R'' = CHR ''r''" "lower_char CHR ''D'' = CHR ''d''"
  "lower_char CHR ''C'' = CHR ''c''" "lower_char CHR '' '' = CHR '' ''" "lower_char CHR '':'' = CHR '':''"
  by code_simp+



end
