(* ===== verification/Logs.thy ===== *)
theory Logs imports OperationLock LifecycleSpec Hub Redact begin

text \<open>
  The two ends of a runtime's log: the proxy that a detached runtime writes through
  (internal/supervisor/log_proxy.go, \<open>runLogProxy\<close>) and the command that prints it (internal/cli/cli.go,
  \<open>runLogs\<close>). Both copy through the redaction.
\<close>

section \<open>The log proxy\<close>

text \<open>
  One write to the open log file, appended: a fault of the file system fails it. What the runtime writes into
  the pipe, and the error that ends it when it is not its end, is \<open>src\<close>.
\<close>

definition append_file :: "location \<Rightarrow> filesys writer" where
  "append_file l text s = WriteOpen l text s"

definition open_log :: "string \<Rightarrow> filesys \<Rightarrow> location result \<times> filesys" where
  "open_log path s =
     (case MkdirAll (path_dir path) perm_0700 s of
        (Inl e, s1) \<Rightarrow> (Inl e, s1)
      | (Inr u, s1) \<Rightarrow>
        (case Chmod (path_dir path) perm_0700 s1 of
           (Inl e, s2) \<Rightarrow> (Inl e, s2)
         | (Inr u, s2) \<Rightarrow> OpenFile path perm_0600 s2))"

text \<open>The exit code of the proxy. Descriptor 3 is not negative, so \<open>os.NewFile\<close> never answers nil.\<close>

definition runLogProxy :: "environment \<Rightarrow> string \<times> goerr option \<Rightarrow> filesys \<Rightarrow> int \<times> filesys" where
  "runLogProxy env src s =
     (let path = getenv env ''IOLD_INTERNAL_LOG_PROXY_PATH'' in
      if path = [] then (2, s)
      else case open_log path s of
        (Inl e, s1) \<Rightarrow> (1, s1)
      | (Inr l, s1) \<Rightarrow>
        (case ChmodOpen l perm_0600 s1 of
           (Inl e, s2) \<Rightarrow> (1, snd (CloseFile s2))
         | (Inr u, s2) \<Rightarrow>
           (case Copy (append_file l) src s2 of
              (Inl e, s3) \<Rightarrow> (1, snd (CloseFile s3))
            | (Inr u, s3) \<Rightarrow> (0, snd (CloseFile s3)))))"

section \<open>Printing a log\<close>

text \<open>
  \<open>os.Open\<close> and the reads until the end: a directory opens but does not read, and a read that fails
  delivers nothing.
\<close>

definition OpenRead :: "string \<Rightarrow> filesys \<Rightarrow> location result \<times> filesys" where
  "OpenRead p = fs_call nothing (\<lambda>s. (case get s (loc s p) of
     Inl e \<Rightarrow> Inl e | Inr (Link t) \<Rightarrow> Inl ENOENT | Inr x \<Rightarrow> Inr (the (loc s p)), s))"

definition read_all :: "location \<Rightarrow> filesys \<Rightarrow> (string \<times> goerr option) \<times> filesys" where
  "read_all l s = (case fs_call nothing (\<lambda>s. (case nodes s l of
       Some (File x m) \<Rightarrow> Inr x | _ \<Rightarrow> Inl (Opaque ''is a directory''), s)) s of
     (Inl e, s1) \<Rightarrow> (([], Some e), s1) | (Inr x, s1) \<Rightarrow> ((x, None), s1))"

text \<open>Standard output: \<open>broken\<close> is the error of a write after so many lines; a line is kept without its end.\<close>

definition print_to :: "(nat \<Rightarrow> goerr option) \<Rightarrow> world writer" where
  "print_to broken l w = (case broken (length (out w)) of Some e \<Rightarrow> (Inl e, w) | None \<Rightarrow> (Inr (), say (butlast l) w))"

definition logs_usage :: goerr where
  "logs_usage = Errorf ''%w: iold logs [deployment]'' [ArgW (Sentinel ErrUsage)]"

definition print_log :: "(nat \<Rightarrow> goerr option) \<Rightarrow> string \<Rightarrow> string \<Rightarrow> world \<Rightarrow> unit result \<times> world" where
  "print_log broken i path w =
     (case on_fs (OpenRead path) w of
        (Inl e, w1) \<Rightarrow> (Inl (Errorf ''no logs for deployment %s: %w'' [ArgS i, ArgW e]), w1)
      | (Inr l, w1) \<Rightarrow>
        (case on_fs (read_all l) w1 of (src, w2) \<Rightarrow>
           case Copy (print_to broken) src w2 of (r, w3) \<Rightarrow> (r, snd (on_fs CloseFile w3))))"

definition runLogs :: "(nat \<Rightarrow> goerr option) \<Rightarrow> string list \<Rightarrow> world \<Rightarrow> unit result \<times> world" where
  "runLogs broken args w =
     (if length args > 1 then (Inl logs_usage, w)
      else case open_state w of
        (Inl e, w1) \<Rightarrow> (Inl e, w1)
      | (Inr u, w1) \<Rightarrow>
        (case resolveTarget args w1 of
           (Inl e, w2) \<Rightarrow> (Inl e, w2)
         | (Inr d, w2) \<Rightarrow>
           (case logPath (envr w2) (d_id d) of
              Inl e \<Rightarrow> (Inl e, w2)
            | Inr path \<Rightarrow> print_log broken (d_id d) path w2)))"

section \<open>What the proxy writes\<close>

lemma path_dir_parts:
  assumes "clean_abs p" "clean_parts p \<noteq> []"
  shows "clean_abs (path_dir p)" "clean_parts (path_dir p) = butlast (clean_parts p)"
proof -
  let ?ps = "clean_parts p"
  have abs: "IsAbs p" and p: "p = sep # join_with [sep] ?ps"
    using assms(1) by (simp_all add: clean_abs_def) (metis Clean_def unclean_def)
  have segs: "list_all seg ?ps" by (rule clean_parts_seg [OF abs])
  then have split_p: "split_on sep p = [] # ?ps"
    using assms(2) by (subst p) (auto simp: seg_def list_all_iff intro: split_on_join)
  obtain a b where ab: "p = a @ sep # b" "sep \<notin> set b"
    using split_list_last [of sep p] p by (metis list.set_intros(1))
  have q: "rev (dropWhile (\<lambda>c. c \<noteq> sep) (rev p)) = a @ [sep]"
    using ab by (simp add: dropWhile_append)
  have "split_on sep a @ [b] = [] # ?ps" using split_p ab split_on_append [of sep a b] by (simp add: split_on_no_sep)
  then have "split_on sep a = [] # butlast ?ps"
    using assms(2) by (metis append_butlast_last_id append_eq_append_conv butlast.simps(2) butlast_snoc)
  then have "split_on sep (a @ [sep]) = [] # butlast ?ps @ [[]]" using split_on_append [of sep a "[]"] by simp
  moreover have "IsAbs (a @ [sep])" using abs ab by (cases a) auto
  moreover have "list_all seg (butlast ?ps)" using segs by (auto simp: list_all_iff dest: in_set_butlastD)
  ultimately have "IsAbs (a @ [sep]) \<and> clean_parts (a @ [sep]) = butlast ?ps"
    using fold_clean_segs [of "butlast ?ps" True "[]"] by (simp add: clean_parts_def clean_step_def)
  then show "clean_abs (path_dir p)" "clean_parts (path_dir p) = butlast (clean_parts p)"
    by (simp_all add: path_dir_def q)
qed

lemma make_dirs_frame: "make_dirs mode at cs s = (r, s') \<Longrightarrow> \<not> prefix x (at @ cs) \<Longrightarrow> nodes s' x = nodes s x"
  by (cases "nodes s x") (auto dest: make_dirs_new make_dirs_keeps)

lemma MkdirAll_frame:
  assumes "MkdirAll p mode s = (r, s')" "linkless s" "clean_abs p"
  shows "\<not> prefix x (clean_parts p) \<Longrightarrow> nodes s' x = nodes s x" "linkless s'"
    "r = Inr () \<Longrightarrow> clean_parts p \<noteq> [] \<Longrightarrow> \<exists>m. nodes s' (clean_parts p) = Some (Dir m)"
proof -
  show l: "linkless s'" by (rule linkless_keeps' [OF assms(2) MkdirAll_keeps [OF assms(1)]])
  note d = dir_loc [OF assms(2,3)]
  show "nodes s' x = nodes s x" if "\<not> prefix x (clean_parts p)"
    using assms(1) unfolding MkdirAll_def
  proof (cases rule: fs_callE)
    case (run fs)
    then have "s' = s\<lparr>fs_faults := fs\<rparr> \<or> make_dirs mode [] (clean_parts p) (s\<lparr>fs_faults := fs\<rparr>) = (r, s')"
      using d by (auto split: if_splits)
    with that show ?thesis using make_dirs_frame [of mode "[]" "clean_parts p" "s\<lparr>fs_faults := fs\<rparr>" r s' x] by auto
  qed (simp add: nothing_def)
  show "\<exists>m. nodes s' (clean_parts p) = Some (Dir m)" if "r = Inr ()" "clean_parts p \<noteq> []"
    using assms(1) that d unfolding MkdirAll_def
    by (auto elim!: fs_callE simp: nothing_def strict_prefix_def split: if_splits dest!: make_dirs_ok [where x = "clean_parts p"])
qed

lemma Chmod_frame:
  assumes "Chmod p mode s = (r, s')" "linkless s" "clean_abs p"
  shows "x \<noteq> clean_parts p \<Longrightarrow> nodes s' x = nodes s x" "linkless s'"
    "r = Inr () \<Longrightarrow> nodes s (clean_parts p) = Some (Dir m) \<Longrightarrow> nodes s' (clean_parts p) = Some (Dir mode)"
proof -
  show "linkless s'" by (rule linkless_keeps' [OF assms(2) Chmod_keeps [OF assms(1)]])
qed (use assms(1) dir_loc [OF assms(2,3)] in
  \<open>auto elim!: fs_callE simp: Chmod_def nothing_def split: option.splits node.splits if_splits\<close>)

text \<open>The bytes of the file at a location, none where there is no file.\<close>

definition content :: "filesys \<Rightarrow> location \<Rightarrow> string" where
  "content s l = (case nodes s l of Some (File c m) \<Rightarrow> c | _ \<Rightarrow> [])"

lemma OpenFile_frame:
  assumes "OpenFile p mode s = (r, s')" "linkless s" "clean_abs p"
  shows "x \<noteq> clean_parts p \<Longrightarrow> nodes s' x = nodes s x" "content s' x = content s x"
    "r = Inr l \<Longrightarrow> l = clean_parts p \<and> (\<exists>c m. nodes s' l = Some (File c m))"
  using assms(1) dir_loc [OF assms(2,3)] unfolding OpenFile_def
  by (auto elim!: fs_callE simp: nothing_def content_def split: option.splits node.splits if_splits)

lemma ChmodOpen_frame:
  assumes "ChmodOpen l mode s = (r, s')"
  shows "x \<noteq> l \<Longrightarrow> nodes s' x = nodes s x" "content s' x = content s x"
    "nodes s l = Some (File c m) \<Longrightarrow> \<exists>m'. nodes s' l = Some (File c m') \<and> (r = Inr () \<longrightarrow> m' = mode)"
  using assms unfolding ChmodOpen_def
  by (auto elim!: fs_callE simp: nothing_def content_def split: option.splits node.splits if_splits)

lemma CloseFile_nodes [simp]: "nodes (snd (CloseFile s)) = nodes s"
  using reads_keep(5) [of s "fst (CloseFile s)" "snd (CloseFile s)"] by simp

lemma append_frame:
  assumes "append_file l text s = (r, s')" "nodes s l = Some (File c m)"
  shows "nodes s' = (nodes s)(l \<mapsto> File (if r = Inr () then c @ text else c) m)"
  using assms unfolding append_file_def WriteOpen_def
  by (auto elim!: fs_callE simp: nothing_def fun_eq_iff split: option.splits)

text \<open>The open log as a writer: every write is appended to the file.\<close>

definition grow :: "location \<Rightarrow> string \<Rightarrow> (location \<Rightarrow> node option) \<Rightarrow> location \<Rightarrow> node option" where
  "grow l text n = (case n l of Some (File c m) \<Rightarrow> n(l \<mapsto> File (c @ text) m) | _ \<Rightarrow> n)"

interpretation log_file: line_writer "append_file l" nodes "grow l" "\<lambda>s. \<exists>c m. nodes s l = Some (File c m)" for l
  by unfold_locales (auto dest: append_frame simp: grow_def fun_upd_idem)

lemma grow_lines: "n l = Some (File c m) \<Longrightarrow> fold (grow l) ts n = n(l \<mapsto> File (c @ concat ts) m)"
  by (induction ts arbitrary: n c) (simp_all add: fun_upd_idem grow_def)

lemma append_lines:
  assumes "copy_lines (append_file l) stop ls s = (r, s')" "nodes s l = Some (File c m)"
  shows "\<exists>k. nodes s' = (nodes s)(l \<mapsto> File (c @ concat (map (\<lambda>x. Line (drop_cr x) @ [CHR 0x0A]) (take k ls))) m) \<and>
    (r = Inr () \<longrightarrow> k = length ls \<and> stop = None)"
  using log_file.copied [OF assms(1)] assms(2) by (auto simp: grow_lines)

text \<open>Up to the copy, only the directories above the log, and the log, can have changed, and no content has.\<close>

lemma open_log_effect:
  assumes "open_log path s = (r, s')" "linkless s" "clean_abs path" "clean_parts path \<noteq> []"
  shows "\<not> prefix x (clean_parts path) \<Longrightarrow> nodes s' x = nodes s x" "content s' (clean_parts path) = content s (clean_parts path)"
    "r = Inr l \<Longrightarrow> l = clean_parts path \<and> (\<exists>c m. nodes s' l = Some (File c m)) \<and>
       (butlast l \<noteq> [] \<longrightarrow> nodes s' (butlast l) = Some (Dir perm_0700))"
proof -
  let ?l = "clean_parts path"
  note d = path_dir_parts [OF assms(3,4)]
  obtain a s1 where 1: "MkdirAll (path_dir path) perm_0700 s = (a, s1)" by fastforce
  obtain b s2 where 2: "Chmod (path_dir path) perm_0700 s1 = (b, s2)" by fastforce
  obtain c s3 where 3: "OpenFile path perm_0600 s2 = (c, s3)" by fastforce
  note f1 = MkdirAll_frame [OF 1 assms(2) d(1)] and f2 = Chmod_frame [OF 2 _ d(1)]
  note l1 = f1(2)
  note l2 = f2(2) [OF l1]
  note f3 = OpenFile_frame [OF 3 l2 assms(3)]
  have s': "s' = s1 \<or> s' = s2 \<or> s' = s3" using assms(1) 1 2 3 by (auto simp: open_log_def split: sum.splits)
  have pre: "prefix (butlast ?l) ?l" by (simp add: prefixeq_butlast)
  have long: "\<not> prefix ?l (butlast ?l)" using assms(4) by (cases ?l rule: rev_cases) (auto dest: prefix_length_le)
  show "nodes s' x = nodes s x" if "\<not> prefix x ?l"
  proof -
    have "\<not> prefix x (butlast ?l)" "x \<noteq> butlast ?l" "x \<noteq> ?l" using that pre prefix_order.trans by blast+
    with s' f1(1) f2(1) [OF l1] f3(1) show ?thesis unfolding d(2) by metis
  qed
  have "content s1 ?l = content s ?l" using f1(1) [of ?l] long unfolding d(2) by (simp add: content_def)
  moreover have "content s2 ?l = content s1 ?l" using f2(1) [OF l1, of ?l] long unfolding d(2) by (auto simp: content_def)
  ultimately show "content s' ?l = content s ?l" using s' f3(2) by auto
  show "l = ?l \<and> (\<exists>c m. nodes s' l = Some (File c m)) \<and> (butlast l \<noteq> [] \<longrightarrow> nodes s' (butlast l) = Some (Dir perm_0700))" if "r = Inr l"
  proof -
    have ok: "a = Inr ()" "b = Inr ()" "c = Inr l" "s' = s3" using assms(1) that 1 2 3 by (auto simp: open_log_def split: sum.splits)
    have "nodes s' (butlast ?l) = Some (Dir perm_0700)" if ne: "butlast ?l \<noteq> []"
    proof -
      obtain m where "nodes s1 (butlast ?l) = Some (Dir m)" using f1(3) ok(1) ne unfolding d(2) by blast
      then have "nodes s2 (butlast ?l) = Some (Dir perm_0700)" using f2(3) [OF l1] ok(2) unfolding d(2) by blast
      moreover have "butlast ?l \<noteq> ?l" using long by auto
      ultimately show ?thesis using f3(1) ok(4) by simp
    qed
    with f3(3) ok show ?thesis by auto
  qed
qed

text \<open>The redacted lines of a text that come before line \<open>k\<close>, with their ends.\<close>

definition redacted :: "nat \<Rightarrow> string \<Rightarrow> string" where
  "redacted k text = concat (map (\<lambda>x. Line (drop_cr x) @ [CHR 0x0A]) (take k (raw_lines text)))"

text \<open>
  C7. The log proxy keeps the log private and redacted: whatever the runtime writes and whatever fails, the
  proxy changes no node but the log and the directories above it, and the log gains exactly the redacted form
  of a first part of the lines, nothing unredacted. Exit code 0 means that all the output up to its end is in
  the log, that only its owner may read it, and likewise its directory.
\<close>

theorem log_proxy_redacts:
  assumes "runLogProxy env src s = (code, s')" "path = getenv env ''IOLD_INTERNAL_LOG_PROXY_PATH''"
    "clean_abs path" "clean_parts path \<noteq> []" "linkless s"
  shows "(\<forall>x. \<not> prefix x (clean_parts path) \<longrightarrow> nodes s' x = nodes s x) \<and>
    (\<exists>k. content s' (clean_parts path) = content s (clean_parts path) @ redacted k (fst src) \<and>
       (code = 0 \<longrightarrow> k = length (raw_lines (fst src)) \<and> snd src = None \<and>
          nodes s' (clean_parts path) = Some (File (content s' (clean_parts path)) perm_0600) \<and>
          (butlast (clean_parts path) \<noteq> [] \<longrightarrow> nodes s' (butlast (clean_parts path)) = Some (Dir perm_0700))))"
proof -
  let ?l = "clean_parts path"
  have ne: "path \<noteq> []" using assms(3) by (auto simp: clean_abs_def)
  have long: "butlast ?l \<noteq> ?l" using assms(4) by (cases ?l rule: rev_cases) auto
  obtain a s1 where 1: "open_log path s = (a, s1)" by fastforce
  note f1 = open_log_effect [OF 1 assms(5,3,4)]
  have stopped: ?thesis if "nodes s' = nodes t" "code \<noteq> 0" "\<forall>x. \<not> prefix x ?l \<longrightarrow> nodes t x = nodes s x" "content t ?l = content s ?l" for t
    using that by (intro conjI exI [of _ 0]) (simp_all add: content_def redacted_def)
  show ?thesis
  proof (cases a)
    case (Inl e)
    then have "s' = s1" "code \<noteq> 0" using assms(1,2) ne 1 by (auto simp: runLogProxy_def)
    then show ?thesis using stopped [of s1] f1(1,2) by simp
  next
    case (Inr l)
    obtain b s2 where 2: "ChmodOpen l perm_0600 s1 = (b, s2)" by fastforce
    note at = f1(3) [OF Inr]
    then have l: "l = ?l" by blast
    obtain c m where file1: "nodes s1 ?l = Some (File c m)" using at l by blast
    have was: "content s ?l = c" using f1(2) file1 by (simp add: content_def)
    have "nodes s2 x = nodes s x" if x: "\<not> prefix x ?l" for x
    proof -
      have "x \<noteq> l" using x l by auto
      then show ?thesis using f1(1) [OF x] ChmodOpen_frame(1) [OF 2] by simp
    qed
    then have frame2: "\<forall>x. \<not> prefix x ?l \<longrightarrow> nodes s2 x = nodes s x" by blast
    obtain m' where m': "nodes s2 ?l = Some (File c m')" "b = Inr () \<longrightarrow> m' = perm_0600"
      using ChmodOpen_frame(3) [OF 2, of c m] file1 l by auto
    have dir2: "nodes s2 (butlast ?l) = nodes s1 (butlast ?l)" using ChmodOpen_frame(1) [OF 2] long l by blast
    obtain d s3 where 3: "Copy (append_file l) src s2 = (d, s3)" by fastforce
    show ?thesis
    proof (cases b)
      case (Inl e)
      then have "s' = snd (CloseFile s2)" "code \<noteq> 0" using assms(1,2) ne 1 2 Inr by (auto simp: runLogProxy_def)
      moreover have "content s2 ?l = content s ?l" using m'(1) was by (simp add: content_def)
      ultimately show ?thesis using stopped [of s2] frame2 by simp
    next
      case (Inr u)
      then have mode: "m' = perm_0600" using m'(2) by simp
      obtain k where k: "nodes s3 = (nodes s2)(?l \<mapsto> File (c @ redacted k (fst src)) m')"
        "d = Inr () \<longrightarrow> k = length (raw_lines (fst src)) \<and> snd src = None"
        using append_lines [OF 3 [unfolded Copy_def l] m'(1)] unfolding redacted_def by blast
      have s': "s' = snd (CloseFile s3)" "code = 0 \<longrightarrow> d = Inr ()" 
        using assms(1,2) ne 1 2 3 \<open>a = Inr l\<close> Inr by (auto simp: runLogProxy_def split: sum.splits)
      have "nodes s' = nodes s3" using s'(1) by simp
      moreover have "butlast ?l \<noteq> [] \<longrightarrow> nodes s1 (butlast ?l) = Some (Dir perm_0700)" using at l by blast
      ultimately show ?thesis using k s'(2) frame2 mode dir2 long was by (auto simp: content_def)
    qed
  qed
qed

definition sample_log_env :: environment where
  "sample_log_env = \<lparr>getenv = (\<lambda>k. if k = ''IOLD_INTERNAL_LOG_PROXY_PATH'' then ''/l/a.log'' else []),
     workspace_is_dir = False, user_home = Inr ''/h'', getwd = Inr ''/''\<rparr>"

definition sample_log_fs :: filesys where
  "sample_log_fs = \<lparr>entries = [([''l''], Dir 493), ([''l'', ''a.log''], File ''x'' 420)], fs_faults = []\<rparr>"

lemma sample_log_line: "Line ''key hf_12345678'' = ''key [REDACTED]''"
  by code_simp

lemma sample_log_lines: "redacted 1 ''key hf_12345678'' = ''key [REDACTED]'' @ [CHR 0x0A]"
  by (simp add: redacted_def raw_lines_def split_on.simps drop_cr_def sample_log_line)

lemma sample_log_copy:
  "Copy wr (''key hf_12345678'', None) t = (case wr (''key [REDACTED]'' @ [CHR 0x0A]) t of
     (Inl e, t1) \<Rightarrow> (Inl e, t1) | (Inr u, t1) \<Rightarrow> (Inr (), t1))"
  by (simp add: Copy_def raw_lines_def split_on.simps drop_cr_def maxLine_def sample_log_line cong: sum.case_cong split: prod.split sum.split)

theorem log_proxy_redacts_witness:
  "\<exists>s'. runLogProxy sample_log_env (''key hf_12345678'', None) sample_log_fs = (0, s') \<and>
     nodes s' [''l'', ''a.log''] = Some (File (''xkey [REDACTED]'' @ [CHR 0x0A]) perm_0600) \<and> nodes s' [''l''] = Some (Dir perm_0700)"
proof -
  have parts: "clean_parts ''/l/a.log'' = [''l'', ''a.log'']" "clean_abs ''/l/a.log''" by code_simp+
  have "fst (open_log ''/l/a.log'' sample_log_fs) = Inr [''l'', ''a.log'']" "fs_faults (snd (open_log ''/l/a.log'' sample_log_fs)) = []"
    by code_simp+
  then obtain t where t: "open_log ''/l/a.log'' sample_log_fs = (Inr [''l'', ''a.log''], t)" "fs_faults t = []" by (metis prod.collapse)
  obtain t1 where t1: "ChmodOpen [''l'', ''a.log''] perm_0600 t = (Inr (), t1)" "fs_faults t1 = []"
    using t(2) by (auto simp: ChmodOpen_def fs_call_ok split: option.split node.split)
  obtain t2 where t2: "append_file [''l'', ''a.log''] (''key [REDACTED]'' @ [CHR 0x0A]) t1 = (Inr (), t2)"
    using t1(2) by (simp add: append_file_def WriteOpen_def fs_call_ok)
  have run: "fst (runLogProxy sample_log_env (''key hf_12345678'', None) sample_log_fs) = 0"
    using t(1) t1(1) t2 by (simp add: runLogProxy_def sample_log_env_def sample_log_copy)
  have links: "linkless sample_log_fs"
    by (auto simp: linkless_def nodes_def sample_log_fs_def)
  obtain s' where s': "runLogProxy sample_log_env (''key hf_12345678'', None) sample_log_fs = (0, s')"
    using run by (metis prod.collapse)
  have old: "content sample_log_fs [''l'', ''a.log''] = ''x''" by (simp add: content_def nodes_def sample_log_fs_def)
  have lines: "length (raw_lines ''key hf_12345678'') = 1" by (simp add: raw_lines_def split_on.simps)
  from log_proxy_redacts [OF s' refl _ _ links] show ?thesis
    using s' parts old lines sample_log_lines by (auto simp: sample_log_env_def)
qed

section \<open>What the command prints\<close>

lemma resolveTarget_effect:
  assumes "resolveTarget args w = (r, w')" "store_inv (db w)"
  shows "\<exists>s. w' = w\<lparr>db := s\<rparr> \<and> same_data (db w) s"
    "r = Inr d \<Longrightarrow> deployments (db w) (d_id d) = Some d \<and>
       (args = [d_id d] \<or> length args \<noteq> 1 \<and> (\<forall>i e. deployments (db w) i = Some e \<longrightarrow> e = d))"
proof -
  show "\<exists>s. w' = w\<lparr>db := s\<rparr> \<and> same_data (db w) s"
    using assms(1) unfolding resolveTarget_def
    by (auto simp: on_db_def split: if_splits prod.splits sum.splits list.splits dest!: Get_effect ListAll_effect)
  show "deployments (db w) (d_id d) = Some d \<and>
      (args = [d_id d] \<or> length args \<noteq> 1 \<and> (\<forall>i e. deployments (db w) i = Some e \<longrightarrow> e = d))" if ok: "r = Inr d"
  proof (cases "length args = 1")
    case True
    then obtain i where i: "args = [i]" by (cases args) auto
    obtain s where "Get i (db w) = (Inr d, s)" using assms(1) ok i by (auto simp: resolveTarget_def on_db_eq)
    from Get_found [OF assms(2) this] have g: "deployments (db w) i = Some d" .
    then show ?thesis using i deployments_phase(2) [OF assms(2) g] by simp
  next
    case False
    then obtain s where l: "ListAll (db w) = (Inr [d], s)"
      using assms(1) ok by (auto simp: resolveTarget_def on_db_def split: prod.splits sum.splits list.splits)
    have "deployments (db w) (d_id e) = Some e \<longleftrightarrow> e = d" for e using ListAll_result [OF assms(2) l] by auto
    then show ?thesis using False deployments_phase(2) [OF assms(2)] by blast
  qed
qed

text \<open>Standard output as a writer: a printed line is added to the text, nothing else changes.\<close>

interpretation stdout: line_writer "print_to broken" "\<lambda>w. w" "\<lambda>t. say (butlast t)" "\<lambda>w. True" for broken
  by unfold_locales (auto simp: print_to_def split: option.splits)

lemma say_lines: "fold (\<lambda>t. say (butlast t)) (map (\<lambda>l. f l @ [c]) ls) w = w\<lparr>out := out w @ map f ls\<rparr>"
  by (induction ls arbitrary: w) (simp_all add: say_def)

lemma print_lines:
  assumes "copy_lines (print_to broken) stop ls w = (r, w')"
  shows "\<exists>k. w' = w\<lparr>out := out w @ map (\<lambda>l. Line (drop_cr l)) (take k ls)\<rparr> \<and> (r = Inr () \<longrightarrow> k = length ls \<and> stop = None)"
  using stdout.copied [OF assms] by (simp add: say_lines)

lemma print_log_effect:
  assumes "print_log broken i path w = (r, w')"
  shows "db w' = db w \<and> osy w' = osy w \<and> nodes (fsys w') = nodes (fsys w) \<and>
    (\<exists>ls. out w' = out w @ ls \<and> (\<forall>l\<in>set ls. \<forall>n. \<not> token_at n l) \<and>
      (r = Inr () \<longrightarrow> (\<exists>text m. node_at (fsys w) path = Some (File text m) \<and> ls = map (\<lambda>l. Line (drop_cr l)) (raw_lines text))))"
proof -
  obtain a w1 where 1: "on_fs (OpenRead path) w = (a, w1)" by fastforce
  have n1: "w1 = w\<lparr>fsys := fsys w1\<rparr>" "nodes (fsys w1) = nodes (fsys w)"
    using 1 by (auto simp: on_fs_eq OpenRead_def nothing_def elim!: fs_callE)
  show ?thesis
  proof (cases a)
    case (Inl e)
    then have "w' = w1" "r \<noteq> Inr ()" using assms 1 by (auto simp: print_log_def)
    moreover have "db w1 = db w" "osy w1 = osy w" "out w1 = out w @ []" by (subst n1(1), simp)+
    ultimately show ?thesis using n1(2) by (intro conjI exI [of _ "[]"]) simp_all
  next
    case (Inr l)
    obtain src w2 where 2: "on_fs (read_all l) w1 = (src, w2)" by fastforce
    obtain b w3 where 3: "Copy (print_to broken) src w2 = (b, w3)" by fastforce
    obtain c w4 where 4: "on_fs CloseFile w3 = (c, w4)" by fastforce
    have res: "r = b" "w' = w4" using assms 1 2 3 4 Inr by (simp_all add: print_log_def)
    have n2: "w2 = w1\<lparr>fsys := fsys w2\<rparr>" "nodes (fsys w2) = nodes (fsys w1)"
      using 2 by (auto simp: on_fs_eq read_all_def nothing_def elim!: fs_callE split: sum.splits prod.splits)
    have n4: "w4 = w3\<lparr>fsys := fsys w4\<rparr>" "nodes (fsys w4) = nodes (fsys w3)"
      using 4 by (auto simp: on_fs_eq dest: reads_keep(5))
    have text_read: "\<exists>m. node_at (fsys w) path = Some (File (fst src) m)" if "snd src = None"
    proof -
      have "\<exists>m. nodes (fsys w1) l = Some (File (fst src) m)"
        using 2 that by (auto simp: on_fs_eq read_all_def nothing_def elim!: fs_callE split: sum.splits prod.splits option.splits node.splits)
      moreover have "loc (fsys w) path = Some l"
        using 1 Inr by (auto simp: on_fs_eq OpenRead_def get_def nothing_def elim!: fs_callE split: sum.splits option.splits node.splits)
      ultimately show ?thesis using n1(2) by (simp add: node_at_def)
    qed
    obtain k where k: "w3 = w2\<lparr>out := out w2 @ map (\<lambda>l. Line (drop_cr l)) (take k (raw_lines (fst src)))\<rparr>"
      "b = Inr () \<longrightarrow> k = length (raw_lines (fst src)) \<and> snd src = None"
      using print_lines [OF 3 [unfolded Copy_def]] by blast
    define ls' where "ls' = map (\<lambda>l. Line (drop_cr l)) (take k (raw_lines (fst src)))"
    note ls' = k(1) [folded ls'_def]
    have clean: "\<forall>l\<in>set ls'. \<forall>n. \<not> token_at n l" using line_no_token by (auto simp: ls'_def)
    have done_all: "snd src = None \<and> ls' = map (\<lambda>l. Line (drop_cr l)) (raw_lines (fst src))" if "r = Inr ()"
      using k(2) that res(1) by (simp add: ls'_def)
    have same: "db w4 = db w" "osy w4 = osy w" "nodes (fsys w4) = nodes (fsys w)" "out w4 = out w @ ls'"
    proof -
      obtain f1 f2 f4 where "w1 = w\<lparr>fsys := f1\<rparr>" "w2 = w1\<lparr>fsys := f2\<rparr>" "w4 = w3\<lparr>fsys := f4\<rparr>" using n1(1) n2(1) n4(1) by blast
      then show "db w4 = db w" "osy w4 = osy w" "nodes (fsys w4) = nodes (fsys w)" "out w4 = out w @ ls'"
        using n1(2) n2(2) n4(2) ls' by simp_all
    qed
    show ?thesis using same res(2) clean done_all text_read by blast
  qed
qed

lemma runLogs_effect:
  assumes "runLogs broken args w = (r, w')" "store_inv (db w)"
  shows "deployments (db w') = deployments (db w) \<and> osy w' = osy w \<and> nodes (fsys w') = nodes (fsys w) \<and>
    (\<exists>ls. out w' = out w @ ls \<and> (\<forall>l\<in>set ls. \<forall>n. \<not> token_at n l) \<and>
      (r = Inr () \<longrightarrow> (\<exists>d path text m. deployments (db w) (d_id d) = Some d \<and>
         (args = [d_id d] \<or> args = [] \<and> (\<forall>i e. deployments (db w) i = Some e \<longrightarrow> e = d)) \<and>
         logPath (envr w) (d_id d) = Inr path \<and> node_at (fsys w) path = Some (File text m) \<and>
         ls = map (\<lambda>l. Line (drop_cr l)) (raw_lines text))))"
proof -
  have silent: ?thesis if "deployments (db w') = deployments (db w)" "osy w' = osy w" "fsys w' = fsys w" "out w' = out w" "r \<noteq> Inr ()"
    using that by (intro conjI exI [of _ "[]"]) simp_all
  show ?thesis
  proof (cases "length args > 1")
    case True
    with assms(1) show ?thesis by (intro silent) (auto simp: runLogs_def)
  next
    case False
    obtain a w1 where 1: "open_state w = (a, w1)" by fastforce
    note o = open_state_effect [OF 1 assms(2)]
    have out1: "out w1 = out w" using 1 by (auto simp: open_state_def on_db_eq split: option.splits)
    show ?thesis
    proof (cases a)
      case (Inl e)
      then have "w' = w1" "r \<noteq> Inr ()" using assms(1) False 1 by (auto simp: runLogs_def)
      then show ?thesis using o out1 by (intro silent) simp_all
    next
      case (Inr u)
      obtain b w2 where 2: "resolveTarget args w1 = (b, w2)" by fastforce
      note t = resolveTarget_effect [OF 2 o(1)]
      obtain s where s: "w2 = w1\<lparr>db := s\<rparr>" "same_data (db w1) s" using t(1) by blast
      have dep: "deployments (db w2) = deployments (db w)" using s o(2) same_data_rows(1) [OF s(2)] by (simp add: deployments_def fun_eq_iff)
      show ?thesis
      proof (cases "\<exists>d path. b = Inr d \<and> logPath (envr w2) (d_id d) = Inr path")
        case False
        then have "w' = w2" "r \<noteq> Inr ()" using assms(1) \<open>\<not> length args > 1\<close> 1 2 Inr by (cases b; auto simp: runLogs_def split: sum.splits)+
        then show ?thesis using o out1 s dep by (intro silent) simp_all
      next
        case True
        then obtain d path where d: "b = Inr d" "logPath (envr w2) (d_id d) = Inr path" by blast
        have p: "print_log broken (d_id d) path w2 = (r, w')" using assms(1) \<open>\<not> length args > 1\<close> 1 2 Inr d by (simp add: runLogs_def)
        have "args = [d_id d] \<or> args = [] \<and> (\<forall>i e. deployments (db w) i = Some e \<longrightarrow> e = d)" "deployments (db w) (d_id d) = Some d"
          using t(2) [OF d(1)] False o(2) by (cases args; auto)+
        moreover have "logPath (envr w) (d_id d) = Inr path" using d(2) s(1) o(5) by simp
        moreover have "osy w2 = osy w" "fsys w2 = fsys w" "out w2 = out w" using s(1) o out1 by simp_all
        ultimately show ?thesis using print_log_effect [OF p] dep by (metis (no_types, lifting))
      qed
    qed
  qed
qed


definition demo_log_world :: world where
  "demo_log_world = (demo_world [demo_served] idle_os)
     \<lparr>fsys := \<lparr>entries = [([''h'', ''.iold'', ''logs'', ''m-3.log''], File ''key hf_12345678'' 384)], fs_faults = []\<rparr>\<rparr>"


end
