(* ===== verification/Commands.thy ===== *)
theory Commands imports Report Plan Logs begin

text \<open>
  The command line: \<open>Run\<close>, \<open>runDoctor\<close> and \<open>printUsage\<close> of internal/cli/cli.go, the program entry
  (cmd/iold/main.go) with the hook that turns the program into the log proxy, and what holds of the program
  as a whole: how it reports errors, and which commands act at all.
\<close>

section \<open>Usage, version, models\<close>

text \<open>The dash of the title is the three bytes of its UTF-8 form.\<close>

definition usage_lines :: "string list" where
  "usage_lines =
     [''IOLD '' @ [CHR 0xE2, CHR 0x80, CHR 0x94] @ '' Instant Open-source LLM Deployment'',
      '''',
      ''Usage:'',
      ''  iold deploy <catalog-alias|hf-model> [--replace]'',
      ''  iold add <catalog-model>'',
      ''  iold status [deployment] [--json]'',
      ''  iold logs [deployment]'',
      ''  iold destroy [deployment|--all]'',
      ''  iold plan <hf-model> [--context N] [--vram GiB]'',
      ''  iold doctor'',
      ''  iold models'',
      ''  iold version'']"

definition Version :: string where
  "Version = ''dev''"

definition say_all :: "string list \<Rightarrow> world \<Rightarrow> world" where
  "say_all ls w = fold say ls w"

definition models_lines :: "string list" where
  "models_lines = map (\<lambda>m. join_with [CHR 0x09] [k_alias m, k_quantization m, k_artifact m]) (sort_key k_alias catalog_List)"

section \<open>Doctor\<close>

fun status_text :: "check_status \<Rightarrow> string" where
  "status_text StatusPass = ''PASS''"
| "status_text StatusWarn = ''WARN''"
| "status_text StatusFail = ''FAIL''"

definition check_line :: "check \<Rightarrow> string" where
  "check_line c = pad_right 4 (status_text (c_status c)) @ '' '' @ pad_right 16 (c_name c) @ '' '' @ c_detail c"

definition catalog_requirements :: "requirements \<Rightarrow> requirements" where
  "catalog_requirements req = foldl (\<lambda>r m. if k_min_vram_gib m > MinVRAMGiB r then r\<lparr>MinVRAMGiB := k_min_vram_gib m\<rparr> else r) req catalog_List"

definition runDoctor :: "probes \<Rightarrow> world \<Rightarrow> unit result \<times> world" where
  "runDoctor p w =
     (case on_os (doctor_Run p (catalog_requirements (DefaultRequirements (modelCacheDir (envr w))))) w of
        (checks, w1) \<Rightarrow>
          (let w2 = say_all (map check_line checks) w1 in
           if \<not> report_OK checks
           then (Inl (Errorf ''%w: this host cannot run IOLD deployments'' [ArgW (Sentinel ErrChecksFailed)]), w2)
           else (Inr (), say ''All checks passed.'' w2)))"

section \<open>Run\<close>

text \<open>
  What lies outside the program: the host of a deployment, the probes, the hub and the runtime's server, the
  order the sort gives to models with equal downloads, the errors of writes to standard output, and what the
  pipe of the log proxy delivers.
\<close>

record outside =
  x_host :: host
  x_probes :: probes
  x_hub :: service
  x_runtime :: service
  x_sort :: "hfmodel list \<Rightarrow> hfmodel list"
  x_stdout :: "nat \<Rightarrow> goerr option"
  x_pipe :: "string \<times> goerr option"

definition plan_command :: "outside \<Rightarrow> string list \<Rightarrow> world \<Rightarrow> unit result \<times> world" where
  "plan_command x args w =
     (case runPlan (x_sort x) (x_probes x) (NewClient (x_hub x) (getenv (envr w) ''HF_TOKEN'')) args (osy w) of
        (r, ls, o1) \<Rightarrow> (r, say_all ls (w\<lparr>osy := o1\<rparr>)))"

text \<open>The result of a command that writes nothing to standard error.\<close>

definition quietly :: "unit result \<times> world \<Rightarrow> (unit result \<times> string list \<times> world) option" where
  "quietly rw = (case rw of (r, w) \<Rightarrow> Some (r, [], w))"

definition Run :: "outside \<Rightarrow> string list \<Rightarrow> world \<Rightarrow> (unit result \<times> string list \<times> world) option" where
  "Run x args w =
     (case args of
        [] \<Rightarrow> quietly (Inr (), say_all usage_lines w)
      | c # rest \<Rightarrow>
        (if c \<in> set [''help'', ''--help'', ''-h''] then quietly (Inr (), say_all usage_lines w)
         else if c \<in> set [''version'', ''--version''] then quietly (Inr (), say (''iold '' @ Version) w)
         else if c = ''models'' then quietly (Inr (), say_all models_lines w)
         else if c = ''deploy''
           then (case runDeploy (x_host x) (defaultDeployDeps (envr w) (x_probes x) (x_hub x) (x_runtime x)) rest w of
                   None \<Rightarrow> None | Some rw \<Rightarrow> quietly rw)
         else if c = ''add''
           then quietly (Inl (Errorf ''%w: add (multi-model colocation) arrives in milestone M6; use deploy''
                  [ArgW (Sentinel ErrNotImplemented)]), w)
         else if c = ''plan'' then quietly (plan_command x rest w)
         else if c = ''doctor'' then quietly (runDoctor (x_probes x) w)
         else if c = ''status'' then quietly (status_command (x_stdout x) rest w)
         else if c = ''logs'' then quietly (runLogs (x_stdout x) rest w)
         else if c = ''destroy'' then quietly (runDestroy rest w)
         else Some (Inl (Errorf ''%w: unknown command %q'' [ArgW (Sentinel ErrUsage), ArgS c]),
                    (''unknown command: '' @ c) # usage_lines, w)))"

section \<open>The program\<close>

text \<open>\<open>fmt.Fprintln(os.Stderr, "error:", err)\<close> and \<open>os.Exit(cli.ExitCode(err))\<close>.\<close>

definition main :: "outside \<Rightarrow> string list \<Rightarrow> world \<Rightarrow> (nat \<times> string list \<times> world) option" where
  "main x args w =
     (case Run x args w of
        None \<Rightarrow> None
      | Some (Inl e, errs, w1) \<Rightarrow> Some (exit_code (Some e), errs @ [''error: '' @ error_text e], w1)
      | Some (Inr u, errs, w1) \<Rightarrow> Some (exit_code None, errs, w1))"

text \<open>
  The hook that runs before \<open>main\<close>: the supervisor starts the same binary again, with an argument of its
  own, as the proxy of a log.
\<close>

definition logProxyArg :: string where
  "logProxyArg = ''__iold_internal_log_proxy''"

definition program :: "outside \<Rightarrow> string list \<Rightarrow> world \<Rightarrow> (int \<times> string list \<times> world) option" where
  "program x args w =
     (if args \<noteq> [] \<and> hd args = logProxyArg
      then (case on_fs (runLogProxy (envr w) (x_pipe x)) w of (code, w1) \<Rightarrow> Some (code, [], w1))
      else case main x args w of None \<Rightarrow> None | Some (code, errs, w1) \<Rightarrow> Some (int code, errs, w1))"

section \<open>Malformed command lines\<close>

text \<open>Operands: empty ones before the first name are skipped.\<close>

definition names_in :: "string list \<Rightarrow> string list \<Rightarrow> string list" where
  "names_in options args = dropWhile (\<lambda>a. a = []) (filter (\<lambda>a. a \<notin> set options) args)"

definition one_reference :: "string list \<Rightarrow> bool" where
  "one_reference ns = (\<exists>i. ns = [i] \<and> \<not> has_prefix i ''-'')"

definition malformed :: "string \<Rightarrow> string list \<Rightarrow> bool" where
  "malformed c args =
     (if c = ''deploy'' then \<not> one_reference (names_in [''--replace''] args)
      else if c = ''destroy''
        then (if ''--all'' \<in> set args then names_in [''--all'', ''--purge''] args \<noteq> []
              else \<not> one_reference (names_in [''--all'', ''--purge''] args))
      else if c = ''status'' then length (names_in [''--json''] args) > 1
      else if c = ''logs'' then length args > 1
      else if c = ''plan'' then plan_args [] DefaultContextTokens 0 args = Inl plan_usage
      else c \<notin> set [''help'', ''--help'', ''-h'', ''version'', ''--version'', ''models'', ''add'', ''doctor''])"

definition only_options :: "string list \<Rightarrow> string list \<Rightarrow> bool" where
  "only_options opts args = (\<forall>a\<in>set args. a \<in> set opts)"

lemma only_options_simps:
  "only_options opts []" "only_options opts (a # as) = (a \<in> set opts \<and> only_options opts as)"
  by (simp_all add: only_options_def)

lemma one_name_simps:
  "\<not> one_reference (names_in opts [])"
  "one_reference (names_in opts (a # as)) =
     (if a \<in> set opts \<or> a = [] then one_reference (names_in opts as) else only_options opts as \<and> \<not> has_prefix a ''-'')"
  by (auto simp: names_in_def one_reference_def only_options_def filter_empty_conv)

lemma no_name_simps:
  "names_in opts [] = []"
  "names_in opts (a # as) = [] \<longleftrightarrow> (a \<in> set opts \<or> a = []) \<and> names_in opts as = []"
  by (auto simp: names_in_def)

lemma few_names_simps:
  "length (names_in opts []) \<le> Suc 0"
  "length (names_in opts (a # as)) \<le> Suc 0 \<longleftrightarrow>
     (if a \<in> set opts \<or> a = [] then length (names_in opts as) \<le> Suc 0 else only_options opts as)"
  by (auto simp: names_in_def only_options_def filter_empty_conv)

lemma deploy_args_shape:
  "deploy_args rep ref args \<noteq> Inl deploy_usage \<Longrightarrow>
     (ref = [] \<longrightarrow> one_reference (names_in [''--replace''] args)) \<and> (ref \<noteq> [] \<longrightarrow> only_options [''--replace''] args)"
proof (induction rep ref args rule: deploy_args.induct)
  case (1 rep ref)
  then show ?case by (cases "ref = []") (simp_all add: only_options_simps)
next
  case (2 rep ref a as)
  consider "a = ''--replace''" | "a \<noteq> ''--replace''" "ref = []" "\<not> has_prefix a ''-''" | "a \<noteq> ''--replace''" "\<not> (ref = [] \<and> \<not> has_prefix a ''-'')" by blast
  then show ?case
  proof cases
    case 1
    with 2 show ?thesis by (simp add: one_name_simps only_options_simps)
  next
    case 2
    with "2.IH"(2) "2.prems" show ?thesis by (cases "a = []") (simp_all add: one_name_simps)
  next
    case 3
    with "2.prems" show ?thesis by simp
  qed
qed

lemma destroy_args_shape:
  "destroy_args all purge i args = Inr z \<Longrightarrow> opts = [''--all'', ''--purge''] \<Longrightarrow>
     (i = [] \<longrightarrow> (if all \<or> ''--all'' \<in> set args then names_in opts args = [] else one_reference (names_in opts args))) \<and>
     (i \<noteq> [] \<longrightarrow> \<not> all \<and> ''--all'' \<notin> set args \<and> only_options opts args)"
proof (induction all purge i args rule: destroy_args.induct)
  case (1 all purge i)
  then show ?case by (cases all; cases "i = []") (simp_all add: only_options_simps no_name_simps)
next
  case (2 all purge i a as)
  have "a \<in> set opts \<longleftrightarrow> a = ''--all'' \<or> a = ''--purge''" using "2.prems"(2) by simp
  then consider "a = ''--all''" | "a = ''--purge''" | "a \<notin> set opts" "a = []" "i = []"
    | "a \<notin> set opts" "a \<noteq> []" "i = []" "\<not> has_prefix a ''-''"
    | "a \<notin> set opts" "\<not> (i = [] \<and> \<not> has_prefix a ''-'')" by blast
  then show ?case
  proof cases
    case 1
    with 2 show ?thesis by (auto simp: only_options_simps no_name_simps)
  next
    case 2
    then have "a \<noteq> ''--all''" "a \<in> set opts" using \<open>opts = [''--all'', ''--purge'']\<close> by simp_all
    moreover have "destroy_args all True i as = Inr z" using "2.prems" 2 by simp
    moreover have "(i = [] \<longrightarrow> (if all \<or> ''--all'' \<in> set as then names_in opts as = [] else one_reference (names_in opts as))) \<and>
       (i \<noteq> [] \<longrightarrow> \<not> all \<and> ''--all'' \<notin> set as \<and> only_options opts as)"
      using "2.IH"(2) [OF _ 2 _ "2.prems"(2)] calculation by blast
    ultimately show ?thesis by (simp add: one_name_simps only_options_simps no_name_simps split: if_splits)
  next
    case 3
    then have "destroy_args all purge [] as = Inr z" using "2.prems" by simp
    with 3 "2.IH"(3) "2.prems"(2) show ?thesis by (auto simp: one_name_simps no_name_simps)
  next
    case 4
    then have "destroy_args all purge a as = Inr z" using "2.prems" by simp
    with 4 "2.IH"(3) "2.prems"(2) show ?thesis by (auto simp: one_name_simps)
  next
    case 5
    then have "destroy_args all purge i (a # as) = Inl destroy_usage" using "2.prems"(2) by auto
    with "2.prems"(1) show ?thesis by simp
  qed
qed

lemma status_args_shape:
  "status_args i j args = Inr z \<Longrightarrow>
     (i = [] \<longrightarrow> length (names_in [''--json''] args) \<le> 1) \<and> (i \<noteq> [] \<longrightarrow> only_options [''--json''] args)"
proof (induction i j args rule: status_args.induct)
  case (2 i j a as)
  consider "a = ''--json''" | "a \<noteq> ''--json''" "i = []" | "a \<noteq> ''--json''" "i \<noteq> []" by blast
  then show ?case
  proof cases
    case 1
    with 2 show ?thesis by (simp add: few_names_simps only_options_simps)
  next
    case 2
    with "2.IH"(2) "2.prems" show ?thesis by (cases "a = []") (simp_all add: few_names_simps)
  next
    case 3
    with "2.prems" show ?thesis by simp
  qed
qed (simp add: few_names_simps only_options_simps)

lemma status_args_fails: "status_args i j args = Inl e \<Longrightarrow> e = status_usage"
  by (induction i j args rule: status_args.induct) (auto split: if_splits)

lemma malformed_Run:
  assumes "malformed c args"
  shows "\<exists>e errs. Run x (c # args) w = Some (Inl e, errs, w) \<and> errors_is ErrUsage e"
proof -
  consider "c = ''deploy''" | "c = ''destroy''" | "c = ''status''" | "c = ''logs''" | "c = ''plan''"
    | "c \<notin> {''deploy'', ''destroy'', ''status'', ''logs'', ''plan''}" by blast
  then show ?thesis
  proof cases
    case 1
    have "deploy_args False [] args = Inl deploy_usage"
      using assms 1 deploy_args_shape [of False "[]" args] by (auto simp: malformed_def)
    then show ?thesis using 1 by (simp add: Run_def quietly_def runDeploy_def deploy_usage_def)
  next
    case 2
    obtain e where e: "destroy_args False False [] args = Inl e"
      using assms 2 destroy_args_shape [of False False "[]" args _ "[''--all'', ''--purge'']"] by (cases "destroy_args False False [] args") (auto simp: malformed_def split: if_splits)
    then show ?thesis using 2 destroy_args_fails [OF e] by (simp add: Run_def quietly_def runDestroy_def destroy_usage_def)
  next
    case 3
    obtain e where e: "status_args [] False args = Inl e"
      using assms 3 status_args_shape [of "[]" False args] by (cases "status_args [] False args") (auto simp: malformed_def)
    then show ?thesis using 3 status_args_fails [OF e]
      by (simp add: Run_def quietly_def status_command_def runStatus_def status_usage_def)
  next
    case 4
    with assms show ?thesis by (simp add: malformed_def Run_def quietly_def runLogs_def logs_usage_def)
  next
    case 5
    with assms show ?thesis
      by (simp add: malformed_def Run_def quietly_def plan_command_def runPlan_def plan_usage_def say_all_def)
  next
    case 6
    with assms show ?thesis by (auto simp: malformed_def Run_def)
  qed
qed

text \<open>
  C11. The program reports errors faithfully: it exits with 0 exactly when nothing is written to standard error,
  and otherwise the last line there is the error; a malformed command line is a usage error, exit code 2, and
  nothing at all has happened: no record, process, file or line of output.
\<close>

theorem errors_reported:
  assumes "main x args w = Some (code, errs, w')"
  shows "(code = 0 \<longleftrightarrow> errs = []) \<and>
    (errs \<noteq> [] \<longrightarrow> (\<exists>e. last errs = ''error: '' @ error_text e \<and> code = exit_code (Some e))) \<and>
    (\<forall>c rest. args = c # rest \<and> malformed c rest \<longrightarrow> code = 2 \<and> w' = w)"
proof -
  obtain r es w1 where R: "Run x args w = Some (r, es, w1)"
    using assms by (auto simp: main_def split: option.splits prod.splits)
  have silent: "es = []" if "r = Inr ()"
    using R that by (auto simp: Run_def quietly_def split: list.splits if_splits option.splits prod.splits)
  have first: "(code = 0 \<longleftrightarrow> errs = []) \<and> (errs \<noteq> [] \<longrightarrow> (\<exists>e. last errs = ''error: '' @ error_text e \<and> code = exit_code (Some e)))"
  proof (cases r)
    case (Inl e)
    then have out: "code = exit_code (Some e) \<and> errs = es @ [''error: '' @ error_text e]"
      using assms R by (simp add: main_def)
    moreover have "exit_code (Some e) \<noteq> 0" using exit_code_zero_iff [of "Some e"] by simp
    ultimately show ?thesis by auto
  next
    case (Inr u)
    then show ?thesis using assms R silent by (simp add: main_def)
  qed
  have "code = 2 \<and> w' = w" if a: "args = c # rest" "malformed c rest" for c rest
  proof -
    obtain e es' where "Run x args w = Some (Inl e, es', w)" "errors_is ErrUsage e"
      using malformed_Run [OF a(2)] a(1) by blast
    with assms show ?thesis by (auto simp: main_def exit_code_def)
  qed
  with first show ?thesis by blast
qed

definition sample_outside :: outside where
  "sample_outside = \<lparr>x_host = demo_host (Inr 7), x_probes = sample_probes, x_hub = sample_hub, x_runtime = sample_hub,
     x_sort = by_downloads, x_stdout = (\<lambda>n. None), x_pipe = ([], None)\<rparr>"

theorem errors_reported_witness:
  "main sample_outside [''status'', ''m-3'', ''m-4''] status_world =
     Some (2, [''error: usage error: iold status [deployment] [--json]''], status_world)"
proof -
  have "malformed ''status'' [''m-3'', ''m-4'']" by (simp add: malformed_def names_in_def)
  moreover obtain errs w' where "main sample_outside [''status'', ''m-3'', ''m-4''] status_world = Some (2, errs, w')"
    "errs = [''error: usage error: iold status [deployment] [--json]'']"
    by (auto simp: main_def Run_def quietly_def status_command_def runStatus_def status_usage_def exit_code_def split: prod.splits)
  ultimately show ?thesis using errors_reported [of sample_outside "[''status'', ''m-3'', ''m-4'']" status_world 2 errs w'] by simp
qed

section \<open>Which commands act\<close>

lemma say_all_fields [simp]:
  "db (say_all ls w) = db w" "osy (say_all ls w) = osy w" "fsys (say_all ls w) = fsys w" "envr (say_all ls w) = envr w"
  unfolding say_all_def by (induction ls arbitrary: w) (simp_all add: say_def)

lemma quiet_network: "quiet o1 (snd (network_checks p es o1))"
proof (induction es arbitrary: o1)
  case (Cons e es)
  obtain c o2 where c: "networkCheck p e o1 = (c, o2)" by fastforce
  then have "quiet o1 o2" using quiet_step by (auto simp: networkCheck_def split: option.splits)
  then have "quiet o1 (snd (network_checks p es o2))" using Cons quiet_trans by blast
  then show ?case using c by (auto split: prod.split)
qed simp

lemma quiet_doctor: "quiet o1 (snd (doctor_Run p req o1))"
proof -
  obtain gs o2 where g: "gpuChecks p req o1 = (gs, o2)" by fastforce
  have 2: "quiet o1 o2" using g quiet_step by (auto simp: gpuChecks_def Let_def split: sum.splits list.splits)
  obtain d o3 where d: "diskCheck p req o2 = (d, o3)" by fastforce
  have "quiet o2 o3" using d quiet_step by (auto simp: diskCheck_def Let_def split: sum.splits)
  then have "quiet o1 (snd (network_checks p (Endpoints req) o3))" using 2 quiet_network quiet_trans by blast
  then show ?thesis using g d by (auto simp: doctor_Run_def split: prod.split)
qed

lemma quiet_search: "quiet o1 (snd (search_loop c n qs acc o1))"
proof (induction qs arbitrary: acc o1)
  case (Cons q qs)
  obtain seen cands where acc: "acc = (seen, cands)" by fastforce
  obtain r o2 where s: "Search c (n @ '' '' @ q) 8 o1 = (r, o2)" by fastforce
  have "o2 = step_os o1" using s unfolding Search_def Let_def
    by (auto split: prod.splits sum.splits dest: getJSON_cases)
  then have "quiet o1 o2" using quiet_step by simp
  then have "quiet o1 (snd (search_loop c n qs a o2))" for a using Cons quiet_trans by blast
  with \<open>quiet o1 o2\<close> s show ?case by (auto simp: acc split: sum.split)
next
  case Nil
  show ?case by (cases acc) simp
qed

lemma quiet_model: "quiet o1 (snd (GetModel c i o1))"
  using quiet_step by (simp add: GetModel_step)

lemma quiet_candidate: "quiet o1 (snd (try_candidate c v t cand o1))"
proof -
  obtain r o2 where m: "GetModel c (m_id cand) o1 = (r, o2)" by fastforce
  have 2: "quiet o1 o2" using m quiet_model [of o1 c "m_id cand"] by simp
  then have "quiet o1 (snd (GetConfigAtRevision c (m_id cand) sha o2))" for sha using GetConfig_quiet quiet_trans by blast
  with m 2 show ?thesis by (auto simp: try_candidate_def Let_def split: sum.split prod.split) (metis snd_conv)+
qed

lemma quiet_suggest: "quiet o1 (snd (suggest_loop c v t cs acc o1))"
proof (induction cs arbitrary: acc o1)
  case (Cons cand cs)
  obtain s o2 where t: "try_candidate c v t cand o1 = (s, o2)" by fastforce
  have 2: "quiet o1 o2" using t quiet_candidate [of o1 c v t cand] by simp
  then have "quiet o1 (snd (suggest_loop c v t cs a o2))" for a using Cons quiet_trans by blast
  with 2 t show ?case by (auto split: option.split)
qed simp

lemma quiet_plan: "quiet o1 (snd (snd (runPlan srt p c args o1)))"
proof -
  have v: "quiet o1 (snd (plan_vram p n o1))" for n
    using quiet_step by (auto simp: plan_vram_def Let_def split: sum.split list.split)
  have e: "quiet oa (snd (plan_estimate c m t oa))" for m t oa
  proof -
    obtain r ob where m: "GetModel c m oa = (r, ob)" by fastforce
    have 2: "quiet oa ob" using m quiet_model [of oa c m] by simp
    then have "quiet oa (snd (GetConfigAtRevision c m sha ob))" for sha using GetConfig_quiet quiet_trans by blast
    with m 2 show ?thesis by (auto simp: plan_estimate_def split: sum.split prod.split) (metis snd_conv)+
  qed
  have s: "quiet oa (snd (snd (plan_suggest srt c m v t oa)))" for m v t oa
  proof -
    obtain before after found where cut: "cut_at CHR ''/'' m = (before, after, found)" by (metis prod_cases3)
    obtain r ob where l: "search_loop c (if found then after else m) variantQueries ([to_lower m], []) oa = (r, ob)" by fastforce
    have 2: "quiet oa ob" using l quiet_search [of oa c "if found then after else m" variantQueries "([to_lower m], [])"] by simp
    then have 3: "quiet oa (snd (suggest_loop c v t cs [] ob))" for cs using quiet_suggest quiet_trans by blast
    have "quiet oa (snd (SuggestQuantized srt c m v t oa))"
      using 2 3 cut l by (auto simp: SuggestQuantized_def Let_def split: sum.split prod.split) (metis snd_conv)+
    then show ?thesis by (auto simp: plan_suggest_def Let_def split: prod.split sum.split list.split)
  qed
  show ?thesis
  proof (cases "plan_args [] DefaultContextTokens 0 args")
    case (Inr z)
    obtain m t n where z: "z = (m, t, n)" by (metis prod_cases3)
    obtain r2 o2 where 2: "plan_vram p n o1 = (r2, o2)" by fastforce
    have q2: "quiet o1 o2" using v [of n] 2 by simp
    obtain r3 o3 where 3: "plan_estimate c m t o2 = (r3, o3)" by fastforce
    have q3: "quiet o1 o3" using q2 e [of o2 m t] 3 quiet_trans by (metis snd_conv)
    have q4: "quiet o1 (snd (snd (plan_suggest srt c m k t o3)))" for k using q3 s quiet_trans by blast
    show ?thesis using Inr z 2 3 q2 q3 q4 by (auto simp: runPlan_def Let_def split: sum.split prod.split) (metis snd_conv)+
  qed (simp add: runPlan_def)
qed

text \<open>What a command that only reads leaves as it was.\<close>

definition only_reads :: "world \<Rightarrow> world \<Rightarrow> bool" where
  "only_reads w w' = (quiet (osy w) (osy w') \<and> nodes (fsys w') = nodes (fsys w) \<and> deployments (db w') = deployments (db w))"

lemma Run_only_reads:
  assumes "Run x args w = Some (r, errs, w')" "store_inv (db w)" "args \<noteq> [] \<longrightarrow> hd args \<notin> {''deploy'', ''destroy'', ''status''}"
  shows "only_reads w w'"
proof (cases "\<exists>rest. args = ''logs'' # rest")
  case True
  then obtain rest where "args = ''logs'' # rest" by blast
  then have "runLogs (x_stdout x) rest w = (r, w')" using assms(1) by (auto simp: Run_def quietly_def split: prod.splits)
  from runLogs_effect [OF this assms(2)] show ?thesis by (simp add: only_reads_def)
next
  case False
  have d: "only_reads w (snd (runDoctor (x_probes x) w))"
  proof -
    obtain cs o2 where c: "doctor_Run (x_probes x) (catalog_requirements (DefaultRequirements (modelCacheDir (envr w)))) (osy w) = (cs, o2)" by fastforce
    have "quiet (osy w) o2"
      using c quiet_doctor [of "osy w" "x_probes x" "catalog_requirements (DefaultRequirements (modelCacheDir (envr w)))"] by simp
    then show ?thesis using c by (simp add: runDoctor_def on_os_def Let_def only_reads_def say_def)
  qed
  have p: "only_reads w (snd (plan_command x rest w))" for rest
    using quiet_plan [of "osy w" "x_sort x" "x_probes x" "NewClient (x_hub x) (getenv (envr w) ''HF_TOKEN'')" rest]
    by (auto simp: plan_command_def only_reads_def split: prod.split)
  have "only_reads w w" "only_reads w (say_all ls w)" "only_reads w (say l w)" for ls l
    by (simp_all add: only_reads_def say_def)
  note printed = this
  show ?thesis
  proof (cases args)
    case Nil
    with assms(1) printed(2) show ?thesis by (auto simp: Run_def quietly_def)
  next
    case (Cons c rest)
    consider "c = ''plan''" | "c = ''doctor''" | "c \<notin> {''plan'', ''doctor''}" by blast
    then show ?thesis
    proof cases
      case 1
      with assms(1) Cons have "plan_command x rest w = (r, w')" by (simp add: Run_def quietly_def split: prod.splits)
      with p [of rest] show ?thesis by simp
    next
      case 2
      with assms(1) Cons have "runDoctor (x_probes x) w = (r, w')" by (simp add: Run_def quietly_def split: prod.splits)
      with d show ?thesis by simp
    next
      case 3
      then have "c \<noteq> ''deploy''" "c \<noteq> ''destroy''" "c \<noteq> ''status''" "c \<noteq> ''logs''" "c \<noteq> ''plan''" "c \<noteq> ''doctor''"
        using Cons assms(3) False by auto
      note other = if_not_P [OF this(1)] if_not_P [OF this(2)] if_not_P [OF this(3)] if_not_P [OF this(4)]
        if_not_P [OF this(5)] if_not_P [OF this(6)]
      have "Run x args w = (if c \<in> set [''help'', ''--help'', ''-h''] then quietly (Inr (), say_all usage_lines w)
          else if c \<in> set [''version'', ''--version''] then quietly (Inr (), say (''iold '' @ Version) w)
          else if c = ''models'' then quietly (Inr (), say_all models_lines w)
          else if c = ''add'' then quietly (Inl (Errorf ''%w: add (multi-model colocation) arrives in milestone M6; use deploy''
                  [ArgW (Sentinel ErrNotImplemented)]), w)
          else Some (Inl (Errorf ''%w: unknown command %q'' [ArgW (Sentinel ErrUsage), ArgS c]),
                    (''unknown command: '' @ c) # usage_lines, w))"
        unfolding Cons Run_def list.case other by (rule refl)
      then have "w' = w \<or> w' = say_all usage_lines w \<or> w' = say_all models_lines w \<or> w' = say (''iold '' @ Version) w"
        using assms(1) unfolding quietly_def prod.case by (simp only: option.inject prod.inject split: if_splits) blast+
      with printed show ?thesis by blast
    qed
  qed
qed



end
