(* ===== verification/StateFile.thy ===== *)
theory StateFile imports Logs begin

text \<open>
  The file half of \<open>state.Open\<close> (internal/state/store.go): the directory and the database file are
  created, or taken over, with permissions for the owner only, before the driver opens the file and the
  migrations run (\<open>migrate\<close> in StateStore). Its error is \<open>open_err\<close> of the lifecycle commands.
\<close>

definition prepare_db :: "string \<Rightarrow> filesys \<Rightarrow> unit result \<times> filesys" where
  "prepare_db path s =
     (case MkdirAll (path_dir path) perm_0700 s of
        (Inl e, s1) \<Rightarrow> (Inl (wrapf ''create state dir: %w'' e), s1)
      | (Inr u, s1) \<Rightarrow>
        (case Chmod (path_dir path) perm_0700 s1 of
           (Inl e, s2) \<Rightarrow> (Inl (wrapf ''secure state dir: %w'' e), s2)
         | (Inr u, s2) \<Rightarrow>
           (case OpenFile path perm_0600 s2 of
              (Inl e, s3) \<Rightarrow> (Inl (wrapf ''create state file: %w'' e), s3)
            | (Inr l, s3) \<Rightarrow>
              (case ChmodOpen l perm_0600 s3 of
                 (Inl e, s4) \<Rightarrow> (Inl (wrapf ''secure state file: %w'' e), snd (CloseFile s4))
               | (Inr u, s4) \<Rightarrow> (Inr (), snd (CloseFile s4))))))"

text \<open>
  Opening the file is the same for the database, the operation lock and a log: \<open>open_log\<close> and the
  change of the mode of the open file.
\<close>

definition open_private :: "string \<Rightarrow> filesys \<Rightarrow> unit result \<times> filesys" where
  "open_private path s = (case open_log path s of
     (Inl e, s1) \<Rightarrow> (Inl e, s1) | (Inr l, s1) \<Rightarrow> ChmodOpen l perm_0600 s1)"

lemma prepare_db_nodes:
  "nodes (snd (prepare_db path s)) = nodes (snd (open_private path s)) \<and>
   (fst (prepare_db path s) = Inr () \<longleftrightarrow> fst (open_private path s) = Inr ())"
  by (auto simp: prepare_db_def open_private_def open_log_def split: prod.split sum.split)

lemma prepare_lock_nodes:
  "nodes (snd (prepare_lock path s)) = nodes (snd (open_private path s)) \<and>
   ((\<exists>l. fst (prepare_lock path s) = Inr l) \<longleftrightarrow> fst (open_private path s) = Inr ())"
  by (auto simp: prepare_lock_def open_private_def open_log_def split: prod.split sum.split)

lemma open_private_effect:
  assumes "open_private path s = (r, s')" "linkless s" "clean_abs path" "clean_parts path \<noteq> []"
  shows "(\<forall>x. \<not> prefix x (clean_parts path) \<longrightarrow> nodes s' x = nodes s x) \<and>
    content s' (clean_parts path) = content s (clean_parts path) \<and>
    (r = Inr () \<longrightarrow> nodes s' (clean_parts path) = Some (File (content s (clean_parts path)) perm_0600) \<and>
       (butlast (clean_parts path) \<noteq> [] \<longrightarrow> nodes s' (butlast (clean_parts path)) = Some (Dir perm_0700)))"
proof -
  let ?l = "clean_parts path"
  have long: "butlast ?l \<noteq> ?l" using assms(4) by (cases ?l rule: rev_cases) auto
  obtain a s1 where 1: "open_log path s = (a, s1)" by fastforce
  note f = open_log_effect [OF 1 assms(2,3,4)]
  show ?thesis
  proof (cases a)
    case (Inl e)
    with assms(1) 1 f(1,2) show ?thesis by (auto simp: open_private_def)
  next
    case (Inr l)
    note at = f(3) [OF Inr]
    then have l: "l = ?l" by blast
    have 2: "ChmodOpen ?l perm_0600 s1 = (r, s')" using assms(1) 1 Inr l by (simp add: open_private_def)
    obtain c m where n1: "nodes s1 ?l = Some (File c m)" using at l by blast
    have c: "content s ?l = c" using f(2) n1 by (simp add: content_def)
    obtain m' where m': "nodes s' ?l = Some (File c m')" "r = Inr () \<longrightarrow> m' = perm_0600"
      using ChmodOpen_frame(3) [OF 2 n1] by blast
    have "nodes s' x = nodes s x" if "\<not> prefix x ?l" for x
      using f(1) [OF that] ChmodOpen_frame(1) [OF 2, of x] that by (metis prefix_order.refl)
    moreover have "nodes s' (butlast ?l) = nodes s1 (butlast ?l)" using ChmodOpen_frame(1) [OF 2 long] .
    ultimately show ?thesis using at l c m' by (simp add: content_def)
  qed
qed

text \<open>
  C20. The state and the lock are private: when the database file, or the file of the operation lock, has been
  prepared, only the owner may read or write it and enter its directory, whatever modes they had before; and
  however far the preparation gets, the content of the file is kept and nothing but the file and the
  directories above it is touched.
\<close>

theorem state_files_private:
  assumes "(fst (prepare_db path s) = Inr (), snd (prepare_db path s)) = (ok, s') \<or>
      (\<exists>l. fst (prepare_lock path s) = Inr l, snd (prepare_lock path s)) = (ok, s')"
    "linkless s" "clean_abs path" "clean_parts path \<noteq> []"
  shows "(\<forall>x. \<not> prefix x (clean_parts path) \<longrightarrow> nodes s' x = nodes s x) \<and>
    content s' (clean_parts path) = content s (clean_parts path) \<and>
    (ok \<longrightarrow> nodes s' (clean_parts path) = Some (File (content s (clean_parts path)) perm_0600) \<and>
       (butlast (clean_parts path) \<noteq> [] \<longrightarrow> nodes s' (butlast (clean_parts path)) = Some (Dir perm_0700)))"
proof -
  obtain r t where p: "open_private path s = (r, t)" by fastforce
  have "nodes s' = nodes t" "ok \<longrightarrow> r = Inr ()"
    using assms(1) p prepare_db_nodes [of path s] prepare_lock_nodes [of path s] by auto
  with open_private_effect [OF p assms(2,3,4)] show ?thesis by (simp add: content_def)
qed

theorem state_files_private_witness:
  "\<exists>s'. snd (prepare_db ''/h/.iold/state.db'' demo_fs) = s' \<and>
     nodes s' [''h'', ''.iold'', ''state.db''] = Some (File [] perm_0600)"
proof -
  have "fst (prepare_db ''/h/.iold/state.db'' demo_fs) = Inr ()" by code_simp
  moreover have "clean_abs ''/h/.iold/state.db''" "clean_parts ''/h/.iold/state.db'' = [''h'', ''.iold'', ''state.db'']"
    "nodes demo_fs [''h'', ''.iold'', ''state.db''] = None" by code_simp+
  ultimately show ?thesis
    using state_files_private [of "''/h/.iold/state.db''" demo_fs True "snd (prepare_db ''/h/.iold/state.db'' demo_fs)"]
      demo_fs_linkless by (simp add: content_def)
qed

end
