(* ===== verification/PsIdentity.thy ===== *)
theory PsIdentity imports Supervisor begin

text \<open>
  Process identity on the systems without /proc (internal/supervisor/identity_darwin.go and
  identity_other.go, the build-tagged alternatives of identity_linux.go): the start time and the state come
  from \<open>ps\<close>. \<open>ps n args\<close> is what the program printed at call \<open>n\<close>, and
  \<open>parse\<close> is \<open>time.ParseInLocation\<close> with the layout of \<open>lstart\<close> in the zone of the host.
\<close>

type_synonym ps_program = "nat \<Rightarrow> string list \<Rightarrow> string result"

definition run_ps :: "ps_program \<Rightarrow> string list \<Rightarrow> os \<Rightarrow> string result \<times> os" where
  "run_ps ps args o1 = (ps (tick o1) args, step_os o1)"

definition unix_seconds :: "gotime \<Rightarrow> int" where
  "unix_seconds t = t div 10 ^ 9"

definition darwin_processStartInfo ::
  "ps_program \<Rightarrow> (string \<Rightarrow> gotime result) \<Rightarrow> int \<Rightarrow> os \<Rightarrow> (gotime \<times> string) result \<times> os" where
  "darwin_processStartInfo ps parse pid o1 =
     (case run_ps ps [''-p'', itoa pid, ''-o'', ''lstart=''] o1 of
        (Inl e, o2) \<Rightarrow> (Inl (Errorf ''read start time of pid %d: %w'' [ArgD pid, ArgW e]), o2)
      | (Inr text, o2) \<Rightarrow>
        (case parse (trim_space text) of
           Inl e \<Rightarrow> (Inl (Errorf ''parse start time of pid %d: %w'' [ArgD pid, ArgW e]), o2)
         | Inr t \<Rightarrow> (Inr (t, ''darwin:'' @ itoa (unix_seconds t)), o2)))"

definition other_processStartInfo ::
  "ps_program \<Rightarrow> (string \<Rightarrow> gotime result) \<Rightarrow> int \<Rightarrow> os \<Rightarrow> (gotime \<times> string) result \<times> os" where
  "other_processStartInfo ps parse pid o1 =
     (case run_ps ps [''-p'', itoa pid, ''-o'', ''lstart=''] o1 of
        (Inl e, o2) \<Rightarrow> (Inl (Errorf ''read start time of pid %d: %w'' [ArgD pid, ArgW e]), o2)
      | (Inr text, o2) \<Rightarrow>
        (case parse (trim_space text) of
           Inl e \<Rightarrow> (Inl e, o2)
         | Inr t \<Rightarrow> (Inr (t, ''unix:'' @ itoa (unix_seconds t)), o2)))"

text \<open>The same text in both files.\<close>

definition ps_exited :: "ps_program \<Rightarrow> int \<Rightarrow> os \<Rightarrow> bool \<times> os" where
  "ps_exited ps pid o1 =
     (case run_ps ps [''-o'', ''state='', ''-p'', itoa pid] o1 of
        (Inl e, o2) \<Rightarrow> (True, o2)
      | (Inr text, o2) \<Rightarrow> (let state = trim_space text in (state = [] \<or> has_prefix state ''Z'', o2)))"

definition darwin_exited :: "ps_program \<Rightarrow> int \<Rightarrow> os \<Rightarrow> bool \<times> os" where
  "darwin_exited = ps_exited"

definition other_exited :: "ps_program \<Rightarrow> int \<Rightarrow> os \<Rightarrow> bool \<times> os" where
  "other_exited = ps_exited"

section \<open>What an identity tells\<close>

lemma quiet_ps [os_frames]:
  "quiet o1 (snd (darwin_processStartInfo ps parse pid o1))" "quiet o1 (snd (other_processStartInfo ps parse pid o1))"
  "quiet o1 (snd (ps_exited ps pid o1))"
  using quiet_step by (simp_all add: darwin_processStartInfo_def other_processStartInfo_def ps_exited_def run_ps_def Let_def split: sum.split)

lemma seconds_close: "unix_seconds a = unix_seconds b \<Longrightarrow> \<bar>a - b\<bar> < 10 ^ 9"
proof -
  assume "unix_seconds a = unix_seconds b"
  then have "a = 10 ^ 9 * unix_seconds b + a mod 10 ^ 9" unfolding unix_seconds_def by (metis mult_div_mod_eq)
  moreover have "b = 10 ^ 9 * unix_seconds b + b mod 10 ^ 9" unfolding unix_seconds_def by (metis mult_div_mod_eq)
  moreover have "0 \<le> a mod 10 ^ 9" "a mod 10 ^ 9 < 10 ^ 9" "0 \<le> b mod 10 ^ 9" "b mod 10 ^ 9 < 10 ^ 9" by simp_all
  ultimately show ?thesis by linarith
qed

lemma itoa_inject: "itoa a = itoa b \<longleftrightarrow> a = b"
proof
  assume e: "itoa a = itoa b"
  have no_sign: "show_nat n \<noteq> CHR ''-'' # x" for n x using show_nat_digits [of n] not_digit_sign by auto
  have "show_nat (nat \<bar>a\<bar>) = show_nat (nat \<bar>b\<bar>) \<and> (a < 0 \<longleftrightarrow> b < 0)"
    using e no_sign no_sign [symmetric] by (auto simp: itoa_def split: if_splits)
  then have "\<bar>a\<bar> = \<bar>b\<bar> \<and> (a < 0 \<longleftrightarrow> b < 0)" by (metis abs_ge_zero digits_value_show_nat int_nat_eq)
  then show "a = b" by linarith
qed simp

text \<open>
  The identity of a process on these systems is its start second: on each of them, two readings give the same
  token exactly when the start times they report lie in the same second, so less than a second apart; a token
  of one system is never the token of another; and reading an identity signals no process.
\<close>

theorem ps_identity_exact:
  assumes "info \<in> {darwin_processStartInfo, other_processStartInfo}"
    "info ps parse pid o1 = (Inr (t, token), o2)" "info ps' parse' pid' o1' = (Inr (t', token'), o2')"
  shows "(token = token' \<longleftrightarrow> unix_seconds t = unix_seconds t') \<and> (token = token' \<longrightarrow> \<bar>t - t'\<bar> < 10 ^ 9) \<and>
    signals o2 = signals o1 \<and> (\<forall>x. token \<noteq> ''linux:'' @ x)"
proof -
  have q: "signals o2 = signals o1"
    using assms(1,2) quiet_ps(1,2) [of o1 ps parse pid] by (auto simp: quiet_def)
  have tok: "token = token' \<longleftrightarrow> unix_seconds t = unix_seconds t'" and l: "\<forall>x. token \<noteq> ''linux:'' @ x"
    using assms by (auto simp: darwin_processStartInfo_def other_processStartInfo_def run_ps_def itoa_inject split: sum.splits)
  show ?thesis using tok l q seconds_close [of t t'] by simp
qed

end
