(* ===== verification/Retry.thy ===== *)
theory Retry imports Numbers begin

text \<open>
  internal/retry/retry.go. An operation runs in a world with a clock; \<open>r_trace\<close> records each
  attempt: when it started, the context it was given, what it answered, when it ended. The context is
  done from an instant on, with an error; \<open>r_late\<close> is how late a timer set at an instant fires and
  \<open>r_tie\<close> what \<open>select\<close> picks when timer and context are ready at the same instant.
  \<open>rand n\<close> is the random number of draw \<open>n\<close>.
\<close>

record policy =
  MaxAttempts :: int
  BaseDelay :: duration
  MaxDelay :: duration
  Multiplier :: rat
  JitterFraction :: rat
  AttemptTimeout :: duration

record goctx =
  done_at :: "(gotime \<times> goerr) option"

record attempt_log =
  a_start :: gotime
  a_ctx :: goctx
  a_result :: "goerr option"
  a_end :: gotime

record 'a retry_world =
  r_now :: gotime
  r_draws :: nat
  r_trace :: "attempt_log list"
  r_late :: "gotime \<Rightarrow> nat"
  r_tie :: "gotime \<Rightarrow> bool"
  r_user :: 'a

definition permanent_error :: "goerr option \<Rightarrow> goerr option" where
  "permanent_error err = map_option Permanent err"

definition IsPermanent :: "goerr \<Rightarrow> bool" where
  "IsPermanent e = errors_as_permanent e"

definition DefaultPolicy :: policy where
  "DefaultPolicy = \<lparr>MaxAttempts = 5, BaseDelay = 500 * 10 ^ 6, MaxDelay = 30 * 10 ^ 9, Multiplier = 2,
     JitterFraction = rnd (2 / 10), AttemptTimeout = 30 * 10 ^ 9\<rparr>"

section \<open>Backoff\<close>

text \<open>\<open>math.Pow\<close> with a natural exponent: repeated squaring.\<close>

function pow_loop :: "nat \<Rightarrow> rat \<Rightarrow> rat \<Rightarrow> rat" where
  "pow_loop n x a =
     (if n = 0 then a
      else pow_loop (n div 2) (rnd (x * x)) (if odd n then rnd (a * x) else a))"
  by pat_completeness auto
termination by (relation "measure fst") auto

declare pow_loop.simps [simp del]

definition Pow :: "rat \<Rightarrow> nat \<Rightarrow> rat" where
  "Pow x n = pow_loop n x 1"

definition Delay :: "policy \<Rightarrow> int \<Rightarrow> duration" where
  "Delay p attempt =
     (if attempt < 1 \<or> BaseDelay p \<le> 0 then 0
      else let multiplier = (if Multiplier p \<le> 1 then 2 else Multiplier p);
               delay = rnd (rnd (of_int (BaseDelay p)) * Pow multiplier (nat (attempt - 1)));
               capped = (if MaxDelay p > 0 \<and> delay > rnd (of_int (MaxDelay p))
                         then rnd (of_int (MaxDelay p)) else delay)
           in to_int64 capped)"

definition jittered :: "(nat \<Rightarrow> rat) \<Rightarrow> policy \<Rightarrow> int \<Rightarrow> 'a retry_world \<Rightarrow> duration \<times> 'a retry_world" where
  "jittered rand p attempt w =
     (let delay = Delay p attempt
      in if delay = 0 \<or> JitterFraction p \<le> 0 then (delay, w)
         else let factor = rnd (1 + rnd (JitterFraction p * rnd (rnd (2 * rand (r_draws w)) - 1)))
              in (to_int64 (rnd (rnd (of_int delay) * factor)), w\<lparr>r_draws := r_draws w + 1\<rparr>))"

section \<open>Contexts\<close>

definition ctx_err :: "goctx \<Rightarrow> gotime \<Rightarrow> goerr option" where
  "ctx_err c t = (case done_at c of None \<Rightarrow> None | Some (d, e) \<Rightarrow> if d \<le> t then Some e else None)"

definition WithTimeout :: "goctx \<Rightarrow> duration \<Rightarrow> gotime \<Rightarrow> goctx" where
  "WithTimeout c d t =
     (case done_at c of
        Some (x, e) \<Rightarrow> if x \<le> t + d then c else c\<lparr>done_at := Some (t + d, Sentinel DeadlineExceeded)\<rparr>
      | None \<Rightarrow> c\<lparr>done_at := Some (t + d, Sentinel DeadlineExceeded)\<rparr>)"

definition retry_sleep :: "goctx \<Rightarrow> duration \<Rightarrow> 'a retry_world \<Rightarrow> goerr option \<times> 'a retry_world" where
  "retry_sleep c d w =
     (if d \<le> 0 then (None, w)
      else let fires = r_now w + d + int (r_late w (r_now w))
           in case done_at c of
                None \<Rightarrow> (None, w\<lparr>r_now := fires\<rparr>)
              | Some (x, e) \<Rightarrow>
                  if x < fires \<or> x = fires \<and> r_tie w fires then (Some e, w\<lparr>r_now := max (r_now w) x\<rparr>)
                  else (None, w\<lparr>r_now := fires\<rparr>))"

section \<open>Attempts\<close>

type_synonym 'a retry_op = "goctx \<Rightarrow> gotime \<Rightarrow> 'a \<Rightarrow> goerr option \<times> nat \<times> 'a"

text \<open>The operation answers, after some time, from its context, the clock and its own state.\<close>

definition runAttempt :: "goctx \<Rightarrow> policy \<Rightarrow> 'a retry_op \<Rightarrow> 'a retry_world \<Rightarrow> goerr option \<times> 'a retry_world" where
  "runAttempt c p op w =
     (let c1 = (if AttemptTimeout p \<le> 0 then c else WithTimeout c (AttemptTimeout p) (r_now w))
      in case op c1 (r_now w) (r_user w) of (r, took, u) \<Rightarrow>
           (r, w\<lparr>r_now := r_now w + int took, r_user := u,
                 r_trace := r_trace w @ [\<lparr>a_start = r_now w, a_ctx = c1, a_result = r, a_end = r_now w + int took\<rparr>]\<rparr>))"

definition joinCancel :: "goerr \<Rightarrow> goerr option \<Rightarrow> goerr" where
  "joinCancel cancelErr lastErr = (case lastErr of
     None \<Rightarrow> cancelErr
   | Some e \<Rightarrow> Errorf ''%w (last attempt error: %v)'' [ArgW cancelErr, ArgV e])"

function do_loop :: "(nat \<Rightarrow> rat) \<Rightarrow> goctx \<Rightarrow> policy \<Rightarrow> 'a retry_op \<Rightarrow> int \<Rightarrow> int \<Rightarrow> goerr option \<Rightarrow>
    'a retry_world \<Rightarrow> goerr option \<times> 'a retry_world" where
  "do_loop rand c p op attempts attempt lastErr w =
     (if attempt \<le> attempts
      then case ctx_err c (r_now w) of
             Some e \<Rightarrow> (Some (joinCancel e lastErr), w)
           | None \<Rightarrow>
             (case runAttempt c p op w of
                (None, w1) \<Rightarrow> (None, w1)
              | (Some e, w1) \<Rightarrow>
                (if IsPermanent e then (Some e, w1)
                 else if attempt = attempts then (Some (Errorf ''after %d attempts: %w'' [ArgD attempts, ArgW e]), w1)
                 else case jittered rand p attempt w1 of (d, w2) \<Rightarrow>
                   (case retry_sleep c d w2 of
                      (Some ce, w3) \<Rightarrow> (Some (joinCancel ce (Some e)), w3)
                    | (None, w3) \<Rightarrow> do_loop rand c p op attempts (attempt + 1) (Some e) w3)))
      else (case lastErr of
              None \<Rightarrow> (Some (Errorf ''after %d attempts: %w'' [ArgD attempts, ArgS ''%!w(<nil>)'']), w)
            | Some e \<Rightarrow> (Some (Errorf ''after %d attempts: %w'' [ArgD attempts, ArgW e]), w)))"
  by pat_completeness auto
termination
  by (relation "measure (\<lambda>(rand, c, p, op, attempts, attempt, lastErr, w). nat (attempts + 1 - attempt))") auto

declare do_loop.simps [simp del]

definition Do :: "(nat \<Rightarrow> rat) \<Rightarrow> goctx \<Rightarrow> policy \<Rightarrow> 'a retry_op \<Rightarrow> 'a retry_world \<Rightarrow> goerr option \<times> 'a retry_world" where
  "Do rand c p op w =
     (let attempts = (if MaxAttempts p \<le> 0 then 1 else MaxAttempts p)
      in do_loop rand c p op attempts 1 None w)"

section \<open>Delays\<close>

lemma pow_loop_two: "pow_loop n (2 powi i) (2 powi j) = 2 powi (j + i * int n)"
proof (induction n "2 powi i :: rat" "2 powi j :: rat" arbitrary: i j rule: pow_loop.induct)
  case (1 n)
  have two: "rnd (2 powi a) = 2 powi a" for a using rnd_small [of 1 a] by simp
  have sq: "rnd (2 powi i * 2 powi i) = 2 powi (2 * i)" by (simp add: two flip: pow2_add)
  have ml: "rnd (2 powi j * 2 powi i) = 2 powi (j + i)" by (simp add: two flip: pow2_add)
  show ?case
  proof (cases "n = 0")
    case True
    then show ?thesis by (simp add: pow_loop.simps)
  next
    case False
    have step: "pow_loop n (2 powi i) (2 powi j) = pow_loop (n div 2) (2 powi (2 * i)) (2 powi (if odd n then j + i else j))"
      using False by (subst pow_loop.simps) (simp add: sq ml)
    also have "\<dots> = 2 powi ((if odd n then j + i else j) + 2 * i * int (n div 2))"
      using "1.hyps" [OF False, of "2 * i" "if odd n then j + i else j"] sq ml by simp
    also have "(if odd n then j + i else j) + 2 * i * int (n div 2) = j + i * int n"
    proof -
      have n: "int n = 2 * int (n div 2) + int (n mod 2)" by presburger
      show ?thesis by (subst n) (simp add: algebra_simps odd_iff_mod_2_eq_one)
    qed
    finally show ?thesis .
  qed
qed

lemma Pow_two: "Pow 2 n = 2 ^ n"
  using pow_loop_two [of n 1 0] by (simp add: Pow_def)

lemma pow_loop_ge_1: "1 \<le> x \<Longrightarrow> 1 \<le> a \<Longrightarrow> 1 \<le> pow_loop n x a"
proof (induction n x a rule: pow_loop.induct)
  case (1 n x a)
  have "1 \<le> x * x" "1 \<le> a * x" using "1.prems" mult_mono [of 1 x 1 x] mult_mono [of 1 a 1 x] by simp_all
  then have "1 \<le> rnd (x * x)" "1 \<le> rnd (a * x)" using f64.int_le_fl [of 1] by simp_all
  then have "n \<noteq> 0 \<Longrightarrow> 1 \<le> pow_loop (n div 2) (rnd (x * x)) (if odd n then rnd (a * x) else a)"
    using 1 by simp
  then show ?case using 1 by (subst pow_loop.simps) simp
qed

lemma to_int64_between:
  assumes "of_int a \<le> q" "q \<le> of_int b" "0 \<le> a" "b < 2 ^ 63"
  shows "a \<le> to_int64 q \<and> to_int64 q \<le> b"
proof -
  have "0 \<le> q" using assms(1,3) by (metis of_int_0_le_iff order_trans)
  moreover have "q < 2 ^ 63"
  proof -
    have "(of_int b :: rat) < of_int (2 ^ 63)" using assms(4) by (simp only: of_int_less_iff)
    with assms(2) show ?thesis by simp
  qed
  ultimately have "to_int64 q = floor q" by (rule to_int64_nonneg)
  moreover have "a \<le> floor q" using assms(1) by (simp add: le_floor_iff)
  moreover have "floor q \<le> b" using floor_mono [OF assms(2)] by simp
  ultimately show ?thesis by simp
qed

lemma Delay_bounds:
  assumes "0 < MaxDelay p" "MaxDelay p \<le> 2 ^ 53"
  shows "0 \<le> Delay p n \<and> Delay p n \<le> MaxDelay p"
proof (cases "n < 1 \<or> BaseDelay p \<le> 0")
  case True
  with assms show ?thesis by (auto simp: Delay_def)
next
  case False
  let ?m = "if Multiplier p \<le> 1 then 2 else Multiplier p"
  let ?d = "rnd (rnd (of_int (BaseDelay p)) * Pow ?m (nat (n - 1)))"
  have max: "rnd (of_int (MaxDelay p)) = of_int (MaxDelay p)" using assms by (intro f64.fl_int) simp
  have "1 \<le> Pow ?m (nat (n - 1))" by (auto simp: Pow_def intro: pow_loop_ge_1)
  moreover have "0 \<le> rnd (of_int (BaseDelay p))" using False by (intro f64.fl_nonneg) simp
  ultimately have "0 \<le> ?d" by (intro f64.fl_nonneg) simp
  with assms max have "0 \<le> to_int64 (if 0 < MaxDelay p \<and> rnd (of_int (MaxDelay p)) < ?d then rnd (of_int (MaxDelay p)) else ?d)
      \<and> to_int64 (if 0 < MaxDelay p \<and> rnd (of_int (MaxDelay p)) < ?d then rnd (of_int (MaxDelay p)) else ?d) \<le> MaxDelay p"
    by (intro to_int64_between) auto
  with False show ?thesis by (simp add: Delay_def Let_def)
qed

lemma Delay_doubles:
  assumes "0 < MaxDelay p" "MaxDelay p \<le> 2 ^ 53" "0 < BaseDelay p" "BaseDelay p < 2 ^ 53"
    and "Multiplier p \<le> 1 \<or> Multiplier p = 2" "1 \<le> n"
  shows "Delay p n = min (MaxDelay p) (BaseDelay p * 2 ^ nat (n - 1))"
proof -
  let ?d = "BaseDelay p * 2 ^ nat (n - 1)"
  have max: "rnd (of_int (MaxDelay p)) = of_int (MaxDelay p)" using assms by (intro f64.fl_int) simp
  have base: "rnd (of_int (BaseDelay p)) = of_int (BaseDelay p)" using assms by (intro f64.fl_int) simp
  have m: "(if Multiplier p \<le> 1 then 2 else Multiplier p) = 2" using assms(5) by auto
  have "rnd (of_int (BaseDelay p) * 2 ^ k) = of_int (BaseDelay p) * 2 ^ k" for k
    using rnd_small [of "BaseDelay p" "int k"] assms(3,4) by simp
  then have d: "rnd (of_int (BaseDelay p) * 2 ^ nat (n - 1)) = of_int ?d" by simp
  have int: "to_int64 (of_int x) = x" if "0 \<le> x" "x \<le> 2 ^ 53" for x
    using to_int64_between [of x "of_int x" x] that by simp
  show ?thesis
  proof (cases "?d \<le> MaxDelay p")
    case True
    then have "\<not> (of_int ?d :: rat) > of_int (MaxDelay p)" by (simp only: of_int_less_iff not_less)
    moreover have "to_int64 (of_int ?d) = ?d" using True assms by (intro int) simp_all
    ultimately show ?thesis using assms True m Pow_two base max d by (simp add: Delay_def Let_def min_def)
  next
    case False
    then have "(of_int ?d :: rat) > of_int (MaxDelay p)" by (simp only: of_int_less_iff not_le)
    moreover have "to_int64 (of_int (MaxDelay p)) = MaxDelay p" using assms by (intro int) simp_all
    ultimately show ?thesis using assms False m Pow_two base max d by (simp add: Delay_def Let_def min_def)
  qed
qed

section \<open>The attempts of one call\<close>

definition retryable :: "attempt_log \<Rightarrow> bool" where
  "retryable a = (\<exists>e. a_result a = Some e \<and> \<not> IsPermanent e)"

text \<open>Each attempt starts before the context is done, with a context bounded by the attempt timeout.\<close>

definition bounded_attempt :: "goctx \<Rightarrow> policy \<Rightarrow> attempt_log \<Rightarrow> bool" where
  "bounded_attempt c p a = (ctx_err c (a_start a) = None \<and>
     a_ctx a = (if AttemptTimeout p \<le> 0 then c else WithTimeout c (AttemptTimeout p) (a_start a)))"

text \<open>Attempt \<open>n + i\<close> ends before the next one starts, without jitter the backoff before it.\<close>

fun spaced :: "policy \<Rightarrow> int \<Rightarrow> attempt_log list \<Rightarrow> bool" where
  "spaced p n (a # b # as) =
     (a_end a \<le> a_start b \<and> (JitterFraction p \<le> 0 \<longrightarrow> a_end a + Delay p n \<le> a_start b) \<and> spaced p (n + 1) (b # as))"
| "spaced p n as = True"

text \<open>How a call that made the attempts \<open>tr\<close> of \<open>left\<close> allowed ones ends with an error.\<close>

definition error_end :: "goctx \<Rightarrow> int \<Rightarrow> int \<Rightarrow> goerr option \<Rightarrow> attempt_log list \<Rightarrow> gotime \<Rightarrow> goerr \<Rightarrow> bool" where
  "error_end c attempts left lastErr tr t e =
     (tr \<noteq> [] \<and> a_result (last tr) = Some e \<and> IsPermanent e \<or>
      (\<exists>x. int (length tr) = left \<and> tr \<noteq> [] \<and> retryable (last tr) \<and> a_result (last tr) = Some x \<and>
         e = Errorf ''after %d attempts: %w'' [ArgD attempts, ArgW x]) \<or>
      (\<exists>ce. ctx_err c t = Some ce \<and> list_all retryable tr \<and>
         e = joinCancel ce (if tr = [] then lastErr else a_result (last tr))))"

definition run_of :: "goctx \<Rightarrow> policy \<Rightarrow> int \<Rightarrow> int \<Rightarrow> goerr option \<Rightarrow> goerr option \<Rightarrow> 'a retry_world \<Rightarrow>
    'a retry_world \<Rightarrow> attempt_log list \<Rightarrow> bool" where
  "run_of c p attempts attempt lastErr r w w' tr =
     (r_trace w' = r_trace w @ tr \<and> int (length tr) \<le> attempts + 1 - attempt \<and>
      list_all retryable (butlast tr) \<and> list_all (bounded_attempt c p) tr \<and> spaced p attempt tr \<and>
      (tr \<noteq> [] \<longrightarrow> r_now w \<le> a_start (hd tr)) \<and>
      (r = None \<longleftrightarrow> tr \<noteq> [] \<and> a_result (last tr) = None) \<and>
      (\<forall>e. r = Some e \<longrightarrow> error_end c attempts (attempts + 1 - attempt) lastErr tr (r_now w') e))"

lemma runAttempt_result:
  assumes "runAttempt c p op w = (r, w1)"
  obtains a where "r_trace w1 = r_trace w @ [a]" "a_start a = r_now w" "a_end a = r_now w1" "a_result a = r"
    "a_ctx a = (if AttemptTimeout p \<le> 0 then c else WithTimeout c (AttemptTimeout p) (r_now w))"
proof -
  let ?c = "if AttemptTimeout p \<le> 0 then c else WithTimeout c (AttemptTimeout p) (r_now w)"
  obtain r1 took u where o: "op ?c (r_now w) (r_user w) = (r1, took, u)" by (cases "op ?c (r_now w) (r_user w)") auto
  with assms show thesis
    by (intro that [of "\<lparr>a_start = r_now w, a_ctx = ?c, a_result = r, a_end = r_now w + int took\<rparr>"])
      (auto simp: runAttempt_def Let_def)
qed

lemma jittered_state:
  "jittered rand p n w = (d, w1) \<Longrightarrow> r_trace w1 = r_trace w \<and> r_now w1 = r_now w \<and> (JitterFraction p \<le> 0 \<longrightarrow> d = Delay p n)"
  by (auto simp: jittered_def Let_def split: if_splits)

lemma sleep_result:
  assumes "retry_sleep c d w = (e, w1)" "ctx_err c (r_now w) = None \<or> d > 0"
  shows "r_trace w1 = r_trace w \<and> r_now w \<le> r_now w1 \<and> (e = None \<longrightarrow> r_now w + d \<le> r_now w1) \<and>
    (\<forall>ce. e = Some ce \<longrightarrow> ctx_err c (r_now w1) = Some ce)"
  using assms by (auto simp: retry_sleep_def ctx_err_def Let_def split: option.splits if_splits)

lemma do_loop_run:
  assumes "do_loop rand c p op attempts attempt lastErr w = (r, w')" "attempt \<le> attempts"
  shows "\<exists>tr. run_of c p attempts attempt lastErr r w w' tr"
  using assms
proof (induction rand c p op attempts attempt lastErr w rule: do_loop.induct)
  case (1 rand c p op attempts attempt lastErr w)
  note step = "1.prems"(1) [unfolded do_loop.simps [of rand c p op attempts attempt]]
  show ?case
  proof (cases "ctx_err c (r_now w)")
    case (Some e)
    with step "1.prems"(2) have "r = Some (joinCancel e lastErr)" "w' = w" by simp_all
    with Some "1.prems"(2) show ?thesis
      by (intro exI [of _ "[]"]) (simp add: run_of_def error_end_def)
  next
    case None
    obtain x w1 where R: "runAttempt c p op w = (x, w1)" by fastforce
    from runAttempt_result [OF R] obtain a where
      a: "r_trace w1 = r_trace w @ [a]" "a_start a = r_now w" "a_end a = r_now w1" "a_result a = x" and
      actx: "a_ctx a = (if AttemptTimeout p \<le> 0 then c else WithTimeout c (AttemptTimeout p) (r_now w))" by metis
    have ba: "bounded_attempt c p a" using None a(2) actx by (simp add: bounded_attempt_def)
    consider (ok) "x = None" | (perm) e where "x = Some e" "IsPermanent e"
      | (last) e where "x = Some e" "\<not> IsPermanent e" "attempt = attempts"
      | (again) e where "x = Some e" "\<not> IsPermanent e" "attempt < attempts" using "1.prems"(2) by force
    then show ?thesis
    proof cases
      case ok
      with step "1.prems"(2) None R have "r = None" "w' = w1" by simp_all
      with ok a ba "1.prems"(2) show ?thesis by (intro exI [of _ "[a]"]) (simp add: run_of_def)
    next
      case perm
      with step "1.prems"(2) None R have "r = Some e" "w' = w1" by simp_all
      with perm a ba "1.prems"(2) show ?thesis by (intro exI [of _ "[a]"]) (simp add: run_of_def error_end_def)
    next
      case last
      with step None R have "r = Some (Errorf ''after %d attempts: %w'' [ArgD attempts, ArgW e])" "w' = w1" by simp_all
      with last a ba show ?thesis
        by (intro exI [of _ "[a]"]) (simp add: run_of_def error_end_def retryable_def)
    next
      case again
      obtain d w2 where J: "jittered rand p attempt w1 = (d, w2)" by fastforce
      note j = jittered_state [OF J]
      obtain y w3 where S: "retry_sleep c d w2 = (y, w3)" by fastforce
      have ra: "retryable a" using a(4) again by (simp add: retryable_def)
      show ?thesis
      proof (cases y)
        case (Some ce)
        then have "d > 0" using S by (auto simp: retry_sleep_def split: if_splits)
        note s = sleep_result [OF S disjI2 [OF this]]
        from step None R again J S Some have "r = Some (joinCancel ce (Some e))" "w' = w3" by simp_all
        with s j Some a ba ra again show ?thesis
          by (intro exI [of _ "[a]"]) (simp add: run_of_def error_end_def)
      next
        case goes: None
        have s: "r_trace w3 = r_trace w2" "r_now w2 \<le> r_now w3" "r_now w2 + d \<le> r_now w3"
          using S goes by (auto simp: retry_sleep_def Let_def split: option.splits if_splits)
        have go: "do_loop rand c p op attempts (attempt + 1) (Some e) w3 = (r, w')"
          using step None R again J S goes by simp
        obtain tr where tr: "run_of c p attempts (attempt + 1) (Some e) r w3 w' tr"
          using "1.IH" [OF "1.prems"(2) None R [symmetric] again(1,2) _ J [symmetric] S [symmetric] goes go]
            again(3) by auto
        have w3: "r_trace w3 = r_trace w @ [a]" "a_end a \<le> r_now w3" "JitterFraction p \<le> 0 \<longrightarrow> a_end a + Delay p attempt \<le> r_now w3"
          using a s j by auto
        have ae: "a_result a = Some e" using a(4) again(1) by simp
        show ?thesis
        proof (intro exI [of _ "a # tr"])
          show "run_of c p attempts attempt lastErr r w w' (a # tr)"
          proof (cases tr)
            case Nil
            with tr w3 a(1-3) ae ba ra show ?thesis
              by (auto simp: run_of_def error_end_def)
          next
            case (Cons b bs)
            with tr w3 a(1-3) ae ba ra show ?thesis
              by (auto simp: run_of_def error_end_def)
          qed
        qed
      qed
    qed
  qed
qed

lemma jittered_bounds:
  assumes "0 < MaxDelay p" "MaxDelay p \<le> 2 ^ 52" "JitterFraction p \<le> 1" "0 \<le> rand (r_draws w)" "rand (r_draws w) \<le> 1"
  shows "0 \<le> fst (jittered rand p n w) \<and> fst (jittered rand p n w) \<le> 2 * MaxDelay p"
proof -
  have d: "0 \<le> Delay p n" "Delay p n \<le> MaxDelay p" using Delay_bounds [of p n] assms by simp_all
  show ?thesis
  proof (cases "Delay p n = 0 \<or> JitterFraction p \<le> 0")
    case True
    with d assms show ?thesis by (auto simp: jittered_def Let_def)
  next
    case False
    define r x f where "r = rand (r_draws w)" and "x = rnd (rnd (2 * r) - 1)" and "f = rnd (1 + rnd (JitterFraction p * x))"
    have "0 \<le> rnd (2 * r)" "rnd (2 * r) \<le> 2" using f64.fl_nonneg [of "2 * r"] f64.fl_le_int [of "2 * r" 2] assms r_def by simp_all
    then have x: "-1 \<le> x" "x \<le> 1"
      using f64.int_le_fl [of "-1" "rnd (2 * r) - 1"] f64.fl_le_int [of "rnd (2 * r) - 1" 1] by (simp_all add: x_def)
    have "\<bar>JitterFraction p * x\<bar> \<le> 1" using False assms x by (simp add: abs_mult mult_le_one abs_le_iff)
    then have "-1 \<le> JitterFraction p * x" "JitterFraction p * x \<le> 1" by (simp_all add: abs_le_iff)
    then have "-1 \<le> rnd (JitterFraction p * x)" "rnd (JitterFraction p * x) \<le> 1"
      using f64.int_le_fl [of "-1" "JitterFraction p * x"] f64.fl_le_int [of "JitterFraction p * x" 1] by simp_all
    then have f: "0 \<le> f" "f \<le> 2"
      using f64.fl_nonneg [of "1 + rnd (JitterFraction p * x)"] f64.fl_le_int [of "1 + rnd (JitterFraction p * x)" 2]
      by (simp_all add: f_def)
    have D: "rnd (of_int (Delay p n)) = of_int (Delay p n)" using d assms by (intro f64.fl_int) simp
    have "of_int (Delay p n) * f \<le> of_int (MaxDelay p) * 2" using d f by (intro mult_mono) simp_all
    then have "rnd (of_int (Delay p n) * f) \<le> of_int (2 * MaxDelay p)"
      using assms by (intro f64.fl_le_int) simp_all
    moreover have "0 \<le> rnd (of_int (Delay p n) * f)" using d f by (intro f64.fl_nonneg) simp
    ultimately have "0 \<le> to_int64 (rnd (of_int (Delay p n) * f)) \<and> to_int64 (rnd (of_int (Delay p n) * f)) \<le> 2 * MaxDelay p"
      using assms by (intro to_int64_between) simp_all
    with False D show ?thesis by (simp add: jittered_def Let_def f_def x_def r_def)
  qed
qed

section \<open>Properties of Do\<close>

text \<open>
  C22. \<open>retry.Do\<close> always returns, and what it did is bounded: it makes at most
  \<open>max 1 MaxAttempts\<close> attempts, none after the context is done, each with the attempt timeout and,
  without jitter, the backoff after the one before; only the last attempt can succeed or fail permanently.
  It returns nil exactly when the last attempt succeeded; otherwise the permanent error as it is, or the
  last error after all attempts, or the context's error.
\<close>

theorem retry_attempts_bounded:
  "\<exists>tr. run_of c p (max 1 (MaxAttempts p)) 1 None (fst (Do rand c p op w)) w (snd (Do rand c p op w)) tr"
proof -
  have "(if MaxAttempts p \<le> 0 then 1 else MaxAttempts p) = max 1 (MaxAttempts p)" by simp
  then have "do_loop rand c p op (max 1 (MaxAttempts p)) 1 None w = (fst (Do rand c p op w), snd (Do rand c p op w))"
    by (simp add: Do_def)
  from do_loop_run [OF this] show ?thesis by simp
qed



end
