(* ===== verification/Fakes.thy ===== *)
theory Fakes imports Deploy Redact begin

text \<open>
  The in-process servers of package fakes: the OpenAI-compatible server of a runtime
  (internal/fakes/vllm.go) and the registration API of a gateway (internal/fakes/gateway.go), as state
  machines over requests. A request comes with the segments of its path and with what decoding the first JSON
  value of its body gave; an answer is written as text or as a value that the encoder prints. The handlers of
  the gateway hold its mutex, so that a request is one step; delays only take time and are left out.
\<close>

section \<open>Requests, answers, routes\<close>

record srequest =
  sq_method :: string
  sq_path :: "string list"
  sq_authorization :: string
  sq_idempotency :: string
  sq_body :: "json result"

datatype sbody = Text string | Value json

record sresponse =
  sr_status :: int
  sr_body :: sbody

text \<open>\<open>http.Error\<close> ends the text with a newline.\<close>

definition http_error :: "string \<Rightarrow> int \<Rightarrow> sresponse" where
  "http_error msg code = \<lparr>sr_status = code, sr_body = Text (msg @ [CHR 0x0A])\<rparr>"

definition error_body :: "string \<Rightarrow> string" where
  "error_body msg = ''{'' @ json_string ''error'' @ '': '' @ json_string msg @ ''}''"

text \<open>
  \<open>ServeMux\<close>: the answer of the pattern that fits the path, where GET stands for HEAD too; another method
  is refused, a path with an empty or dot element is redirected to its clean form.
\<close>

definition clean_path :: "string list \<Rightarrow> bool" where
  "clean_path p = (\<forall>x\<in>set p. x \<noteq> [] \<and> x \<noteq> ''.'' \<and> x \<noteq> ''..'')"

definition mux :: "(srequest \<Rightarrow> (string \<times> ('s \<Rightarrow> sresponse \<times> 's)) list) \<Rightarrow> srequest \<Rightarrow> 's \<Rightarrow> sresponse \<times> 's" where
  "mux routes q s =
     (if \<not> clean_path (sq_path q) then (\<lparr>sr_status = 301, sr_body = Text []\<rparr>, s)
      else case routes q of
        [] \<Rightarrow> (http_error ''404 page not found'' 404, s)
      | rs \<Rightarrow> (case filter (\<lambda>(m, h). m = sq_method q \<or> m = ''GET'' \<and> sq_method q = ''HEAD'') rs of
          [] \<Rightarrow> (http_error ''Method Not Allowed'' 405, s)
        | (m, h) # hs \<Rightarrow> (case h s of (a, s1) \<Rightarrow> ((if sq_method q = ''HEAD'' then a\<lparr>sr_body := Text []\<rparr> else a), s1))))"

section \<open>The fake vLLM\<close>

record vllm_options =
  vo_model :: string
  vo_api_key :: string
  vo_healthy_after :: int
  vo_fail_load :: bool
  vo_malformed_list :: bool

text \<open>The counter of an atomic 64-bit integer, far from its bound.\<close>

record vllm =
  v_opts :: vllm_options
  health_calls :: int

definition NewVLLM :: "vllm_options \<Rightarrow> vllm" where
  "NewVLLM opts = \<lparr>v_opts = (if vo_model opts = [] then opts\<lparr>vo_model := ''fake-model''\<rparr> else opts), health_calls = 0\<rparr>"

definition HealthCalls :: "vllm \<Rightarrow> int" where
  "HealthCalls v = health_calls v"

definition v_auth :: "vllm_options \<Rightarrow> srequest \<Rightarrow> (vllm \<Rightarrow> sresponse \<times> vllm) \<Rightarrow> vllm \<Rightarrow> sresponse \<times> vllm" where
  "v_auth opts q next_handler v =
     (if vo_api_key opts \<noteq> [] \<and> sq_authorization q \<noteq> ''Bearer '' @ vo_api_key opts
      then (http_error (error_body ''invalid api key'') 401, v) else next_handler v)"

definition handleHealth :: "vllm \<Rightarrow> sresponse \<times> vllm" where
  "handleHealth v =
     (let calls = health_calls v + 1; v1 = v\<lparr>health_calls := calls\<rparr>
      in if vo_fail_load (v_opts v) then (http_error ''engine failed to load model'' 500, v1)
         else if calls \<le> vo_healthy_after (v_opts v) then (http_error ''starting'' 503, v1)
         else (\<lparr>sr_status = 200, sr_body = Text []\<rparr>, v1))"

definition truncated_list :: string where
  "truncated_list = ''{'' @ json_string ''object'' @ '': '' @ json_string ''list'' @ '', '' @ json_string ''data'' @
     '': [{'' @ json_string ''id'' @ '': ''"

definition handleModels :: "vllm \<Rightarrow> sresponse \<times> vllm" where
  "handleModels v =
     ((if vo_malformed_list (v_opts v) then \<lparr>sr_status = 200, sr_body = Text truncated_list\<rparr>
       else \<lparr>sr_status = 200, sr_body = Value (JObj
         [(''data'', JArr [JObj [(''id'', JStr (vo_model (v_opts v))), (''object'', JStr ''model'')]]),
          (''object'', JStr ''list'')])\<rparr>), v)"

text \<open>\<open>json.Marshal\<close> of a value whose objects have their keys in order.\<close>

fun marshal :: "json \<Rightarrow> string" where
  "marshal JNull = ''null''"
| "marshal (JBool b) = (if b then ''true'' else ''false'')"
| "marshal (JNum t) = t"
| "marshal (JStr s) = json_string s"
| "marshal (JArr js) = ''['' @ join_with '','' (map marshal js) @ '']''"
| "marshal (JObj kvs) = json_object (map (\<lambda>(k, v). (k, marshal v)) kvs)"

definition chunk :: "string \<Rightarrow> string \<Rightarrow> json" where
  "chunk model token = JObj
     [(''choices'', JArr [JObj [(''delta'', JObj [(''content'', JStr token)]), (''index'', JNum ''0'')]]),
      (''model'', JStr model), (''object'', JStr ''chat.completion.chunk'')]"

definition blank_line :: string where
  "blank_line = [CHR 0x0A, CHR 0x0A]"

text \<open>The server's writer flushes, so the other branch of the code is not taken.\<close>

definition stream_text :: "string \<Rightarrow> string list \<Rightarrow> string" where
  "stream_text model tokens = concat (map (\<lambda>t. ''data: '' @ marshal (chunk model t) @ blank_line) tokens) @
     ''data: [DONE]'' @ blank_line"

definition streamChat :: "vllm \<Rightarrow> sresponse" where
  "streamChat v = \<lparr>sr_status = 200, sr_body = Text (stream_text (vo_model (v_opts v)) [''po'', ''ng''])\<rparr>"

definition dec_chat :: "json \<Rightarrow> (string \<times> bool) result" where
  "dec_chat j = dec_struct [''model'', ''stream'']
     (\<lambda>k v (m, s). if k = ''model'' then setf (dec_string v m) (\<lambda>x. (x, s))
        else if k = ''stream'' then setf (dec_bool v s) (\<lambda>x. (m, x)) else Inr (m, s)) j ([], False)"

definition handleChat :: "srequest \<Rightarrow> vllm \<Rightarrow> sresponse \<times> vllm" where
  "handleChat q v =
     ((case (case sq_body q of Inl e \<Rightarrow> Inl e | Inr j \<Rightarrow> dec_chat j) of
         Inl e \<Rightarrow> http_error (error_body ''bad request'') 400
       | Inr (model, stream) \<Rightarrow>
         (if model \<noteq> vo_model (v_opts v) then http_error (error_body ''model not found'') 404
          else if stream then streamChat v
          else \<lparr>sr_status = 200, sr_body = Value (JObj
            [(''choices'', JArr [JObj [(''finish_reason'', JStr ''stop''), (''index'', JNum ''0''),
                (''message'', JObj [(''content'', JStr ''pong''), (''role'', JStr ''assistant'')])]]),
             (''model'', JStr (vo_model (v_opts v))), (''object'', JStr ''chat.completion'')])\<rparr>)), v)"

definition vllm_routes :: "vllm_options \<Rightarrow> srequest \<Rightarrow> (string \<times> (vllm \<Rightarrow> sresponse \<times> vllm)) list" where
  "vllm_routes opts q =
     (if sq_path q = [''health''] then [(''GET'', handleHealth)]
      else if sq_path q = [''v1'', ''models''] then [(''GET'', v_auth opts q handleModels)]
      else if sq_path q = [''v1'', ''chat'', ''completions''] then [(''POST'', v_auth opts q (handleChat q))] else [])"

definition vllm_step :: "srequest \<Rightarrow> vllm \<Rightarrow> sresponse \<times> vllm" where
  "vllm_step q v = mux (vllm_routes (v_opts v)) q v"

text \<open>\<open>ReadSSEContent\<close>: \<open>unmarshal\<close> is the parser of the library.\<close>

definition dec_delta :: "json \<Rightarrow> string result" where
  "dec_delta m = dec_struct [''delta''] (\<lambda>k v x. if k = ''delta'' then dec_message v x else Inr x) m []"

definition dec_deltas :: "json \<Rightarrow> string list result" where
  "dec_deltas j = dec_struct [''choices''] (\<lambda>k v cur. if k = ''choices'' then dec_list dec_delta v else Inr cur) j []"

definition sse_line :: "(string \<Rightarrow> json result) \<Rightarrow> string \<Rightarrow> string" where
  "sse_line unmarshal line =
     (if \<not> has_prefix line ''data: '' \<or> drop 6 line = ''[DONE]'' then []
      else case unmarshal (drop 6 line) of Inl e \<Rightarrow> []
        | Inr j \<Rightarrow> (case dec_deltas j of Inl e \<Rightarrow> [] | Inr deltas \<Rightarrow> concat deltas))"

definition ReadSSEContent :: "(string \<Rightarrow> json result) \<Rightarrow> string \<Rightarrow> string" where
  "ReadSSEContent unmarshal body = concat (map (sse_line unmarshal) (split_on CHR 0x0A body))"

section \<open>The fake gateway\<close>

record gateway_options =
  go_token :: string
  go_unavailable_for :: int
  go_fail_unregister :: bool

record registration =
  g_endpoint :: json
  g_idempotency_key :: string

record gateway =
  g_opts :: gateway_options
  registrations :: "string \<Rightarrow> registration option"
  register_calls :: int

definition NewGateway :: "gateway_options \<Rightarrow> gateway" where
  "NewGateway opts = \<lparr>g_opts = opts, registrations = Map.empty, register_calls = 0\<rparr>"

definition Registered :: "string \<Rightarrow> gateway \<Rightarrow> bool" where
  "Registered i g = (registrations g i \<noteq> None)"

definition RegisterCalls :: "gateway \<Rightarrow> int" where
  "RegisterCalls g = register_calls g"

definition g_auth :: "gateway_options \<Rightarrow> srequest \<Rightarrow> (gateway \<Rightarrow> sresponse \<times> gateway) \<Rightarrow> gateway \<Rightarrow> sresponse \<times> gateway" where
  "g_auth opts q next_handler g =
     (if go_token opts \<noteq> [] \<and> sq_authorization q \<noteq> ''Bearer '' @ go_token opts
      then (http_error (error_body ''unauthorized'') 401, g) else next_handler g)"

record register_body =
  rb_id :: string
  rb_model :: string
  rb_base_url :: string
  rb_api_key :: string
  rb_runtime :: string

definition dec_register :: "json \<Rightarrow> register_body result" where
  "dec_register j = dec_struct [''deployment_id'', ''model'', ''base_url'', ''api_key'', ''runtime'']
     (\<lambda>k v r. if k = ''deployment_id'' then setf (dec_string v (rb_id r)) (\<lambda>x. r\<lparr>rb_id := x\<rparr>)
        else if k = ''model'' then setf (dec_string v (rb_model r)) (\<lambda>x. r\<lparr>rb_model := x\<rparr>)
        else if k = ''base_url'' then setf (dec_string v (rb_base_url r)) (\<lambda>x. r\<lparr>rb_base_url := x\<rparr>)
        else if k = ''api_key'' then setf (dec_string v (rb_api_key r)) (\<lambda>x. r\<lparr>rb_api_key := x\<rparr>)
        else if k = ''runtime'' then setf (dec_string v (rb_runtime r)) (\<lambda>x. r\<lparr>rb_runtime := x\<rparr>)
        else Inr r) j \<lparr>rb_id = [], rb_model = [], rb_base_url = [], rb_api_key = [], rb_runtime = []\<rparr>"

text \<open>The registration a body asks for: its deployment, when all fields are there.\<close>

definition wanted :: "srequest \<Rightarrow> string option" where
  "wanted q = (case (case sq_body q of Inl e \<Rightarrow> Inl e | Inr j \<Rightarrow> dec_register j) of
     Inl e \<Rightarrow> None
   | Inr r \<Rightarrow> (if rb_id r = [] \<or> rb_model r = [] \<or> rb_base_url r = [] \<or> rb_api_key r = [] \<or> rb_runtime r = []
       then None else Some (rb_id r)))"

definition new_endpoint :: "string \<Rightarrow> json" where
  "new_endpoint i = JObj [(''deployment_id'', JStr i), (''id'', JStr (''ep-'' @ i)), (''status'', JStr ''registering'')]"

definition writeJSON :: "int \<Rightarrow> json \<Rightarrow> sresponse" where
  "writeJSON status payload = \<lparr>sr_status = status, sr_body = Value payload\<rparr>"

definition handleRegister :: "srequest \<Rightarrow> gateway \<Rightarrow> sresponse \<times> gateway" where
  "handleRegister q g0 =
     (let g = g0\<lparr>register_calls := register_calls g0 + 1\<rparr>; key = sq_idempotency q in
      if register_calls g \<le> go_unavailable_for (g_opts g) then (http_error (error_body ''gateway unavailable'') 503, g)
      else if key = [] then (http_error (error_body ''Idempotency-Key header required'') 400, g)
      else case wanted q of
        None \<Rightarrow> (http_error (error_body ''missing required fields'') 400, g)
      | Some i \<Rightarrow>
        (case registrations g i of
           Some existing \<Rightarrow>
             (if g_idempotency_key existing = key then (writeJSON 201 (g_endpoint existing), g)
              else (http_error (error_body ''deployment already registered'') 409, g))
         | None \<Rightarrow>
             (writeJSON 201 (new_endpoint i),
              g\<lparr>registrations := (registrations g)(i \<mapsto> \<lparr>g_endpoint = new_endpoint i, g_idempotency_key = key\<rparr>)\<rparr>)))"

definition handleGet :: "string \<Rightarrow> gateway \<Rightarrow> sresponse \<times> gateway" where
  "handleGet i g = (case registrations g i of
     None \<Rightarrow> (http_error (error_body ''not found'') 404, g)
   | Some reg \<Rightarrow> (writeJSON 200 (g_endpoint reg), g))"

definition handleUnregister :: "string \<Rightarrow> gateway \<Rightarrow> sresponse \<times> gateway" where
  "handleUnregister i g =
     (if go_fail_unregister (g_opts g) then (http_error (error_body ''internal error'') 500, g)
      else (\<lparr>sr_status = 204, sr_body = Text []\<rparr>, g\<lparr>registrations := (registrations g)(i := None)\<rparr>))"

definition gateway_routes :: "gateway_options \<Rightarrow> srequest \<Rightarrow> (string \<times> (gateway \<Rightarrow> sresponse \<times> gateway)) list" where
  "gateway_routes opts q =
     (case sq_path q of
        [a, b] \<Rightarrow> (if a = ''internal'' \<and> b = ''model-endpoints'' then [(''POST'', g_auth opts q (handleRegister q))] else [])
      | [a, b, i] \<Rightarrow>
          (if a = ''internal'' \<and> b = ''model-endpoints''
           then [(''GET'', g_auth opts q (handleGet i)), (''DELETE'', g_auth opts q (handleUnregister i))] else [])
      | _ \<Rightarrow> [])"

definition gateway_step :: "srequest \<Rightarrow> gateway \<Rightarrow> sresponse \<times> gateway" where
  "gateway_step q g = mux (gateway_routes (g_opts g)) q g"

section \<open>Registrations are idempotent\<close>

fun gateway_run :: "srequest list \<Rightarrow> gateway \<Rightarrow> sresponse list \<times> gateway" where
  "gateway_run [] g = ([], g)"
| "gateway_run (q # qs) g =
     (case gateway_step q g of (a, g1) \<Rightarrow> (case gateway_run qs g1 of (as, g2) \<Rightarrow> (a # as, g2)))"

definition unregisters :: "string \<Rightarrow> srequest \<times> sresponse \<Rightarrow> bool" where
  "unregisters i x = (sq_method (fst x) = ''DELETE'' \<and> sq_path (fst x) = [''internal'', ''model-endpoints'', i] \<and> sr_status (snd x) = 204)"

text \<open>A request goes to one of the three handlers or leaves the gateway alone.\<close>

lemma gateway_step_cases:
  assumes "gateway_step q g = (a, g')"
  obtains (register) "sq_method q = ''POST''" "handleRegister q g = (a, g')"
  | (unregister) i where "sq_method q = ''DELETE''" "sq_path q = [''internal'', ''model-endpoints'', i]" "handleUnregister i g = (a, g')"
  | (none) "g' = g" "sr_status a \<noteq> 201"
  using assms unfolding gateway_step_def mux_def gateway_routes_def
  by (auto simp: g_auth_def handleGet_def http_error_def writeJSON_def split: if_splits list.splits option.splits prod.splits)

lemma status_simps [simp]: "sr_status (writeJSON c p) = c" "sr_status (http_error m c) = c"
  by (simp_all add: writeJSON_def http_error_def)

lemma register_exact:
  assumes "handleRegister q g = (a, g')"
  shows "g_opts g' = g_opts g \<and> register_calls g' = register_calls g + 1 \<and>
    (\<forall>j old. registrations g j = Some old \<longrightarrow> registrations g' j = Some old) \<and>
    (sr_status a = 201 \<longrightarrow> register_calls g' > go_unavailable_for (g_opts g) \<and> (\<exists>i reg. wanted q = Some i \<and>
       registrations g' i = Some reg \<and> g_idempotency_key reg = sq_idempotency q \<and> a = writeJSON 201 (g_endpoint reg)))"
  using assms unfolding handleRegister_def Let_def
  by (auto split: if_splits option.splits)

lemma gateway_step_keeps:
  assumes "gateway_step q g = (a, g')" "registrations g i = Some reg" "\<not> unregisters i (q, a)"
  shows "registrations g' i = Some reg \<and> g_opts g' = g_opts g \<and> register_calls g \<le> register_calls g'"
  using assms(1)
proof (cases rule: gateway_step_cases)
  case register
  from register_exact [OF register(2)] assms(2) show ?thesis by auto
next
  case (unregister j)
  with assms(2,3) show ?thesis by (auto simp: handleUnregister_def unregisters_def split: if_splits)
qed (use assms(2) in simp)

lemma gateway_run_keeps:
  assumes "gateway_run qs g = (as, g')" "registrations g i = Some reg" "list_all (\<lambda>x. \<not> unregisters i x) (zip qs as)"
  shows "registrations g' i = Some reg \<and> g_opts g' = g_opts g \<and> register_calls g \<le> register_calls g'"
  using assms
proof (induction qs arbitrary: g as)
  case (Cons q qs)
  obtain a g1 where 1: "gateway_step q g = (a, g1)" by fastforce
  obtain bs where 2: "gateway_run qs g1 = (bs, g')" "as = a # bs" using Cons.prems(1) 1 by (auto split: prod.splits)
  note k = gateway_step_keeps [OF 1 Cons.prems(2)]
  have "\<not> unregisters i (q, a)" using Cons.prems(3) 2(2) by simp
  with k have "registrations g1 i = Some reg" by blast
  from Cons.IH [OF 2(1) this] Cons.prems(3) 2(2) k \<open>\<not> unregisters i (q, a)\<close> show ?case by auto
qed simp

text \<open>
  Registrations are idempotent: once the gateway answered 201 to the registration of a deployment, then
  whatever requests follow, as long as the deployment is not unregistered, a repetition with the same key gets
  the very same answer, one with another key a conflict, neither changes anything, and the deployment stays
  registered.
\<close>

theorem registration_idempotent:
  assumes "gateway_step q g = (a, g1)" "sr_status a = 201" "wanted q = Some i"
    "gateway_run qs g1 = (as, g2)" "list_all (\<lambda>x. \<not> unregisters i x) (zip qs as)"
    "sq_method q' = ''POST''" "sq_path q' = [''internal'', ''model-endpoints'']" "wanted q' = Some i" "sq_idempotency q' \<noteq> []"
    "go_token (g_opts g) = [] \<or> sq_authorization q' = ''Bearer '' @ go_token (g_opts g)"
    "gateway_step q' g2 = (a', g3)"
  shows "Registered i g2 \<and> g3 = g2\<lparr>register_calls := register_calls g2 + 1\<rparr> \<and>
    (if sq_idempotency q' = sq_idempotency q then a' = a else sr_status a' = 409)"
proof -
  have reg: "handleRegister q g = (a, g1)"
    using assms(1,2) by (cases rule: gateway_step_cases) (auto simp: handleUnregister_def http_error_def split: if_splits)
  obtain r where r: "registrations g1 i = Some r" "g_idempotency_key r = sq_idempotency q" "a = writeJSON 201 (g_endpoint r)"
    "register_calls g1 > go_unavailable_for (g_opts g)" "g_opts g1 = g_opts g"
    using register_exact [OF reg] assms(2,3) by auto
  note k = gateway_run_keeps [OF assms(4) r(1) assms(5)]
  have "gateway_step q' g2 = handleRegister q' g2"
    using assms(6,7,10) k r(5) by (auto simp: gateway_step_def mux_def gateway_routes_def clean_path_def g_auth_def split: prod.split)
  then have "handleRegister q' g2 = (a', g3)" using assms(11) by simp
  then show ?thesis using k r assms(8,9) by (auto simp: handleRegister_def Let_def Registered_def http_error_def split: if_splits)
qed

section \<open>Reading a stream back\<close>

lemma hex_digit_plain: "d < 16 \<Longrightarrow> hex_digit d \<noteq> CHR 0x0A"
proof
  assume d: "d < 16" "hex_digit d = CHR 0x0A"
  have "of_char (hex_digit d) = (if d < 10 then 48 + d else 87 + d)" using d(1) by (simp add: hex_digit_def)
  with d show False by (simp split: if_splits)
qed

lemma json_char_plain: "CHR 0x0A \<notin> set (json_char c)"
proof -
  have "of_char c div (16::nat) < 16" using nat_of_char_less_256 [of c] by (intro less_mult_imp_div_less) simp
  then have "CHR 0x0A \<noteq> hex_digit (of_char c div 16)" "CHR 0x0A \<noteq> hex_digit (of_char c mod 16)"
    using hex_digit_plain [of "of_char c div 16"] hex_digit_plain [of "of_char c mod 16"] by (metis, metis mod_less_divisor zero_less_numeral)
  then show ?thesis by (simp add: json_char_def)
qed

lemma json_string_plain: "CHR 0x0A \<notin> set (json_string s)"
  using json_char_plain by (simp add: json_string_def)

lemma chunk_plain: "CHR 0x0A \<notin> set (marshal (chunk m t))"
  using json_string_plain by (simp add: chunk_def json_object_def)

lemma chunk_head: "\<exists>s. marshal (chunk m t) = CHR ''{'' # s"
  by (simp add: chunk_def json_object_def)

lemma chunk_fields:
  "field_of [''choices''] ''choices'' = ''choices''" "field_of [''choices''] ''model'' = []" "field_of [''choices''] ''object'' = []"
  "field_of [''delta''] ''delta'' = ''delta''" "field_of [''delta''] ''index'' = []" "field_of [''content''] ''content'' = ''content''"
  by code_simp+

lemma dec_chunk: "dec_deltas (chunk m t) = Inr [t]"
  by (simp add: dec_deltas_def dec_delta_def dec_message_def chunk_def dec_struct_def dec_list_def chunk_fields)

lemma sse_chunk:
  assumes "unmarshal (marshal (chunk m t)) = Inr (chunk m t)"
  shows "sse_line unmarshal (''data: '' @ marshal (chunk m t)) = t"
  using assms chunk_head [of m t] by (auto simp: sse_line_def has_prefix_def dec_chunk)

lemma sse_other: "sse_line unmarshal [] = []" "sse_line unmarshal ''data: [DONE]'' = []"
  by (simp_all add: sse_line_def has_prefix_def)

lemma split_event:
  "split_on CHR 0x0A (''data: '' @ marshal (chunk m t) @ blank_line @ rest) =
     [''data: '' @ marshal (chunk m t), []] @ split_on CHR 0x0A rest"
proof -
  have "CHR 0x0A \<notin> set (''data: '' @ marshal (chunk m t))" using chunk_plain by simp
  then show ?thesis
    using split_on_append [of "CHR 0x0A" "''data: '' @ marshal (chunk m t)" "CHR 0x0A # rest"] by (simp add: blank_line_def split_on_no_sep)
qed

text \<open>
  A stream reads back: whatever the name of the model and the tokens of the answer, quotes, control
  characters and line ends included, \<open>ReadSSEContent\<close> of the event stream the server writes is the
  tokens one after the other, if the parser of the library reads what its printer wrote for these events.
\<close>

theorem stream_roundtrip:
  assumes "\<forall>t\<in>set tokens. unmarshal (marshal (chunk model t)) = Inr (chunk model t)"
  shows "ReadSSEContent unmarshal (stream_text model tokens) = concat tokens"
  using assms
proof (induction tokens)
  case Nil
  have "split_on CHR 0x0A (''data: [DONE]'' @ blank_line) = [''data: [DONE]'', [], []]" by (simp add: blank_line_def)
  then show ?case by (simp add: ReadSSEContent_def stream_text_def sse_other)
next
  case (Cons t ts)
  have e: "stream_text model (t # ts) = ''data: '' @ marshal (chunk model t) @ blank_line @ stream_text model ts"
    by (simp add: stream_text_def)
  have ih: "concat (map (sse_line unmarshal) (split_on CHR 0x0A (stream_text model ts))) = concat ts"
    using Cons by (simp add: ReadSSEContent_def)
  have one: "sse_line unmarshal (''data: '' @ marshal (chunk model t)) = t" using Cons.prems by (intro sse_chunk) simp
  show ?case unfolding ReadSSEContent_def e split_event map_append concat_append ih
    unfolding list.map one sse_other by simp
qed

text \<open>A parser that knows one event.\<close>

theorem stream_roundtrip_witness:
  "ReadSSEContent (\<lambda>s. if s = marshal (chunk ''m'' [quote, CHR 0x0A]) then Inr (chunk ''m'' [quote, CHR 0x0A]) else Inl type_error)
     (stream_text ''m'' [[quote, CHR 0x0A]]) = [quote, CHR 0x0A]"
  using stream_roundtrip [of "[[quote, CHR 0x0A]]"] by simp

section \<open>The readiness check against the fake\<close>

text \<open>The network between them: the path after the base of the URL, and the bodies through the parser.\<close>

definition to_server :: "(string \<Rightarrow> json result) \<Rightarrow> string \<Rightarrow> request \<Rightarrow> srequest" where
  "to_server parse base q = \<lparr>sq_method = q_method q, sq_path = tl (split_on CHR ''/'' (drop (length base) (q_url q))),
     sq_authorization = q_authorization q, sq_idempotency = [], sq_body = parse (q_content q)\<rparr>"

definition seen :: "(string \<Rightarrow> json result) \<Rightarrow> sresponse \<Rightarrow> response" where
  "seen parse a = \<lparr>s_status = sr_status a, s_body = Inr (case sr_body a of Text t \<Rightarrow> parse t | Value j \<Rightarrow> Inr j)\<rparr>"

definition fake_service :: "(string \<Rightarrow> json result) \<Rightarrow> string \<Rightarrow> vllm \<Rightarrow> service" where
  "fake_service parse base v = (\<lambda>n q. Inr (seen parse (fst (vllm_step (to_server parse base q) v))))"

definition inference_tree :: "string \<Rightarrow> json" where
  "inference_tree i = JObj
     [(''max_tokens'', JNum ''8''),
      (''messages'', JArr [JObj [(''content'', JStr ''Reply with one word.''), (''role'', JStr ''user'')]]),
      (''model'', JStr i), (''temperature'', JNum ''0'')]"

lemma inference_marshal: "marshal (inference_tree i) = inference_body i"
  by (simp add: inference_tree_def inference_body_def json_object_def)

lemma chat_fields:
  "field_of [''model'', ''stream''] ''model'' = ''model''" "field_of [''model'', ''stream''] ''max_tokens'' = []"
  "field_of [''model'', ''stream''] ''messages'' = []" "field_of [''model'', ''stream''] ''temperature'' = []"
  by code_simp+

lemma dec_inference: "dec_chat (inference_tree i) = Inr (i, False)"
  by (simp add: dec_chat_def inference_tree_def dec_struct_def chat_fields setf_def)

lemma server_paths:
  "sq_path (to_server parse base \<lparr>q_method = ''GET'', q_url = base @ ''/v1/models'', q_authorization = a, q_type = [], q_content = []\<rparr>) = [''v1'', ''models'']"
  "sq_path (to_server parse base (inference_request base spec)) = [''v1'', ''chat'', ''completions'']"
  by (simp_all add: to_server_def inference_request_def)

lemma list_fields:
  "field_of [''data''] ''data'' = ''data''" "field_of [''data''] ''object'' = []" "field_of [''id''] ''id'' = ''id''" "field_of [''id''] ''object'' = []"
  "field_of [''message''] ''message'' = ''message''" "field_of [''message''] ''index'' = []" "field_of [''message''] ''finish_reason'' = []"
  "field_of [''content''] ''role'' = []"
  by code_simp+

lemmas decode_simps = dec_struct_def dec_list_def setf_def chunk_fields chat_fields list_fields

lemma models_answer:
  assumes "v_opts v = opts" "parse truncated_list = Inl e"
  shows "authedGet (fake_service parse base v) (base @ ''/v1/models'') key o1 =
     (if vo_api_key opts \<noteq> [] \<and> vo_api_key opts \<noteq> key then Inl (Errorf ''status %d'' [ArgD 401])
      else Inr (if vo_malformed_list opts then Inl e
        else Inr (JObj [(''data'', JArr [JObj [(''id'', JStr (vo_model opts)), (''object'', JStr ''model'')]]), (''object'', JStr ''list'')])), step_os o1)"
  using assms
  by (simp add: authedGet_def http_do_def fake_service_def server_paths vllm_step_def mux_def vllm_routes_def clean_path_def
      v_auth_def handleModels_def seen_def to_server_def)

lemma inference_answer:
  assumes "v_opts v = opts" "vo_api_key opts = [] \<or> vo_api_key opts = ds_api_key spec" "vo_model opts = ds_id spec"
    "parse (inference_body (ds_id spec)) = Inr (inference_tree (ds_id spec))"
  shows "inference_check (fst (http_do (fake_service parse base v) (inference_request base spec) o1)) = Inr ()"
proof -
  have body: "sq_body (to_server parse base (inference_request base spec)) = Inr (inference_tree (ds_id spec))"
    using assms(4) by (simp add: to_server_def inference_request_def)
  have meth: "sq_method (to_server parse base (inference_request base spec)) = ''POST''"
    "sq_authorization (to_server parse base (inference_request base spec)) = ''Bearer '' @ ds_api_key spec"
    by (simp_all add: to_server_def inference_request_def)
  show ?thesis using assms(1-3)
    by (auto simp: http_do_def fake_service_def vllm_step_def mux_def vllm_routes_def server_paths meth body clean_path_def
        v_auth_def handleChat_def dec_inference seen_def inference_check_def dec_choices_def dec_message_def decode_simps)
qed

text \<open>
  C15. The readiness check of deploy accepts a fake runtime exactly when it serves the deployment under its id,
  with the key of the deployment or none, and lists its models correctly: given that the parser of the library
  reads the request back and refuses the truncated list.
\<close>

theorem readiness_of_fake:
  assumes "dd_http deps = fake_service parse base v" "v_opts v = v_opts (NewVLLM opts)"
    "parse (marshal (inference_tree (ds_id spec))) = Inr (inference_tree (ds_id spec))" "parse truncated_list = Inl e"
  shows "fst (readinessProbe deps base spec o1) = Inr () \<longleftrightarrow>
    ds_id spec = (if vo_model opts = [] then ''fake-model'' else vo_model opts) \<and>
    (vo_api_key opts = [] \<or> vo_api_key opts = ds_api_key spec) \<and> \<not> vo_malformed_list opts"
proof -
  define o' where "o' = v_opts (NewVLLM opts)"
  have o': "vo_model o' = (if vo_model opts = [] then ''fake-model'' else vo_model opts)" "vo_api_key o' = vo_api_key opts"
    "vo_malformed_list o' = vo_malformed_list opts" "v_opts v = o'"
    using assms(2) by (simp_all add: o'_def NewVLLM_def)
  have ids: "dec_ids (JObj [(''data'', JArr [JObj [(''id'', JStr m), (''object'', JStr ''model'')]]), (''object'', JStr ''list'')]) = Inr [m]" for m
    by (simp add: dec_ids_def decode_simps)
  note models = models_answer [where v = v and opts = o' and parse = parse and e = e and base = base and key = "ds_api_key spec" and ?o1.0 = o1, OF o'(4) assms(4)]
  show ?thesis
  proof (cases "(vo_api_key o' = [] \<or> vo_api_key o' = ds_api_key spec) \<and> \<not> vo_malformed_list o' \<and> vo_model o' = ds_id spec")
    case True
    then have "inference_check (fst (http_do (fake_service parse base v) (inference_request base spec) (step_os o1))) = Inr ()"
      using inference_answer [OF o'(4)] assms(3) unfolding inference_marshal by blast
    with True show ?thesis using o'(1-3) by (auto simp: readinessProbe_def assms(1) models ids split: prod.split)
  next
    case False
    then show ?thesis using o'(1-3) by (auto simp: readinessProbe_def assms(1) models ids split: if_splits)
  qed
qed

definition demo_parse :: "string \<Rightarrow> json result" where
  "demo_parse s = (if s = inference_body ''m'' then Inr (inference_tree ''m'') else Inl type_error)"

definition fake_spec :: deploy_spec where
  "fake_spec = \<lparr>ds_id = ''m'', ds_alias = ''m'', ds_artifact = ''o/m'', ds_revision = [], ds_port = 8000,
     ds_max_model_len = 8192, ds_api_key = ''iold-1'', ds_cache_dir = [], ds_quantization = [], ds_min_driver = 570,
     ds_min_compute = 75, ds_min_vram = 0, ds_min_disk = 0\<rparr>"

definition demo_opts :: vllm_options where
  "demo_opts = \<lparr>vo_model = ''m'', vo_api_key = ''iold-1'', vo_healthy_after = 2, vo_fail_load = False, vo_malformed_list = False\<rparr>"

definition fake_deps :: deploy_deps where
  "fake_deps = (defaultDeployDeps demo_env sample_probes (\<lambda>n q. Inl type_error) (\<lambda>n q. Inl type_error))
     \<lparr>dd_http := fake_service demo_parse ''http://h'' (NewVLLM demo_opts)\<rparr>"

theorem readiness_of_fake_witness: "fst (readinessProbe fake_deps ''http://h'' fake_spec idle_os) = Inr ()"
proof -
  have "inference_body ''m'' \<noteq> truncated_list" by code_simp
  then show ?thesis
    using readiness_of_fake [of fake_deps demo_parse "''http://h''" "NewVLLM demo_opts" demo_opts fake_spec type_error idle_os]
    by (simp add: fake_deps_def demo_parse_def fake_spec_def demo_opts_def inference_marshal)
qed

definition demo_register :: "string \<Rightarrow> srequest" where
  "demo_register key = \<lparr>sq_method = ''POST'', sq_path = [''internal'', ''model-endpoints''], sq_authorization = ''Bearer t'',
     sq_idempotency = key, sq_body = Inr (JObj [(''deployment_id'', JStr ''m''), (''model'', JStr ''m''), (''base_url'', JStr ''u''),
       (''api_key'', JStr ''k''), (''runtime'', JStr ''vllm'')])\<rparr>"

definition demo_get :: srequest where
  "demo_get = \<lparr>sq_method = ''GET'', sq_path = [''internal'', ''model-endpoints'', ''m''], sq_authorization = ''Bearer t'',
     sq_idempotency = [], sq_body = Inl type_error\<rparr>"

definition demo_gateway :: gateway where
  "demo_gateway = NewGateway \<lparr>go_token = ''t'', go_unavailable_for = 0, go_fail_unregister = False\<rparr>"

theorem registration_idempotent_witness:
  "(let g1 = snd (gateway_step (demo_register ''a'') demo_gateway); g2 = snd (gateway_run [demo_get] g1)
    in sr_status (fst (gateway_step (demo_register ''b'') g2)) = 409 \<and> Registered ''m'' g2)"
proof -
  define a where "a = fst (gateway_step (demo_register ''a'') demo_gateway)"
  define g1 where "g1 = snd (gateway_step (demo_register ''a'') demo_gateway)"
  define as where "as = fst (gateway_run [demo_get] g1)"
  define g2 where "g2 = snd (gateway_run [demo_get] g1)"
  have 1: "gateway_step (demo_register ''a'') demo_gateway = (a, g1)" "gateway_run [demo_get] g1 = (as, g2)"
    by (simp_all add: a_def g1_def as_def g2_def)
  have 2: "sr_status a = 201" unfolding a_def by code_simp
  have 3: "wanted (demo_register x) = Some ''m''" for x unfolding demo_register_def wanted_def by code_simp
  have 4: "list_all (\<lambda>x. \<not> unregisters ''m'' x) (zip [demo_get] as)"
    by (cases as) (simp_all add: unregisters_def demo_get_def)
  have "Registered ''m'' g2 \<and> sr_status (fst (gateway_step (demo_register ''b'') g2)) = 409"
    using registration_idempotent [OF 1(1) 2 3 1(2) 4 _ _ 3 _ _ prod.collapse [symmetric], of "''b''"]
    by (simp add: demo_register_def demo_gateway_def NewGateway_def)
  then show ?thesis by (simp add: Let_def g1_def g2_def)
qed

end
