(* ===== verification/Spec2Isabelle.thy ===== *)
theory Spec2Isabelle imports Commands StateFile PsIdentity Retry OperationLock Fakes begin

text \<open>
  IOLD: a verification library for the command \<open>iold\<close>, which deploys one open-source language model
  on a GPU host: it resolves a model, checks the host, starts a vLLM server detached, records it in a
  database and later reports, stops and cleans up what it owns. All paths below are under \<open>src/\<close>.

  \<^bold>\<open>The program.\<close> \<open>cmd/iold/main.go\<close> calls \<open>cli.Run\<close> (internal/cli/cli.go), which selects a
  command and returns an error value; \<open>main\<close> prints it and exits with its code
  (internal/cli/exitcode.go). The commands \<open>deploy\<close> (internal/cli/deploy.go), \<open>destroy\<close> and \<open>status\<close>
  (cli.go) work on the records of a SQLite database (internal/state), whose phases follow a state machine;
  an exclusive lock on a file (internal/operationlock) serialises them between processes. \<open>deploy\<close>
  resolves a reference with the catalog (internal/catalog) or the Hugging Face hub (internal/hf), gates it on
  an estimate of its memory (internal/planner), checks the host (internal/preflight over internal/doctor),
  replaces what is there, and then drives the new record through its phases while the supervisor
  (internal/supervisor) starts the runtime and the command polls it. Each command first recovers records that
  an interrupted run left behind. The output of a runtime goes through a log proxy, the same binary started
  again, which redacts secrets (internal/redact). internal/retry is the retry loop for calls that may fail for
  a while, internal/fakes the servers its tests run against.

  \<^bold>\<open>The theories\<close>, in the order in which they build on one another:

  \<^item> Prelude: the packages strings, strconv and time, shared lemmas and the named collections
    \<open>go_simps\<close>, \<open>inv_intros\<close>, \<open>os_frames\<close>; the locale \<open>op_system\<close> lifts an invariant and a preorder
    from single operations to every sequence of operations.
  \<^item> GoErrors: error values with wrapping, \<open>errors.Is\<close> and \<open>errors.As\<close>, their texts, and \<open>ExitCode\<close>.
    A fallible function returns \<open>goerr + 'a\<close>; each error return of the source is a branch.
  \<^item> PhaseMachine: internal/state/machine.go, with the documented machine as the relation \<open>phase_step\<close>.
  \<^item> StateStore and StoreSpec: internal/state/store.go. The database is a list of rows with a version, and a
    list of faults says which driver calls fail, before or after they took effect. StoreSpec refines every
    operation to a map from ids to deployments, and lifts the invariants to all sequences of operations. The
    locale \<open>phase_store\<close> is what the commands rely on; it is interpreted on the store (\<open>db\<close>).
  \<^item> Paths: path/filepath on Unix, ids and owned directories (cli.go, deploy.go).
  \<^item> Processes, Supervisor, SupervisorSpec: the operating system is an arbitrary sequence of snapshots, one
    per call, so every interleaving with other processes is covered; internal/supervisor/supervisor.go,
    identity_linux.go and ports.go run against it. PsIdentity is identity_darwin.go and identity_other.go.
  \<^item> FileSystem, Ownership: a tree with symbolic links and faults; the ownership marker of a model cache, the
    removal of owned data and the key file (cli.go, deploy.go). Links are followed at most 40 times, as
    Linux does.
  \<^item> Lifecycle, LifecycleSpec: \<open>recoverInterruptedDeployments\<close>, \<open>destroyOne\<close>, \<open>runDestroy\<close>,
    \<open>runStatus\<close> up to its printing and \<open>resolveTarget\<close> (cli.go), over a \<open>world\<close> of database, operating
    system, file system, environment and output.
  \<^item> Numbers: \<open>float64\<close> as rationals rounded to 53 bits; the locale \<open>float_rounding\<close> is all that the
    clients use of rounding, interpreted on \<open>rnd\<close>.
  \<^item> Retry: internal/retry/retry.go over a clock and a context that can end.
  \<^item> Hub: internal/hf/hf.go and internal/catalog/catalog.go, with the decoding rules of encoding/json.
  \<^item> Planner: internal/planner/planner.go and suggest.go, in 64-bit integers that wrap.
  \<^item> Doctor: internal/doctor/doctor.go and probes.go, internal/preflight/preflight.go.
  \<^item> Deploy, DeploySpec, DeployTheorems: internal/cli/deploy.go.
  \<^item> OperationLock: internal/operationlock/lock.go, and the processes that compete for it as an inductive
    step relation in which any process may be killed at any point.
  \<^item> Plan: internal/cli/plan.go.
  \<^item> Redact: internal/redact/redact.go; its regular expressions are matched leftmost-first, as Go does. The
    locale \<open>line_writer\<close> is what the copy of a log needs of its writer.
  \<^item> Logs: \<open>runLogProxy\<close> (internal/supervisor/log_proxy.go) and \<open>runLogs\<close> (cli.go);
    \<open>line_writer\<close> is interpreted on the open log file and on standard output.
  \<^item> StateFile: the files that \<open>state.Open\<close> prepares (store.go).
  \<^item> Report: the printing of \<open>runStatus\<close>: text/tabwriter, indented JSON, calendar times.
  \<^item> Commands: \<open>Run\<close>, \<open>runDoctor\<close>, \<open>printUsage\<close> (cli.go), \<open>main\<close>, and the hook that starts the log proxy.
  \<^item> Fakes: internal/fakes/vllm.go and gateway.go as state machines over requests.

  \<^bold>\<open>What is shown.\<close> Processes: every signal goes to the process group the record names, after its
  identity was seen (SupervisorSpec), destroy gives up data and record only after the group was seen empty
  (LifecycleSpec), and no command but deploy and destroy signals anything or changes a file (Commands).
  Records: they move along the state machine only, whoever interleaves and whatever the driver does
  (StoreSpec), recovery settles every record or reports an error (LifecycleSpec), and commands under the lock
  have the effect of running one after the other (OperationLock). Deployments: success was observed, failure
  is recorded, an existing deployment is replaced only after every check, and the command returns
  (DeployTheorems). Files: owned paths stay below their roots, a cache is removed or taken over only by its
  owner (Paths, Ownership), and state, lock and logs are readable by their owner only (StateFile, Logs).
  Secrets: no known token survives the redaction, in the log or on the screen (Redact, Logs). Numbers: the
  estimate is exact for models of sensible size, and its verdict is that of the exact sum; the backoff stays
  in its bounds (Planner, Retry). The surface: errors are reported with their codes, malformed command lines
  do nothing, and the table of status reads back to the records (Commands, Report).

  \<^bold>\<open>Loops and bounds.\<close> Loops over lists are structural or have a measure. The two loops of deploy
  that poll a server end only because time passes; they are partial functions into \<open>option\<close> with
  \<open>None\<close> for a run without end, and \<open>deploy_returns\<close> proves that there is none when the
  polling interval is positive. The wait of \<open>Stop\<close> for a group to exit is a recursion on the time that is left.
  The lock is a step relation, so a call that waits is a state, not a missing value. A log line longer than
  the buffer of one mebibyte ends the copy with an error, as the scanner does.

  \<^bold>\<open>Parameters.\<close> Code outside \<open>src/\<close> is an argument: HTTP servers and the JSON parser (what reading
  a body gave), the SQLite driver (its faults), \<open>nvidia-smi\<close>, \<open>statfs\<close>, \<open>ps\<close>, the answers of a process
  launch, random bytes, the order \<open>sort.Slice\<close> gives to equal keys, errors of standard output.

  \<^bold>\<open>Not modelled.\<close> The pragmas and the connection pool of the driver, and \<open>Store.Close\<close>; the sockets of
  \<open>net.Listen\<close> behind \<open>PortFree\<close> and of the test servers, with the delays of the latter; the wiring of a
  child process (\<open>exec.Cmd\<close>, pipes, sessions), of which the errors and the new pid are kept; locale
  effects: lower-casing and white space are those of ASCII, and texts are valid UTF-8 where \<open>tabwriter\<close> and
  the JSON encoder count characters. Writes of several lines to standard output fail between lines, not
  inside one. The commands of one process run to their end: killing a process half-way is part of
  OperationLock, and recovery is proved for any records that such a run can leave.
\<close>

end
